(* ===== verification/Prelude.thy ===== *)
theory Prelude
  imports Main "HOL-Library.Word" "HOL-Library.AList"
begin

text \<open>
  Shared vocabulary of the development: the theorem collections, association lists as the
  model of Go maps whose iteration order matters, runs of a state machine over a list of
  events, and the invariant locale from which every component lifts a one-step law to runs.
\<close>

named_theorems byte_simps \<open>encoding and decoding of fixed-width integers and strings\<close>
named_theorems alist_simps \<open>lookup in and size of association lists\<close>

unbundle bit_operations_syntax

type_synonym byte = "8 word"
type_synonym packet = "byte list"

subsection \<open>Association lists as Go maps\<close>

text \<open>A Go map is a list of key and value pairs with distinct keys, in the order one
  particular \<open>range\<close> loop would visit them.\<close>

abbreviation keys :: "('k \<times> 'v) list \<Rightarrow> 'k list" where
  "keys m \<equiv> map fst m"

lemma map_of_alist_update [alist_simps]: "map_of (AList.update k v m) = (map_of m)(k \<mapsto> v)"
  by (rule update_conv')

lemma map_of_alist_delete [alist_simps]: "map_of (AList.delete k m) = (map_of m)(k := None)"
  by (rule delete_conv')

lemma length_alist_update [alist_simps]:
  "length (AList.update k v m) = (if k \<in> set (keys m) then length m else Suc (length m))"
  by (induction m) auto

lemma distinct_keys_update: "distinct (keys m) \<Longrightarrow> distinct (keys (AList.update k v m))"
  by (rule distinct_update)

lemma distinct_keys_delete: "distinct (keys m) \<Longrightarrow> distinct (keys (AList.delete k m))"
  by (rule distinct_delete)

lemma distinct_keys_filter: "distinct (keys m) \<Longrightarrow> distinct (keys (filter P m))"
  by (rule distinct_map_filter)

lemma map_of_filter_value:
  assumes "distinct (keys m)"
  shows "map_of (filter (\<lambda>(k, v). P v) m) k =
    (case map_of m k of None \<Rightarrow> None | Some v \<Rightarrow> if P v then Some v else None)"
  using assms
proof (induction m)
  case Nil
  then show ?case by simp
next
  case (Cons kv m)
  obtain k0 v0 where kv: "kv = (k0, v0)" by (cases kv)
  with Cons.prems have "k0 \<notin> set (keys m)" by simp
  then have "map_of m k0 = None" by (simp add: map_of_eq_None_iff)
  with Cons kv show ?case by auto
qed

lemma length_delete_present:
  assumes "distinct (keys m)" and "k \<in> set (keys m)"
  shows "Suc (length (AList.delete k m)) = length m"
  using assms
proof (induction m)
  case Nil
  then show ?case by simp
next
  case (Cons kv m)
  show ?case
  proof (cases "fst kv = k")
    case True
    with Cons.prems have "k \<notin> set (keys m)" by auto
    then have "AList.delete k m = m" by (simp add: delete_id)
    with True show ?thesis by simp
  next
    case False
    with Cons show ?thesis by auto
  qed
qed

lemma set_delete_subset: "set (AList.delete k m) \<subseteq> set m"
  by (induction m) auto

lemma keys_alist_update [alist_simps]:
  "fst ` set (AList.update k v m) = insert k (fst ` set m)"
  by (simp add: dom_update)

lemma keys_alist_delete [alist_simps]:
  "fst ` set (AList.delete k m) = fst ` set m - {k}"
  by (induction m) auto

lemma in_alist_update: "kv \<in> set (AList.update k v m) \<Longrightarrow> kv \<in> set m \<or> kv = (k, v)"
  by (induction m) (auto split: if_splits)

lemma keys_mono_card:
  assumes "distinct (keys m)" and "set (keys m) \<subseteq> I" and "finite I"
  shows "length m \<le> card I"
  using assms by (metis card_mono distinct_card length_map)

subsection \<open>Runs of a state machine\<close>

text \<open>A component with state is a step function from a state and an event to an output and
  the next state; a run feeds it a list of events and collects the outputs.\<close>

fun run_steps :: "('s \<Rightarrow> 'e \<Rightarrow> 'o \<times> 's) \<Rightarrow> 's \<Rightarrow> 'e list \<Rightarrow> 'o list \<times> 's" where
  "run_steps step s [] = ([], s)"
| "run_steps step s (e # es) =
     (let (x, s') = step s e; (xs, s'') = run_steps step s' es in (x # xs, s''))"

abbreviation outputs :: "('s \<Rightarrow> 'e \<Rightarrow> 'o \<times> 's) \<Rightarrow> 's \<Rightarrow> 'e list \<Rightarrow> 'o list" where
  "outputs step s es \<equiv> fst (run_steps step s es)"

abbreviation final :: "('s \<Rightarrow> 'e \<Rightarrow> 'o \<times> 's) \<Rightarrow> 's \<Rightarrow> 'e list \<Rightarrow> 's" where
  "final step s es \<equiv> snd (run_steps step s es)"

lemma length_outputs [simp]: "length (outputs step s es) = length es"
  by (induction es arbitrary: s) (auto simp: split_beta Let_def)

lemma run_steps_append:
  "run_steps step s (xs @ ys) =
    (outputs step s xs @ outputs step (final step s xs) ys,
     final step (final step s xs) ys)"
  by (induction xs arbitrary: s) (auto simp: split_beta Let_def)

lemma outputs_snoc:
  "outputs step s (es @ [e]) = outputs step s es @ [fst (step (final step s es) e)]"
  by (simp add: run_steps_append split_beta Let_def)

lemma final_snoc: "final step s (es @ [e]) = snd (step (final step s es) e)"
  by (simp add: run_steps_append split_beta Let_def)

lemma outputs_nth:
  "i < length es \<Longrightarrow>
    outputs step s es ! i = fst (step (final step s (take i es)) (es ! i))"
proof (induction es arbitrary: s i)
  case Nil
  then show ?case by simp
next
  case (Cons e es)
  then show ?case by (cases i) (auto simp: split_beta Let_def)
qed

subsection \<open>The invariant interface\<close>

text \<open>What a component promises about its state: one operation keeps the invariant and its
  output satisfies the guarantee. The client's view is of whole runs.\<close>

locale guarded_machine =
  fixes step :: "'s \<Rightarrow> 'e \<Rightarrow> 'o \<times> 's"
    and inv :: "'s \<Rightarrow> bool"
    and guar :: "'o \<Rightarrow> bool"
  assumes step_inv: "inv s \<Longrightarrow> inv (snd (step s e))"
    and step_guar: "inv s \<Longrightarrow> guar (fst (step s e))"
begin

lemma run_inv: "inv s \<Longrightarrow> inv (final step s es)"
  by (induction es arbitrary: s) (auto simp: split_beta Let_def intro: step_inv)

lemma run_guar: "inv s \<Longrightarrow> x \<in> set (outputs step s es) \<Longrightarrow> guar x"
proof (induction es arbitrary: s)
  case Nil
  then show ?case by simp
next
  case (Cons e es)
  then show ?case by (auto simp: split_beta Let_def intro: step_inv step_guar)
qed

end

subsection \<open>Resources\<close>

text \<open>What the code opens and has to close: a use of a resource \<open>'r\<close>.\<close>

datatype 'r use = Opens 'r | Closes 'r

definition use_step :: "'r use \<Rightarrow> 'r set \<Rightarrow> 'r set" where
  "use_step u s = (case u of Opens r \<Rightarrow> insert r s | Closes r \<Rightarrow> s - {r})"

definition open_after :: "'r use list \<Rightarrow> 'r set" where
  "open_after us = fold use_step us {}"

lemma open_after_simps [simp]:
  "open_after [] = {}" "open_after (us @ [Opens r]) = insert r (open_after us)"
  "open_after (us @ [Closes r]) = open_after us - {r}"
  by (simp_all add: open_after_def use_step_def)

lemma fold_use_step: "fold use_step us s = open_after us \<union> (s - {r. Closes r \<in> set us})"
proof (induction us rule: rev_induct)
  case (snoc u us)
  then show ?case by (cases u) (auto simp: open_after_def use_step_def)
qed (simp add: open_after_def)

lemma open_after_append: "open_after (us @ vs) = open_after vs \<union> (open_after us - {r. Closes r \<in> set vs})"
  using fold_use_step [of vs "open_after us"] by (simp add: open_after_def)

lemma open_after_Cons [simp]:
  "open_after (Opens r # us) = open_after us \<union> ({r} - {x. Closes x \<in> set us})"
  "open_after (Closes r # us) = open_after us"
  using open_after_append [of "[Opens r]" us] open_after_append [of "[Closes r]" us]
  by (simp_all add: open_after_def use_step_def)

end
