(* ===== verification/Bytes.thy ===== *)
theory Bytes
  imports Prelude
begin

text \<open>
  Bytes as 8-bit words, Go strings as lists of \<open>char\<close> (one per byte, as in Go), and the
  big-endian integer layout of \<open>encoding/binary\<close>: the functions
  \<open>binary.BigEndian.PutUint16\<close>, \<open>PutUint32\<close>, \<open>Uint16\<close> and \<open>Uint32\<close> the transports use.
\<close>

definition byte_of_char :: "char \<Rightarrow> byte" where
  "byte_of_char c = of_char c"

definition char_of_byte :: "byte \<Rightarrow> char" where
  "char_of_byte b =
    Char (bit b 0) (bit b 1) (bit b 2) (bit b 3) (bit b 4) (bit b 5) (bit b 6) (bit b 7)"

text \<open>The conversions \<open>[]byte(s)\<close> and \<open>string(b)\<close>.\<close>

definition bytes_of :: "string \<Rightarrow> byte list" where
  "bytes_of s = map byte_of_char s"

definition string_of :: "byte list \<Rightarrow> string" where
  "string_of b = map char_of_byte b"

definition put16 :: "16 word \<Rightarrow> byte list" where
  "put16 v = [ucast (drop_bit 8 v), ucast v]"

definition get16 :: "byte list \<Rightarrow> 16 word" where
  "get16 b = ucast (b ! 1) OR push_bit 8 (ucast (b ! 0))"

definition put32 :: "32 word \<Rightarrow> byte list" where
  "put32 v = [ucast (drop_bit 24 v), ucast (drop_bit 16 v), ucast (drop_bit 8 v), ucast v]"

definition get32 :: "byte list \<Rightarrow> 32 word" where
  "get32 b = ucast (b ! 3) OR push_bit 8 (ucast (b ! 2)) OR push_bit 16 (ucast (b ! 1)) OR
    push_bit 24 (ucast (b ! 0))"

subsection \<open>Strings and bytes\<close>

lemma unat_byte_of_char: "unat (byte_of_char c) = of_char c"
proof -
  have "byte_of_char c = (of_nat (of_char c) :: byte)"
    by (simp add: byte_of_char_def of_nat_of_char)
  then show ?thesis using nat_of_char_less_256 [of c] by (simp add: unat_of_nat)
qed

lemma char_of_byte_alt: "char_of_byte b = char_of (unat b)"
  by (simp add: char_of_byte_def char_of_def bit_unsigned_iff)

lemma char_of_byte_of_char [byte_simps, simp]: "char_of_byte (byte_of_char c) = c"
  by (simp add: char_of_byte_alt unat_byte_of_char)

lemma byte_of_char_of_byte [byte_simps, simp]: "byte_of_char (char_of_byte b) = b"
proof -
  have "unat (byte_of_char (char_of_byte b)) = unat b"
    using unsigned_less [of b, where ?'a = nat] by (simp add: char_of_byte_alt unat_byte_of_char)
  then show ?thesis by (rule unsigned_word_eqI)
qed

lemma string_of_bytes_of [byte_simps, simp]: "string_of (bytes_of s) = s"
  by (simp add: string_of_def bytes_of_def comp_def)

lemma bytes_of_string_of [byte_simps, simp]: "bytes_of (string_of b) = b"
  by (simp add: string_of_def bytes_of_def comp_def)

lemma length_bytes_of [byte_simps, simp]: "length (bytes_of s) = length s"
  by (simp add: bytes_of_def)

lemma length_string_of [byte_simps, simp]: "length (string_of b) = length b"
  by (simp add: string_of_def)

lemma bytes_of_append [byte_simps]: "bytes_of (s @ t) = bytes_of s @ bytes_of t"
  by (simp add: bytes_of_def)

lemma string_of_append [byte_simps]: "string_of (a @ b) = string_of a @ string_of b"
  by (simp add: string_of_def)

lemma bytes_of_eq_iff [simp]: "bytes_of s = bytes_of t \<longleftrightarrow> s = t"
  by (metis string_of_bytes_of)

lemma string_of_eq_iff [simp]: "string_of a = string_of b \<longleftrightarrow> a = b"
  by (metis bytes_of_string_of)

subsection \<open>Big-endian integers\<close>

lemma length_put16 [byte_simps, simp]: "length (put16 v) = 2"
  by (simp add: put16_def)

lemma length_put32 [byte_simps, simp]: "length (put32 v) = 4"
  by (simp add: put32_def)

lemma get16_put16 [byte_simps, simp]: "get16 (put16 v @ r) = v"
  unfolding get16_def put16_def by (auto simp: bit_simps intro!: bit_word_eqI)

lemma get32_put32 [byte_simps, simp]: "get32 (put32 v @ r) = v"
proof (rule bit_word_eqI)
  fix n
  assume "n < LENGTH(32)"
  then consider "n < 8" | "8 \<le> n" "n < 16" | "16 \<le> n" "n < 24" | "24 \<le> n" "n < 32"
    by fastforce
  then show "bit (get32 (put32 v @ r)) n = bit v n"
    by cases (auto simp: get32_def put32_def bit_simps)
qed

lemma byte_bit_beyond: "\<not> bit (b :: byte) (8 + n)" "\<not> bit b (16 + n)" "\<not> bit b (24 + n)"
  by (auto dest: bit_imp_le_length)

lemma put16_get16:
  assumes "length b = 2"
  shows "put16 (get16 b) = b"
proof -
  have "put16 (get16 [x, y]) = [x, y]" for x y
    by (auto simp: put16_def get16_def bit_simps byte_bit_beyond intro!: bit_word_eqI
        dest: bit_imp_le_length)
  with assms show ?thesis by (auto simp: length_Suc_conv numeral_2_eq_2)
qed

lemma put32_get32:
  assumes "length b = 4"
  shows "put32 (get32 b) = b"
proof -
  have "put32 (get32 [x, y, z, w]) = [x, y, z, w]" for x y z w
    by (auto simp: put32_def get32_def bit_simps byte_bit_beyond intro!: bit_word_eqI
        dest: bit_imp_le_length)
  with assms show ?thesis by (auto simp: length_Suc_conv numeral_eq_Suc)
qed

lemma unat_of_nat16: "n < 65536 \<Longrightarrow> unat (of_nat n :: 16 word) = n"
  by (simp add: unat_of_nat)

lemma unat_get16_bound: "unat (get16 b) < 65536"
  using unsigned_less [of "get16 b", where ?'a = nat] by simp

end
