(* ===== verification/Packet.thy ===== *)
theory Packet
  imports Bytes
begin

text \<open>
  The two interfaces the transports share. \<open>packet_conn\<close> is \<open>transport.PacketConn\<close> with what
  every implementation promises about packet sizes; the bridge, \<open>echo\<close> and \<open>probe\<close> are its
  clients. \<open>frame_codec\<close> is a self-delimiting message format on a byte stream; the length
  prefixed frames of the REALITY stream and the SIP messages provide it.
\<close>

text \<open>\<open>transport.MTU\<close>.\<close>

definition MTU :: nat where
  "MTU = 1280"

text \<open>A packet every \<open>WritePacket\<close> accepts: \<open>len(b) >= 1\<close> and \<open>len(b) <= MTU\<close>.\<close>

definition sized :: "packet \<Rightarrow> bool" where
  "sized b \<longleftrightarrow> 1 \<le> length b \<and> length b \<le> MTU"

lemma sized_alt: "sized b \<longleftrightarrow> \<not> (length b = 0 \<or> length b > MTU)"
  by (cases b) (auto simp: sized_def)

lemma sized_iff: "sized b \<longleftrightarrow> b \<noteq> [] \<and> length b \<le> MTU"
  by (cases b) (auto simp: sized_def)

subsection \<open>Packet connections\<close>

text \<open>
  A connection is a state \<open>'s\<close>. The argument of type \<open>'c\<close> is what the Go runtime decides at a
  call (the case a \<open>select\<close> takes, the bytes the network delivers). \<open>readp\<close> is \<open>None\<close> when
  the call would block; otherwise it returns an error or a packet, as \<open>writep\<close> returns
  \<open>None\<close> for \<open>nil\<close>.
\<close>

locale packet_conn =
  fixes readp :: "'c \<Rightarrow> 's \<Rightarrow> (('e + packet) \<times> 's) option"
    and writep :: "'c \<Rightarrow> 's \<Rightarrow> packet \<Rightarrow> 'e option \<times> 's"
    and wf :: "'s \<Rightarrow> bool"
  assumes read_wf: "wf s \<Longrightarrow> readp c s = Some (r, s') \<Longrightarrow> wf s'"
    and read_sized: "wf s \<Longrightarrow> readp c s = Some (Inr b, s') \<Longrightarrow> sized b"
    and write_wf: "wf s \<Longrightarrow> wf (snd (writep c s b))"
    and write_refuses: "\<not> sized b \<Longrightarrow> \<exists>e. writep c s b = (Some e, s)"
begin

lemma written_sized:
  assumes "fst (writep c s b) = None"
  shows "sized b"
  using assms write_refuses [of b c s] by (cases "sized b") auto

lemma refused_unchanged:
  assumes "\<not> sized b"
  shows "snd (writep c s b) = s" and "fst (writep c s b) \<noteq> None"
  using write_refuses [OF assms, of c s] by auto

end

subsection \<open>Self-delimiting frames\<close>

fun read_frames :: "(byte list \<Rightarrow> 'e + 'm \<times> byte list) \<Rightarrow> nat \<Rightarrow> byte list \<Rightarrow>
    'e + 'm list \<times> byte list" where
  "read_frames dec 0 s = Inr ([], s)"
| "read_frames dec (Suc n) s =
     (case dec s of
       Inl e \<Rightarrow> Inl e
     | Inr (m, s') \<Rightarrow>
         (case read_frames dec n s' of
           Inl e \<Rightarrow> Inl e
         | Inr (ms, s'') \<Rightarrow> Inr (m # ms, s'')))"

locale frame_codec =
  fixes valid :: "'m \<Rightarrow> bool"
    and enc :: "'m \<Rightarrow> byte list"
    and dec :: "byte list \<Rightarrow> 'e + 'v \<times> byte list"
    and view :: "'m \<Rightarrow> 'v"
  assumes dec_enc: "valid m \<Longrightarrow> dec (enc m @ rest) = Inr (view m, rest)"
begin

lemma read_all:
  assumes "\<forall>m \<in> set ms. valid m"
  shows "read_frames dec (length ms) (concat (map enc ms) @ rest) = Inr (map view ms, rest)"
  using assms by (induction ms) (simp_all add: dec_enc)

lemma unique_decoding:
  assumes "valid m" and "valid m'" and "enc m @ r = enc m' @ r'"
  shows "view m = view m' \<and> r = r'"
proof -
  have "dec (enc m @ r) = dec (enc m' @ r')" using assms(3) by simp
  then show ?thesis using assms(1,2) by (simp add: dec_enc)
qed

lemma prefix_free:
  assumes "valid m" and "valid m'" and "enc m' = enc m @ r"
  shows "r = []"
  using unique_decoding [OF assms(1,2), of r "[]"] assms(3) by simp

end

end
