(* ===== verification/Fragments.thy ===== *)
theory Fragments
  imports Packet
begin

text \<open>
  \<open>internal/transport/fragments.go\<close>: packets cut into RTP payloads by \<open>splitPacket\<close> and put
  together again by \<open>assembler.push\<close>. Times are nanoseconds as \<open>int\<close>. The Go maps
  \<open>pending\<close> and \<open>completed\<close> are association lists; which key the eviction loop's \<open>range\<close>
  visits first is the argument \<open>pick\<close>, so every statement holds for every iteration order.
\<close>

definition chunkSize :: nat where
  "chunkSize = 900"

definition fragmentHeader :: nat where
  "fragmentHeader = 12"

definition second :: int where
  "second = 1000000000"

subsection \<open>splitPacket\<close>

text \<open>The body of the loop of \<open>splitPacket\<close>.\<close>

definition fragment_at :: "32 word \<Rightarrow> packet \<Rightarrow> nat \<Rightarrow> nat \<Rightarrow> packet" where
  "fragment_at pid b count i =
    (let end = min ((i + 1) * chunkSize) (length b)
     in bytes_of ''TL01'' @ put32 pid @ put16 (of_nat i) @ put16 (of_nat count) @
        take (end - i * chunkSize) (drop (i * chunkSize) b))"

definition splitPacket :: "32 word \<Rightarrow> packet \<Rightarrow> packet list" where
  "splitPacket pid b =
    (let count = (length b + chunkSize - 1) div chunkSize
     in map (fragment_at pid b count) [0..<count])"

subsection \<open>The assembler\<close>

record partial =
  p_at :: int
  p_parts :: "packet option list"
  p_count :: nat

record assembler =
  pending :: "(32 word \<times> partial) list"
  completed :: "(32 word \<times> int) list"

definition empty_assembler :: assembler where
  "empty_assembler = \<lparr>pending = [], completed = []\<rparr>"

datatype fragment_error =
    InvalidTunnelFragment
  | InvalidFragmentDimensions
  | FragmentCountChanged

text \<open>The header checks of \<open>push\<close>: the id, index, count and data of a well-formed fragment.\<close>

definition decode_fragment ::
    "packet \<Rightarrow> fragment_error + (32 word \<times> nat \<times> nat \<times> packet)" where
  "decode_fragment f =
    (if length f < fragmentHeader \<or> take 4 f \<noteq> bytes_of ''TL01'' then Inl InvalidTunnelFragment
     else
       let pid = get32 (drop 4 f);
           idx = unat (get16 (drop 8 f));
           count = unat (get16 (drop 10 f));
           data = drop 12 f
       in if count < 1 \<or> count > 2 \<or> idx \<ge> count \<or> length data < 1 \<or> length data > chunkSize \<or>
             (idx < count - 1 \<and> length data \<noteq> chunkSize) \<or>
             (idx = 1 \<and> length data > MTU - chunkSize)
          then Inl InvalidFragmentDimensions
          else Inr (pid, idx, count, data))"

definition expire :: "int \<Rightarrow> assembler \<Rightarrow> assembler" where
  "expire now a =
    a\<lparr>pending := filter (\<lambda>(k, v). \<not> (now - p_at v > 2 * second)) (pending a),
      completed := filter (\<lambda>(k, v). \<not> (now - v > 2 * second)) (completed a)\<rparr>"

text \<open>\<open>for k := range a.completed { delete(a.completed, k); break }\<close>: the loop deletes the
  first key it visits, here the one at position \<open>pick\<close>.\<close>

definition evict :: "nat \<Rightarrow> (32 word \<times> int) list \<Rightarrow> (32 word \<times> int) list" where
  "evict pick m = (if m = [] then [] else AList.delete (fst (m ! (pick mod length m))) m)"

text \<open>A nil part appends nothing.\<close>

definition part_data :: "packet option \<Rightarrow> packet" where
  "part_data p = (case p of None \<Rightarrow> [] | Some d \<Rightarrow> d)"

text \<open>The part of \<open>push\<close> after both expiry loops.\<close>

definition store_fragment ::
    "nat \<Rightarrow> assembler \<Rightarrow> 32 word \<times> nat \<times> nat \<times> packet \<Rightarrow> int \<Rightarrow>
      (fragment_error + packet option) \<times> assembler" where
  "store_fragment pick a = (\<lambda>(pid, idx, count, data) now.
    if map_of (completed a) pid \<noteq> None then (Inr None, a)
    else if map_of (pending a) pid = None \<and> length (pending a) \<ge> 64 then (Inr None, a)
    else
      let p = (case map_of (pending a) pid of
                 None \<Rightarrow> \<lparr>p_at = now, p_parts = [None, None], p_count = count\<rparr>
               | Some p \<Rightarrow> p);
          a1 = a\<lparr>pending := AList.update pid p (pending a)\<rparr>
      in if p_count p \<noteq> count then (Inl FragmentCountChanged, a1)
         else if p_parts p ! idx \<noteq> None then (Inr None, a1)
         else
           let p' = p\<lparr>p_parts := (p_parts p)[idx := Some data]\<rparr>;
               a2 = a1\<lparr>pending := AList.update pid p' (pending a1)\<rparr>
           in if None \<in> set (take count (p_parts p')) then (Inr None, a2)
              else
                let b = part_data (p_parts p' ! 0) @ part_data (p_parts p' ! 1);
                    done = (if length (completed a2) \<ge> 4096 then evict pick (completed a2)
                            else completed a2)
                in (Inr (Some b),
                    a2\<lparr>pending := AList.delete pid (pending a2),
                       completed := AList.update pid now done\<rparr>))"

definition push ::
    "nat \<Rightarrow> assembler \<Rightarrow> packet \<Rightarrow> int \<Rightarrow> (fragment_error + packet option) \<times> assembler" where
  "push pick a f now =
    (case decode_fragment f of
      Inl e \<Rightarrow> (Inl e, a)
    | Inr d \<Rightarrow> store_fragment pick (expire now a) d now)"

text \<open>An arrival: the runtime's choice, the payload, the time.\<close>

type_synonym arrival = "nat \<times> packet \<times> int"

definition push_arrival ::
    "assembler \<Rightarrow> arrival \<Rightarrow> (fragment_error + packet option) \<times> assembler" where
  "push_arrival a = (\<lambda>(pick, f, now). push pick a f now)"

lemma push_arrival_simp [simp]: "push_arrival a (pick, f, now) = push pick a f now"
  by (simp add: push_arrival_def)

subsection \<open>Fragments of a packet\<close>

definition nfrags :: "packet \<Rightarrow> nat" where
  "nfrags b = (length b + chunkSize - 1) div chunkSize"

definition chunk :: "packet \<Rightarrow> nat \<Rightarrow> packet" where
  "chunk b i = take chunkSize (drop (i * chunkSize) b)"

lemmas frag_consts = chunkSize_def fragmentHeader_def MTU_def second_def

lemma splitPacket_nfrags: "splitPacket pid b = map (fragment_at pid b (nfrags b)) [0..<nfrags b]"
  by (simp add: splitPacket_def nfrags_def Let_def)

lemma nfrags_cases:
  assumes "sized b"
  shows "nfrags b = (if length b \<le> chunkSize then 1 else 2)"
  using assms by (auto simp: nfrags_def sized_def frag_consts div_eq_dividend_iff)

lemma fragment_at_eq:
  "fragment_at pid b n i =
    bytes_of ''TL01'' @ put32 pid @ put16 (of_nat i) @ put16 (of_nat n) @ chunk b i"
proof -
  have "take (min ((i + 1) * chunkSize) (length b) - i * chunkSize) (drop (i * chunkSize) b) =
      chunk b i"
    by (simp add: chunk_def min_def algebra_simps) 
  then show ?thesis by (simp add: fragment_at_def Let_def)
qed

lemma length_fragment_at: "length (fragment_at pid b n i) = fragmentHeader + length (chunk b i)"
  by (simp add: fragment_at_eq fragmentHeader_def)

lemma length_chunk: "length (chunk b i) = min chunkSize (length b - i * chunkSize)"
  by (simp add: chunk_def min.commute)

lemma chunks_concat:
  assumes "sized b"
  shows "concat (map (chunk b) [0..<nfrags b]) = b"
proof (cases "length b \<le> chunkSize")
  case True
  with assms show ?thesis by (simp add: nfrags_cases chunk_def)
next
  case False
  then have "drop chunkSize b = take chunkSize (drop chunkSize b)"
    using assms by (simp add: sized_def frag_consts)
  with False assms show ?thesis
    by (simp add: nfrags_cases chunk_def numeral_2_eq_2)
qed

lemma drop_header:
  "drop 4 (bytes_of ''TL01'' @ r) = r" "take 4 (bytes_of ''TL01'' @ r) = bytes_of ''TL01''"
  by (simp_all add: bytes_of_def)

lemma drop_counters:
  "drop 8 (bytes_of ''TL01'' @ put32 v @ r) = r"
  "drop 10 (bytes_of ''TL01'' @ put32 v @ put16 w @ r) = r"
  "drop 12 (bytes_of ''TL01'' @ put32 v @ put16 w @ put16 x @ r) = r"
  by (simp_all add: bytes_of_def put32_def put16_def)

lemma decode_fragment_at:
  assumes "sized b" and "i < nfrags b"
  shows "decode_fragment (fragment_at pid b (nfrags b) i) = Inr (pid, i, nfrags b, chunk b i)"
proof -
  have "nfrags b \<le> 2" using nfrags_cases [OF assms(1)] by simp
  with assms(2) have "i < 2" by simp
  then have n: "unat (of_nat i :: 16 word) = i" "unat (of_nat (nfrags b) :: 16 word) = nfrags b"
    using \<open>nfrags b \<le> 2\<close> by (simp_all add: unat_of_nat16)
  have "\<not> length (fragment_at pid b (nfrags b) i) < fragmentHeader"
    by (simp add: length_fragment_at)
  moreover have "1 \<le> length (chunk b i)" "length (chunk b i) \<le> chunkSize"
      "i < nfrags b - 1 \<Longrightarrow> length (chunk b i) = chunkSize"
      "i = 1 \<Longrightarrow> length (chunk b i) \<le> MTU - chunkSize"
    using assms nfrags_cases [OF assms(1)]
    by (auto simp: length_chunk sized_def frag_consts split: if_splits)
  ultimately show ?thesis
    using assms(2) \<open>nfrags b \<le> 2\<close> \<open>i < 2\<close>
    by (auto simp: decode_fragment_def fragment_at_eq drop_header drop_counters n Let_def)
qed

subsection \<open>The assembler's invariant\<close>

text \<open>A decoded fragment has the dimensions \<open>push\<close> checked.\<close>

definition fragment_dims :: "nat \<Rightarrow> nat \<Rightarrow> packet \<Rightarrow> bool" where
  "fragment_dims idx count d \<longleftrightarrow>
    (count = 1 \<or> count = 2) \<and> idx < count \<and> 1 \<le> length d \<and> length d \<le> chunkSize \<and>
    (idx < count - 1 \<longrightarrow> length d = chunkSize) \<and> (idx = 1 \<longrightarrow> length d \<le> MTU - chunkSize)"

lemma decode_fragment_dims:
  assumes "decode_fragment f = Inr (pid, idx, count, d)"
  shows "fragment_dims idx count d"
  using assms by (auto simp: decode_fragment_def fragment_dims_def Let_def split: if_splits)

text \<open>An incomplete packet always has two parts, exactly one of them received.\<close>

definition wf_partial :: "partial \<Rightarrow> bool" where
  "wf_partial p \<longleftrightarrow> p_count p = 2 \<and>
    ((\<exists>d. p_parts p = [Some d, None] \<and> fragment_dims 0 2 d) \<or>
     (\<exists>d. p_parts p = [None, Some d] \<and> fragment_dims 1 2 d))"

definition wf_assembler :: "assembler \<Rightarrow> bool" where
  "wf_assembler a \<longleftrightarrow>
    distinct (keys (pending a)) \<and> distinct (keys (completed a)) \<and>
    set (keys (pending a)) \<inter> set (keys (completed a)) = {} \<and>
    length (pending a) \<le> 64 \<and> length (completed a) \<le> 4096 \<and>
    (\<forall>kv \<in> set (pending a). wf_partial (snd kv))"

lemma wf_empty_assembler: "wf_assembler empty_assembler"
  by (simp add: wf_assembler_def empty_assembler_def)

lemma wf_expire:
  assumes "wf_assembler a"
  shows "wf_assembler (expire now a)"
proof -
  have "length (filter P (pending a)) \<le> 64" "length (filter Q (completed a)) \<le> 4096" for P Q
    using assms by (auto simp: wf_assembler_def intro: order_trans [OF length_filter_le])
  with assms show ?thesis
    by (auto simp: wf_assembler_def expire_def distinct_keys_filter)
qed

lemma evict_keys: "set (keys (evict pick m)) \<subseteq> set (keys m)"
  using set_delete_subset [of _ m] by (auto simp: evict_def)

lemma evict_distinct: "distinct (keys m) \<Longrightarrow> distinct (keys (evict pick m))"
  by (simp add: evict_def distinct_keys_delete)

lemma evict_length:
  assumes "distinct (keys m)" and "m \<noteq> []"
  shows "Suc (length (evict pick m)) = length m"
proof -
  have "fst (m ! (pick mod length m)) \<in> set (keys m)"
    using assms(2) by (simp add: nth_mem)
  with assms show ?thesis by (simp add: evict_def length_delete_present)
qed

text \<open>The three outcomes of a valid fragment: dropped, kept as the first half, or completing.\<close>

definition half :: "nat \<Rightarrow> packet \<Rightarrow> int \<Rightarrow> partial" where
  "half idx d now = \<lparr>p_at = now, p_parts = [None, None][idx := Some d], p_count = 2\<rparr>"

definition finish :: "nat \<Rightarrow> 32 word \<Rightarrow> int \<Rightarrow> assembler \<Rightarrow> assembler" where
  "finish pick pid now a =
    a\<lparr>pending := AList.delete pid (pending a),
      completed := AList.update pid now
        (if length (completed a) \<ge> 4096 then evict pick (completed a) else completed a)\<rparr>"

lemma wf_assembler_partial:
  assumes "wf_assembler a" and "map_of (pending a) pid = Some p"
  shows "wf_partial p"
  using assms map_of_SomeD [OF assms(2)] by (auto simp: wf_assembler_def)

lemma store_fresh:
  assumes "map_of (completed a) pid = None" and "map_of (pending a) pid = None"
    and "length (pending a) < 64" and "fragment_dims idx count d"
  shows "store_fragment pick a (pid, idx, count, d) now =
    (if count = 1 then (Inr (Some d), finish pick pid now a)
     else (Inr None, a\<lparr>pending := AList.update pid (half idx d now) (pending a)\<rparr>))"
proof -
  have "count = 1 \<and> idx = 0 \<or> count = 2 \<and> (idx = 0 \<or> idx = 1)"
    using assms(4) by (auto simp: fragment_dims_def)
  then show ?thesis
    using assms(1-3)
    by (auto simp: store_fragment_def half_def finish_def part_data_def Let_def
        delete_update_same numeral_2_eq_2)
qed

lemma store_known:
  assumes "map_of (completed a) pid = None" and "map_of (pending a) pid = Some p"
    and "wf_partial p" and "fragment_dims idx count d"
  shows "store_fragment pick a (pid, idx, count, d) now =
    (if count = 1 then (Inl FragmentCountChanged, a)
     else if p_parts p ! idx \<noteq> None then (Inr None, a)
     else (Inr (Some (part_data ((p_parts p)[idx := Some d] ! 0) @
                      part_data ((p_parts p)[idx := Some d] ! 1))), finish pick pid now a))"
proof -
  have "count = 1 \<and> idx = 0 \<or> count = 2 \<and> (idx = 0 \<or> idx = 1)"
    using assms(4) by (auto simp: fragment_dims_def)
  then show ?thesis
    using assms(1-3)
    by (auto simp: store_fragment_def finish_def wf_partial_def Let_def update_triv
        delete_update_same numeral_2_eq_2)
qed

lemma store_completed:
  "map_of (completed a) pid \<noteq> None \<Longrightarrow>
    store_fragment pick a (pid, idx, count, d) now = (Inr None, a)"
  by (simp add: store_fragment_def)

lemma store_full:
  "map_of (pending a) pid = None \<Longrightarrow> length (pending a) \<ge> 64 \<Longrightarrow>
    store_fragment pick a (pid, idx, count, d) now = (Inr None, a)"
  by (simp add: store_fragment_def)

lemma wf_half:
  assumes "fragment_dims idx 2 d"
  shows "wf_partial (half idx d now)"
proof -
  have "idx = 0 \<or> idx = 1" using assms by (auto simp: fragment_dims_def)
  with assms show ?thesis by (auto simp: wf_partial_def half_def)
qed

lemma wf_finish:
  assumes wf: "wf_assembler a" and fresh: "map_of (completed a) pid = None"
  shows "wf_assembler (finish pick pid now a)"
proof -
  let ?m = "completed a"
  let ?m' = "if length ?m \<ge> 4096 then evict pick ?m else ?m"
  have m: "distinct (keys ?m)" "length ?m \<le> 4096" using wf by (auto simp: wf_assembler_def)
  have keys: "fst ` set ?m' \<subseteq> fst ` set ?m" using evict_keys [of pick ?m] by auto
  have len: "length ?m' < 4096"
    using m evict_length [of ?m pick] by (cases "?m = []") auto
  have dist: "distinct (keys ?m')" using m(1) by (simp add: evict_distinct)
  have "pending (finish pick pid now a) = AList.delete pid (pending a)"
      "completed (finish pick pid now a) = AList.update pid now ?m'"
    by (simp_all add: finish_def)
  moreover have "length (AList.delete pid (pending a)) \<le> 64"
    using wf length_delete_le [of pid "pending a"] by (simp add: wf_assembler_def)
  moreover have "length (AList.update pid now ?m') \<le> 4096"
    using len by (simp add: alist_simps)
  ultimately show ?thesis
    using wf keys dist set_delete_subset [of pid "pending a"]
    unfolding wf_assembler_def
    by (auto simp: distinct_keys_update distinct_keys_delete keys_alist_update keys_alist_delete
        simp del: update.simps split del: if_split)
qed

lemma wf_keep_half:
  assumes "wf_assembler a" and "map_of (completed a) pid = None"
    and "length (pending a) < 64" and "fragment_dims idx 2 d"
  shows "wf_assembler (a\<lparr>pending := AList.update pid (half idx d now) (pending a)\<rparr>)"
proof -
  have "wf_partial (snd kv)" if "kv \<in> set (AList.update pid (half idx d now) (pending a))" for kv
  proof -
    from in_alist_update [OF that] show ?thesis using assms(1) wf_half [OF assms(4)] by (auto simp: wf_assembler_def)
  qed
  with assms show ?thesis
    by (auto simp: wf_assembler_def distinct_keys_update alist_simps dom_update map_of_eq_None_iff)
qed

text \<open>Case analysis over everything \<open>push\<close> can do with a valid fragment.\<close>

lemma store_cases [consumes 3]:
  assumes wf: "wf_assembler a" and dims: "fragment_dims idx count d"
    and r: "store_fragment pick a (pid, idx, count, d) now = r"
  obtains (dup) "map_of (completed a) pid \<noteq> None"
      "r = (Inr None, a)"
  | (full) "map_of (completed a) pid = None" "map_of (pending a) pid = None"
      "length (pending a) \<ge> 64"
      "r = (Inr None, a)"
  | (single) "map_of (completed a) pid = None" "map_of (pending a) pid = None"
      "count = 1" "idx = 0"
      "r = (Inr (Some d), finish pick pid now a)"
  | (first) "map_of (completed a) pid = None" "map_of (pending a) pid = None"
      "length (pending a) < 64" "count = 2"
      "r =
        (Inr None, a\<lparr>pending := AList.update pid (half idx d now) (pending a)\<rparr>)"
  | (changed) p where "map_of (completed a) pid = None" "map_of (pending a) pid = Some p"
      "count = 1"
      "r = (Inl FragmentCountChanged, a)"
  | (repeated) p where "map_of (completed a) pid = None" "map_of (pending a) pid = Some p"
      "count = 2" "p_parts p ! idx \<noteq> None"
      "r = (Inr None, a)"
  | (both) p d0 d1 where "map_of (completed a) pid = None" "map_of (pending a) pid = Some p"
      "count = 2" "p_parts p = [Some d0, Some d1][1 - idx := p_parts p ! (1 - idx), idx := None]"
      "[Some d0, Some d1] ! idx = Some d" "p_parts p ! (1 - idx) = [Some d0, Some d1] ! (1 - idx)"
      "fragment_dims 0 2 d0" "fragment_dims 1 2 d1"
      "r =
        (Inr (Some (d0 @ d1)), finish pick pid now a)"
proof (cases "map_of (completed a) pid")
  case (Some t)
  then show thesis using dup r by (simp add: store_completed)
next
  case none: None
  have count: "count = 1 \<and> idx = 0 \<or> count = 2 \<and> (idx = 0 \<or> idx = 1)"
    using dims by (auto simp: fragment_dims_def)
  show thesis
  proof (cases "map_of (pending a) pid")
    case None
    then show thesis
      using none r count full single first store_full store_fresh [OF none None _ dims]
      by (cases "length (pending a) \<ge> 64") (auto simp: not_le)
  next
    case (Some p)
    note wfp = wf_assembler_partial [OF wf Some]
    note st = store_known [OF none Some wfp dims, of pick now, unfolded r]
    show thesis
    proof (cases "count = 2 \<and> p_parts p ! idx = None")
      case True
      from wfp consider e where "p_parts p = [Some e, None]" "fragment_dims 0 2 e"
        | e where "p_parts p = [None, Some e]" "fragment_dims 1 2 e"
        by (auto simp: wf_partial_def)
      then show thesis
      proof cases
        case 1
        with True count have "idx = 1" by auto
        with 1 True st dims both [OF none Some, of e d] show thesis by (simp add: part_data_def)
      next
        case 2
        with True count have "idx = 0" by auto
        with 2 True st dims both [OF none Some, of d e] show thesis by (simp add: part_data_def)
      qed
    next
      case False
      with st count show thesis
        using changed [OF none Some] repeated [OF none Some] by auto
    qed
  qed
qed

text \<open>What every call of \<open>push\<close> may return.\<close>

definition delivered_sized :: "fragment_error + packet option \<Rightarrow> bool" where
  "delivered_sized r = (case r of Inr (Some b) \<Rightarrow> sized b | _ \<Rightarrow> True)"

lemma store_wf:
  assumes wf: "wf_assembler a" and dims: "fragment_dims idx count d"
  shows "wf_assembler (snd (store_fragment pick a (pid, idx, count, d) now))"
    and "delivered_sized (fst (store_fragment pick a (pid, idx, count, d) now))"
proof -
  have "wf_assembler (snd (store_fragment pick a (pid, idx, count, d) now)) \<and>
      delivered_sized (fst (store_fragment pick a (pid, idx, count, d) now))"
    using dims
    by (cases rule: store_cases [OF wf dims refl, of pid pick now])
      (auto simp: wf wf_finish wf_keep_half delivered_sized_def sized_def fragment_dims_def
        frag_consts)
  then show "wf_assembler (snd (store_fragment pick a (pid, idx, count, d) now))"
    and "delivered_sized (fst (store_fragment pick a (pid, idx, count, d) now))" by simp_all
qed

lemma push_wf:
  assumes "wf_assembler a"
  shows "wf_assembler (snd (push pick a f now)) \<and> delivered_sized (fst (push pick a f now))"
proof (cases "decode_fragment f")
  case (Inl e)
  with assms show ?thesis by (simp add: push_def delivered_sized_def)
next
  case (Inr r)
  then obtain pid idx count d where "r = (pid, idx, count, d)" by (cases r)
  with Inr show ?thesis
    using store_wf [OF wf_expire [OF assms] decode_fragment_dims] by (simp add: push_def)
qed

interpretation assembler_run: guarded_machine push_arrival wf_assembler delivered_sized
  by unfold_locales (auto simp: push_arrival_def push_wf split: prod.splits)

subsection \<open>Where a delivered packet comes from\<close>

lemma expire_pending:
  assumes "wf_assembler a" and "map_of (pending (expire now a)) pid = Some p"
  shows "map_of (pending a) pid = Some p \<and> now - p_at p \<le> 2 * second"
  using assms
  by (auto simp: expire_def wf_assembler_def
      map_of_filter_value [of _ "\<lambda>v. \<not> (now - p_at v > 2 * second)"]
      split: option.splits if_splits)

definition provenance :: "arrival list \<Rightarrow> assembler \<Rightarrow> bool" where
  "provenance evs a \<longleftrightarrow>
    (\<forall>pid p. map_of (pending a) pid = Some p \<longrightarrow>
      (\<exists>pick f t idx d. (pick, f, t) \<in> set evs \<and> decode_fragment f = Inr (pid, idx, 2, d) \<and>
         p = half idx d t))"

lemma provenance_expire:
  "wf_assembler a \<Longrightarrow> provenance evs a \<Longrightarrow> provenance evs (expire now a)"
  unfolding provenance_def by (blast dest: expire_pending)

lemma provenance_mono: "provenance evs a \<Longrightarrow> set evs \<subseteq> set evs' \<Longrightarrow> provenance evs' a"
  unfolding provenance_def by blast

lemma pending_finish: "pending (finish pick pid now a) = AList.delete pid (pending a)"
  by (simp add: finish_def)

lemma provenance_finish:
  "provenance evs a \<Longrightarrow> provenance evs (finish pick pid now a)"
  unfolding provenance_def pending_finish by (auto simp: alist_simps)

lemma provenance_push:
  assumes wf: "wf_assembler a" and pr: "provenance evs a"
  shows "provenance (evs @ [(pick, f, now)]) (snd (push pick a f now))"
proof (cases "decode_fragment f")
  case (Inl e)
  then show ?thesis using provenance_mono [OF pr, of "evs @ [(pick, f, now)]"]
    by (auto simp: push_def)
next
  case (Inr r)
  obtain pid idx count d where r: "r = (pid, idx, count, d)" by (cases r)
  let ?evs = "evs @ [(pick, f, now)]"
  note wfx = wf_expire [OF wf, of now]
  have prx: "provenance ?evs (expire now a)"
    using provenance_mono [OF provenance_expire [OF wf pr, of now], of ?evs] by auto
  note dims = decode_fragment_dims [OF Inr [unfolded r]]
  obtain x where st: "store_fragment pick (expire now a) (pid, idx, count, d) now = x" by simp
  from wfx dims st have "provenance ?evs (snd x)"
  proof (cases rule: store_cases)
    case first
    then show ?thesis using prx Inr r
      by (auto simp: provenance_def alist_simps) blast
  qed (use prx in \<open>simp_all add: provenance_finish\<close>)
  then show ?thesis using Inr r st by (simp add: push_def)
qed

lemma provenance_run: "provenance evs (final push_arrival empty_assembler evs)"
proof (induction evs rule: rev_induct)
  case Nil
  show ?case by (simp add: provenance_def empty_assembler_def)
next
  case (snoc ev evs)
  obtain pick f now where "ev = (pick, f, now)" by (cases ev)
  then show ?case
    using provenance_push [OF assembler_run.run_inv [OF wf_empty_assembler] snoc]
    by (simp add: final_snoc push_arrival_def)
qed

text \<open>What one successful \<open>push\<close> says about its state and its fragment.\<close>

lemma push_delivers:
  assumes wf: "wf_assembler a" and out: "fst (push pick a f now) = Inr (Some b)"
  obtains (whole) pid where "decode_fragment f = Inr (pid, 0, 1, b)"
  | (halves) pid idx d p d0 d1 where "decode_fragment f = Inr (pid, idx, 2, d)"
      "map_of (pending (expire now a)) pid = Some p" "b = d0 @ d1"
      "[Some d0, Some d1] ! idx = Some d" "idx = 0 \<or> idx = 1"
      "p_parts p = [Some d0, Some d1][idx := None]"
proof (cases "decode_fragment f")
  case (Inl e)
  with out show thesis by (simp add: push_def)
next
  case (Inr r)
  obtain pid idx count d where r: "r = (pid, idx, count, d)" by (cases r)
  note dims = decode_fragment_dims [OF Inr [unfolded r]]
  obtain x where st: "store_fragment pick (expire now a) (pid, idx, count, d) now = x" by simp
  have out': "fst x = Inr (Some b)"
    using out Inr r st by (simp add: push_def)
  from dims have idx: "idx = 0 \<or> idx = 1" by (auto simp: fragment_dims_def)
  note wfx = wf_expire [OF wf, of now]
  from wfx dims st show thesis
  proof (cases rule: store_cases)
    case single
    with out' Inr r whole show thesis by simp
  next
    case (both p d0 d1)
    have "p_parts p = [Some d0, Some d1][idx := None]"
      using both idx by auto
    with both out' Inr r idx halves [of pid idx d p d0 d1] show thesis by simp
  qed (use out' in simp_all)
qed

lemma push_arrival_nth:
  assumes "n < length evs" and "evs ! n = (pick, f, now)"
  shows "outputs push_arrival empty_assembler evs ! n =
    fst (push pick (final push_arrival empty_assembler (take n evs)) f now)"
  using assms by (simp add: outputs_nth push_arrival_def)

lemma delivered_provenance:
  assumes n: "n < length evs" and ev: "evs ! n = (pick, f, now)"
    and out: "outputs push_arrival empty_assembler evs ! n = Inr (Some b)"
  shows "(\<exists>pid. decode_fragment f = Inr (pid, 0, 1, b)) \<or>
    (\<exists>m pick' f' t pid d0 d1. m < n \<and> evs ! m = (pick', f', t) \<and> now - t \<le> 2 * second \<and>
       b = d0 @ d1 \<and>
       {decode_fragment f, decode_fragment f'} = {Inr (pid, 0, 2, d0), Inr (pid, 1, 2, d1)})"
proof -
  let ?H = "take n evs"
  let ?a = "final push_arrival empty_assembler ?H"
  have wf: "wf_assembler ?a" by (rule assembler_run.run_inv [OF wf_empty_assembler])
  have "fst (push pick ?a f now) = Inr (Some b)"
    using out push_arrival_nth [OF n ev] by simp
  with wf show ?thesis
  proof (cases rule: push_delivers)
    case (whole pid)
    then show ?thesis by blast
  next
    case (halves pid idx d p d0 d1)
    from expire_pending [OF wf halves(2)]
    have p: "map_of (pending ?a) pid = Some p" and t: "now - p_at p \<le> 2 * second" by simp_all
    from provenance_run [of ?H] p obtain pick' f' t' idx' d' where
      ev': "(pick', f', t') \<in> set ?H" and dec': "decode_fragment f' = Inr (pid, idx', 2, d')"
      and half: "p = half idx' d' t'"
      unfolding provenance_def by blast
    from ev' n obtain m where m: "m < n" "evs ! m = (pick', f', t')"
      by (auto simp: in_set_conv_nth)
    have "idx' = 0 \<or> idx' = 1"
      using decode_fragment_dims [OF dec'] by (auto simp: fragment_dims_def)
    then have "{decode_fragment f, decode_fragment f'} =
        {Inr (pid, 0, 2, d0), Inr (pid, 1, 2, d1)}"
      using halves half dec' by (auto simp: half_def)
    with m t half halves(3) show ?thesis by (auto simp: half_def)
  qed
qed

subsection \<open>Runs inside one expiry window\<close>

definition in_window :: "int \<Rightarrow> assembler \<Rightarrow> bool" where
  "in_window t0 a \<longleftrightarrow>
    (\<forall>kv \<in> set (pending a). t0 \<le> p_at (snd kv)) \<and> (\<forall>kv \<in> set (completed a). t0 \<le> snd kv)"

lemma expire_in_window:
  assumes "in_window t0 a" and "now \<le> t0 + 2 * second"
  shows "expire now a = a"
proof -
  have "filter (\<lambda>(k, v). \<not> (now - p_at v > 2 * second)) (pending a) = pending a"
    "filter (\<lambda>(k, v). \<not> (now - v > 2 * second)) (completed a) = completed a"
    using assms by (auto simp: in_window_def filter_id_conv)
  then show ?thesis by (simp add: expire_def)
qed

lemma evict_subset: "set (evict pick m) \<subseteq> set m"
  using set_delete_subset [of _ m] by (auto simp: evict_def)

lemma in_window_finish:
  assumes "in_window t0 a" and "t0 \<le> now"
  shows "in_window t0 (finish pick pid now a)"
  using assms evict_subset [of pick "completed a"] set_delete_subset [of pid "pending a"]
  by (auto simp: in_window_def finish_def split: if_splits dest!: in_alist_update)

lemma in_window_half:
  assumes "in_window t0 a" and "t0 \<le> now"
  shows "in_window t0 (a\<lparr>pending := AList.update pid (half idx d now) (pending a)\<rparr>)"
  using assms by (auto simp: in_window_def half_def dest!: in_alist_update)

lemma in_window_empty: "in_window t0 empty_assembler"
  by (simp add: in_window_def empty_assembler_def)

text \<open>The id a step delivers, when it delivers a packet.\<close>

definition delivered_id :: "arrival \<times> (fragment_error + packet option) \<Rightarrow> 32 word option" where
  "delivered_id = (\<lambda>((pick, f, now), out).
    case (decode_fragment f, out) of
      (Inr (pid, _), Inr (Some _)) \<Rightarrow> Some pid
    | _ \<Rightarrow> None)"

definition deliveries :: "arrival list \<Rightarrow> 32 word list" where
  "deliveries evs =
    List.map_filter delivered_id (zip evs (outputs push_arrival empty_assembler evs))"

lemma deliveries_snoc:
  "deliveries (evs @ [ev]) = deliveries evs @
    (case delivered_id (ev, fst (push_arrival (final push_arrival empty_assembler evs) ev)) of
       None \<Rightarrow> [] | Some pid \<Rightarrow> [pid])"
  by (simp add: deliveries_def outputs_snoc map_filter_def split: option.splits)

definition all_within :: "int \<Rightarrow> arrival list \<Rightarrow> bool" where
  "all_within t0 evs \<longleftrightarrow> list_all (\<lambda>(pick, f, t). t0 \<le> t \<and> t \<le> t0 + 2 * second) evs"

definition once_inv :: "int \<Rightarrow> 32 word list \<Rightarrow> assembler \<Rightarrow> bool" where
  "once_inv t0 ds a \<longleftrightarrow> in_window t0 a \<and> distinct ds \<and>
    set ds = fst ` set (completed a) \<and> length (completed a) = length ds"

lemma once_finish:
  assumes "once_inv t0 ds a" and "map_of (completed a) pid = None" and "t0 \<le> now"
    and "length ds < 4096"
  shows "once_inv t0 (ds @ [pid]) (finish pick pid now a)"
  using assms in_window_finish [of t0 a now pick pid]
  by (auto simp: once_inv_def finish_def alist_simps map_of_eq_None_iff)

lemma once_push:
  assumes wf: "wf_assembler a" and inv: "once_inv t0 ds a"
    and t: "t0 \<le> now" "now \<le> t0 + 2 * second"
    and ds': "ds' = ds @ (case delivered_id ((pick, f, now), fst (push pick a f now)) of
                None \<Rightarrow> [] | Some pid \<Rightarrow> [pid])"
    and len: "length ds' \<le> 4096"
  shows "once_inv t0 ds' (snd (push pick a f now))"
proof (cases "decode_fragment f")
  case (Inl e)
  with inv ds' show ?thesis by (simp add: push_def delivered_id_def)
next
  case (Inr r)
  obtain pid idx count d where r: "r = (pid, idx, count, d)" by (cases r)
  note dims = decode_fragment_dims [OF Inr [unfolded r]]
  obtain x where st: "store_fragment pick a (pid, idx, count, d) now = x" by simp
  have "expire now a = a" using inv t(2) expire_in_window by (auto simp: once_inv_def)
  then have px: "push pick a f now = x" using st Inr r by (simp add: push_def)
  have win: "in_window t0 a" using inv by (simp add: once_inv_def)
  note eq = ds' [unfolded px delivered_id_def, simplified, unfolded Inr r, simplified]
  from wf dims st show ?thesis
  proof (cases rule: store_cases)
    case single
    with eq len have "ds' = ds @ [pid]" "length ds < 4096" by simp_all
    with single px once_finish [OF inv single(1) t(1)] show ?thesis by simp
  next
    case (both p d0 d1)
    with eq len have "ds' = ds @ [pid]" "length ds < 4096" by simp_all
    with both px once_finish [OF inv both(1) t(1)] show ?thesis by simp
  next
    case first
    with eq px inv in_window_half [OF win t(1)] show ?thesis by (simp add: once_inv_def)
  qed (use eq px inv in simp_all)
qed

lemma once_run:
  assumes "all_within t0 evs" and "length (deliveries evs) \<le> 4096"
  shows "once_inv t0 (deliveries evs) (final push_arrival empty_assembler evs)"
  using assms
proof (induction evs rule: rev_induct)
  case Nil
  show ?case
    by (simp add: once_inv_def in_window_empty deliveries_def map_filter_def)
      (simp add: empty_assembler_def)
next
  case (snoc ev evs)
  obtain pick f now where ev: "ev = (pick, f, now)" by (cases ev)
  have "length (deliveries evs) \<le> 4096" "all_within t0 evs"
      "t0 \<le> now" "now \<le> t0 + 2 * second"
    using snoc.prems ev by (simp_all add: deliveries_snoc all_within_def)
  note step = once_push [OF assembler_run.run_inv [OF wf_empty_assembler]
    snoc.IH [OF this(2,1)] this(3,4), of _ pick f]
  show ?case
    using step [OF deliveries_snoc [of evs "(pick, f, now)", unfolded push_arrival_simp]]
      snoc.prems(2)
    by (simp add: final_snoc ev)
qed

subsection \<open>Reassembly under loss, duplication and reordering\<close>

text \<open>
  A transit is one arrival of one fragment a sender cut: the runtime's choice, the packet's id,
  the fragment's index and the arrival time; \<open>pk\<close> is the packet sent under each id. A list of
  transits is any schedule the network makes of them: some missing, some repeated, in any order.
\<close>

type_synonym transit = "nat \<times> 32 word \<times> nat \<times> int"

definition arrive :: "(32 word \<Rightarrow> packet) \<Rightarrow> transit \<Rightarrow> arrival" where
  "arrive pk = (\<lambda>(pick, pid, i, t). (pick, splitPacket pid (pk pid) ! i, t))"

definition honest :: "32 word set \<Rightarrow> (32 word \<Rightarrow> packet) \<Rightarrow> int \<Rightarrow> transit list \<Rightarrow> bool" where
  "honest I pk t0 xs \<longleftrightarrow>
    list_all (\<lambda>(pick, pid, i, t). pid \<in> I \<and> i < length (splitPacket pid (pk pid)) \<and>
      t0 \<le> t \<and> t \<le> t0 + 2 * second) xs"

definition seen :: "32 word \<Rightarrow> transit list \<Rightarrow> nat set" where
  "seen pid xs = set (map (\<lambda>(pick, pid', i, t). i) (filter (\<lambda>(pick, pid', i, t). pid' = pid) xs))"

definition received :: "(32 word \<Rightarrow> packet) \<Rightarrow> 32 word \<Rightarrow> transit list \<Rightarrow> packet list" where
  "received pk pid xs =
    concat (map (\<lambda>((pick, pid', i, t), out).
        if pid' = pid then (case out of Inr (Some b) \<Rightarrow> [b] | _ \<Rightarrow> []) else [])
      (zip xs (outputs push_arrival empty_assembler (map (arrive pk) xs))))"

abbreviation reassembly :: "(32 word \<Rightarrow> packet) \<Rightarrow> transit list \<Rightarrow> assembler" where
  "reassembly pk xs \<equiv> final push_arrival empty_assembler (map (arrive pk) xs)"

lemma seen_snoc:
  "seen pid (xs @ [(pick, pid', i, t)]) = (if pid' = pid then insert i (seen pid xs) else seen pid xs)"
  by (auto simp: seen_def)

lemma received_snoc:
  "received pk pid (xs @ [(pick, pid', i, t)]) = received pk pid xs @
    (if pid' = pid then
       (case fst (push pick (reassembly pk xs) (splitPacket pid' (pk pid') ! i) t) of
          Inr (Some b) \<Rightarrow> [b] | _ \<Rightarrow> [])
     else [])"
  by (simp add: received_def outputs_snoc arrive_def)

text \<open>The abstract state of one id: nothing seen, one half of two kept, or delivered.\<close>

definition status :: "packet \<Rightarrow> nat set \<Rightarrow> partial option \<Rightarrow> int option \<Rightarrow> packet list \<Rightarrow> bool" where
  "status b S p c bs \<longleftrightarrow>
    (S = {} \<and> p = None \<and> c = None \<and> bs = []) \<or>
    (S = {..<nfrags b} \<and> p = None \<and> c \<noteq> None \<and> bs = [b]) \<or>
    (nfrags b = 2 \<and> c = None \<and> bs = [] \<and>
      (S = {0} \<and> (\<exists>t. p = Some (half 0 (chunk b 0) t)) \<or>
       S = {1} \<and> (\<exists>t. p = Some (half 1 (chunk b 1) t))))"

lemma length_splitPacket: "length (splitPacket pid b) = nfrags b"
  by (simp add: splitPacket_nfrags)

lemma nth_splitPacket: "i < nfrags b \<Longrightarrow> splitPacket pid b ! i = fragment_at pid b (nfrags b) i"
  by (simp add: splitPacket_nfrags)

lemma completed_finish:
  "length (completed a) < 4096 \<Longrightarrow>
    completed (finish pick pid now a) = AList.update pid now (completed a)"
  by (simp add: finish_def)

lemma chunk_whole: "sized b \<Longrightarrow> nfrags b = 1 \<Longrightarrow> chunk b 0 = b"
  using chunks_concat [of b] by simp

lemma chunk_halves: "sized b \<Longrightarrow> nfrags b = 2 \<Longrightarrow> chunk b 0 @ chunk b 1 = b"
  using chunks_concat [of b] by (simp add: numeral_2_eq_2)

definition out_packets :: "fragment_error + packet option \<Rightarrow> packet list" where
  "out_packets out = (case out of Inr (Some b) \<Rightarrow> [b] | _ \<Rightarrow> [])"

lemma status_store:
  assumes wf: "wf_assembler a" and b: "sized b" and i: "i < nfrags b"
    and room: "map_of (pending a) pid = None \<Longrightarrow> length (pending a) < 64"
    and room': "length (completed a) < 4096"
    and st: "status b S (map_of (pending a) pid) (map_of (completed a) pid) bs"
    and x: "store_fragment pick a (pid, i, nfrags b, chunk b i) now = x"
  shows "status b (insert i S) (map_of (pending (snd x)) pid) (map_of (completed (snd x)) pid)
    (bs @ out_packets (fst x))"
proof -
  have dims: "fragment_dims i (nfrags b) (chunk b i)"
    by (rule decode_fragment_dims [OF decode_fragment_at [OF b i]])
  have n: "nfrags b = 1 \<and> i = 0 \<or> nfrags b = 2 \<and> (i = 0 \<or> i = 1)"
    using nfrags_cases [OF b] i by (auto split: if_splits)
  note defs = status_def out_packets_def pending_finish completed_finish [OF room'] alist_simps
  from wf dims x show ?thesis
  proof (cases rule: store_cases)
    case dup
    with st i show ?thesis by (auto simp: status_def out_packets_def)
  next
    case full
    with room show ?thesis by simp
  next
    case single
    with st show ?thesis
      using chunk_whole [OF b single(3)] by (auto simp: defs)
  next
    case first
    with st n show ?thesis by (auto simp: status_def out_packets_def alist_simps)
  next
    case (changed p)
    with st show ?thesis by (auto simp: status_def)
  next
    case (repeated p)
    with st n show ?thesis by (auto simp: status_def out_packets_def half_def)
  next
    case (both p d0 d1)
    with st n have "b = d0 @ d1 \<and> S = {1 - i} \<and> bs = []"
      using chunk_halves [OF b both(3)] by (auto simp: status_def half_def)
    moreover have "insert i {1 - i} = {..<nfrags b}" using n both(3) by auto
    ultimately show ?thesis using both by (auto simp: defs)
  qed
qed

lemma store_accepts:
  assumes wf: "wf_assembler a" and b: "sized b" and i: "i < nfrags b"
    and st: "status b S (map_of (pending a) pid) (map_of (completed a) pid) bs"
    and x: "store_fragment pick a (pid, i, nfrags b, chunk b i) now = x"
  shows "\<exists>out. fst x = Inr out"
proof -
  have dims: "fragment_dims i (nfrags b) (chunk b i)"
    by (rule decode_fragment_dims [OF decode_fragment_at [OF b i]])
  from wf dims x show ?thesis
  proof (cases rule: store_cases)
    case (changed p)
    with st show ?thesis by (auto simp: status_def)
  qed auto
qed

lemma status_received:
  assumes "status b S p c bs" and "sized b"
  shows "bs = (if S = {..<nfrags b} then [b] else [])"
proof -
  have "card {..<2 :: nat} \<noteq> card {0 :: nat}" "card {..<2 :: nat} \<noteq> card {1 :: nat}" by simp_all
  then have "{..<2} \<noteq> {0 :: nat}" "{..<2} \<noteq> {1 :: nat}" by metis+
  moreover have "{..<nfrags b} \<noteq> {}"
    by (simp add: nfrags_cases [OF assms(2)] lessThan_empty_iff)
  ultimately show ?thesis using assms(1) unfolding status_def by (elim disjE conjE) force+
qed

text \<open>A fragment of one id leaves every other id alone, as long as nothing is evicted.\<close>

lemma store_frame:
  assumes wf: "wf_assembler a" and dims: "fragment_dims i n d"
    and x: "store_fragment pick a (pid, i, n, d) now = x"
    and room: "length (completed a) < 4096" and other: "pid' \<noteq> pid"
  shows "map_of (pending (snd x)) pid' = map_of (pending a) pid'"
    and "map_of (completed (snd x)) pid' = map_of (completed a) pid'"
proof -
  from wf dims x have "map_of (pending (snd x)) pid' = map_of (pending a) pid' \<and>
      map_of (completed (snd x)) pid' = map_of (completed a) pid'"
    by (cases rule: store_cases)
      (auto simp: pending_finish completed_finish [OF room] alist_simps other)
  then show "map_of (pending (snd x)) pid' = map_of (pending a) pid'"
    and "map_of (completed (snd x)) pid' = map_of (completed a) pid'" by simp_all
qed

definition confined :: "32 word set \<Rightarrow> int \<Rightarrow> assembler \<Rightarrow> bool" where
  "confined I t0 a \<longleftrightarrow> wf_assembler a \<and> in_window t0 a \<and>
    fst ` set (pending a) \<subseteq> I \<and> fst ` set (completed a) \<subseteq> I"

lemma finish_keys:
  "fst ` set (pending (finish pick pid now a)) \<subseteq> fst ` set (pending a)"
  "fst ` set (completed (finish pick pid now a)) \<subseteq> insert pid (fst ` set (completed a))"
proof -
  show "fst ` set (pending (finish pick pid now a)) \<subseteq> fst ` set (pending a)"
    by (simp add: finish_def keys_alist_delete Diff_subset)
  have "fst ` set (evict pick (completed a)) \<subseteq> fst ` set (completed a)"
    using evict_keys [of pick "completed a"] by simp
  then show "fst ` set (completed (finish pick pid now a)) \<subseteq> insert pid (fst ` set (completed a))"
    by (simp add: finish_def keys_alist_update subset_insertI2)
qed

lemma confined_store:
  assumes c: "confined I t0 a" and dims: "fragment_dims i n d" and I: "pid \<in> I" and t: "t0 \<le> now"
    and x: "store_fragment pick a (pid, i, n, d) now = x"
  shows "confined I t0 (snd x)"
proof -
  have wf: "wf_assembler a" and win: "in_window t0 a" using c by (simp_all add: confined_def)
  have fin: "confined I t0 (finish pick pid now a)" if "map_of (completed a) pid = None"
  proof -
    have "fst ` set (pending a) \<subseteq> I" "fst ` set (completed a) \<subseteq> I"
      using c by (simp_all add: confined_def)
    then have "fst ` set (pending (finish pick pid now a)) \<subseteq> I"
        "fst ` set (completed (finish pick pid now a)) \<subseteq> I"
      using finish_keys [of pick pid now a] I by (meson insert_subset subset_trans)+
    with wf_finish [OF wf that] in_window_finish [OF win t] show ?thesis
      by (simp add: confined_def)
  qed
  from wf dims x show ?thesis
  proof (cases rule: store_cases)
    case first
    then show ?thesis
      using c I wf_keep_half [OF wf first(1,3)] in_window_half [OF win t] dims
      by (auto simp: confined_def alist_simps)
  qed (use c fin in simp_all)
qed

lemma confined_room:
  assumes c: "confined I t0 a" and I: "finite I" "card I \<le> 64" "pid \<in> I"
  shows "length (completed a) < 4096"
    and "map_of (pending a) pid = None \<Longrightarrow> length (pending a) < 64"
proof -
  have dist: "distinct (keys (pending a))" "distinct (keys (completed a))"
    using c by (simp_all add: confined_def wf_assembler_def)
  show "length (completed a) < 4096"
    using keys_mono_card [OF dist(2) _ I(1)] c I(2) by (auto simp: confined_def)
  assume "map_of (pending a) pid = None"
  then have "set (keys (pending a)) \<subseteq> I - {pid}"
    using c by (auto simp: confined_def map_of_eq_None_iff)
  then have "length (pending a) \<le> card (I - {pid})"
    using keys_mono_card [OF dist(1)] I(1) by simp
  also have "\<dots> < 64" using I by (simp add: card_Diff_singleton) 
  finally show "length (pending a) < 64" .
qed

lemma reassembly_run:
  assumes pk: "\<And>pid. pid \<in> I \<Longrightarrow> sized (pk pid)" and I: "finite I" "card I \<le> 64"
    and h: "honest I pk t0 xs"
  shows "confined I t0 (reassembly pk xs) \<and>
    (\<forall>pid \<in> I. status (pk pid) (seen pid xs) (map_of (pending (reassembly pk xs)) pid)
       (map_of (completed (reassembly pk xs)) pid) (received pk pid xs))"
  using h
proof (induction xs rule: rev_induct)
  case Nil
  show ?case
    by (simp add: confined_def wf_empty_assembler in_window_empty status_def seen_def received_def)
      (simp add: empty_assembler_def)
next
  case (snoc y xs)
  obtain pick pid i t where y: "y = (pick, pid, i, t)" by (cases y)
  let ?a = "reassembly pk xs"
  have hx: "honest I pk t0 xs" and pid: "pid \<in> I" and i: "i < nfrags (pk pid)"
    and t: "t0 \<le> t" "t \<le> t0 + 2 * second"
    using snoc.prems y by (simp_all add: honest_def length_splitPacket)
  note conf = conjunct1 [OF snoc.IH [OF hx]] and stat = bspec [OF conjunct2 [OF snoc.IH [OF hx]]]
  have wf: "wf_assembler ?a" and "in_window t0 ?a" using conf by (simp_all add: confined_def)
  then have exp: "expire t ?a = ?a" using expire_in_window t(2) by simp
  note dec = decode_fragment_at [OF pk [OF pid] i]
  note dims = decode_fragment_dims [OF dec [of pid]]
  obtain x where x: "store_fragment pick ?a (pid, i, nfrags (pk pid), chunk (pk pid) i) t = x"
    by simp
  then have px: "push pick ?a (splitPacket pid (pk pid) ! i) t = x"
    by (simp add: push_def dec exp nth_splitPacket [OF i])
  have fin: "reassembly pk (xs @ [y]) = snd x"
    using px by (simp add: final_snoc y arrive_def)
  note room = confined_room [OF conf I pid]
  have "status (pk pid') (seen pid' (xs @ [y])) (map_of (pending (snd x)) pid')
      (map_of (completed (snd x)) pid') (received pk pid' (xs @ [y]))" if "pid' \<in> I" for pid'
  proof (cases "pid' = pid")
    case True
    with status_store [OF wf pk [OF pid] i room(2,1) stat [OF pid] x] show ?thesis
      by (simp add: y seen_snoc received_snoc px out_packets_def)
  next
    case False
    with stat [OF that] store_frame [OF wf dims x room(1) False] show ?thesis
      by (simp add: y seen_snoc received_snoc)
  qed
  with confined_store [OF conf dims pid t(1) x] show ?case unfolding fin by blast
qed

lemma reassembly_accepts:
  assumes pk: "\<And>pid. pid \<in> I \<Longrightarrow> sized (pk pid)" and I: "finite I" "card I \<le> 64"
    and h: "honest I pk t0 xs"
  shows "\<forall>out \<in> set (outputs push_arrival empty_assembler (map (arrive pk) xs)). \<exists>x. out = Inr x"
  using h
proof (induction xs rule: rev_induct)
  case (snoc y xs)
  obtain pick pid i t where y: "y = (pick, pid, i, t)" by (cases y)
  have hx: "honest I pk t0 xs" and pid: "pid \<in> I" and i: "i < nfrags (pk pid)" and t: "t \<le> t0 + 2 * second"
    using snoc.prems y by (simp_all add: honest_def length_splitPacket)
  have wf: "wf_assembler (reassembly pk xs)" "in_window t0 (reassembly pk xs)"
    and st: "status (pk pid) (seen pid xs) (map_of (pending (reassembly pk xs)) pid)
      (map_of (completed (reassembly pk xs)) pid) (received pk pid xs)"
    using reassembly_run [OF pk I hx] pid by (simp_all add: confined_def)
  have "\<exists>out. fst (push pick (reassembly pk xs) (splitPacket pid (pk pid) ! i) t) = Inr out"
    using store_accepts [OF wf(1) pk [OF pid] i st refl, of pick t] expire_in_window [OF wf(2) t]
    by (simp add: push_def decode_fragment_at [OF pk [OF pid] i] nth_splitPacket [OF i])
  with snoc.IH [OF hx] show ?case by (simp add: outputs_snoc y arrive_def)
qed simp

subsection \<open>Properties\<close>

text \<open>C7: Reassembly is exactly-once. Take up to 64 packets sent under distinct ids, cut by
  \<open>splitPacket\<close>, and let the network deliver any list of their fragments within the two second
  window: lost, repeated, reordered and interleaved as it likes. The assembler then hands out a
  packet exactly once, unchanged, when all its fragments have arrived, and otherwise not at all.\<close>

theorem reassembly_exactly_once:
  assumes "\<forall>pid \<in> I. sized (pk pid)" and "finite I" and "card I \<le> 64"
    and "honest I pk t0 xs" and "pid \<in> I"
  shows "received pk pid xs =
    (if seen pid xs = {..<length (splitPacket pid (pk pid))} then [pk pid] else [])"
proof -
  have pk: "sized (pk p)" if "p \<in> I" for p using assms(1) that by simp
  then have b: "sized (pk pid)" using assms(5) by simp
  have "status (pk pid) (seen pid xs) (map_of (pending (reassembly pk xs)) pid)
      (map_of (completed (reassembly pk xs)) pid) (received pk pid xs)"
    by (rule bspec [OF conjunct2 [OF reassembly_run [OF pk assms(2,3,4)]] assms(5)])
  from status_received [OF this b] show ?thesis
    by (simp only: length_splitPacket)
qed

theorem reassembly_exactly_once_witness:
  "received (\<lambda>_. replicate 901 0) 1 [(0, 1, 1, 0), (0, 1, 1, 5), (0, 1, 0, 7)] =
    [replicate 901 0]"
proof -
  have "received (\<lambda>_. b) 1 [(0, 1, 1, 0), (0, 1, 1, 5), (0, 1, 0, 7)] = [b]"
    if b: "length b = 901" for b
  proof -
    let ?xs = "[(0, 1, 1, 0), (0, 1, 1, 5), (0, 1, 0, 7)] :: transit list"
    have n: "length (splitPacket 1 b) = 2"
      using b by (simp add: length_splitPacket nfrags_def frag_consts)
    have h: "honest {1} (\<lambda>_. b) 0 ?xs"
      by (simp add: honest_def n second_def)
    have "seen 1 ?xs = {..<length (splitPacket 1 b)}"
      by (auto simp: seen_def n)
    then show ?thesis
      using reassembly_exactly_once [of "{1}" "\<lambda>_. b" 0 ?xs 1] h b by (simp add: sized_def MTU_def)
  qed
  then show ?thesis by (simp only: length_replicate)
qed

text \<open>Nothing is made up and nothing stale is used. Whatever arrivals an assembler has seen,
  well-formed or not, a packet it delivers is either the data of the one-fragment packet that
  just arrived, or the two halves, in order, of fragments with one id, one of them the arrival
  and the other an earlier arrival at most two seconds old.\<close>

theorem delivered_from_fragments:
  assumes "n < length evs" and "evs ! n = (pick, f, now)"
    and "outputs push_arrival empty_assembler evs ! n = Inr (Some b)"
  shows "(\<exists>pid. decode_fragment f = Inr (pid, 0, 1, b)) \<or>
    (\<exists>m pick' f' t pid d0 d1. m < n \<and> evs ! m = (pick', f', t) \<and> now - t \<le> 2 * second \<and>
       b = d0 @ d1 \<and>
       {decode_fragment f, decode_fragment f'} = {Inr (pid, 0, 2, d0), Inr (pid, 1, 2, d1)})"
  using assms by (rule delivered_provenance)

theorem delivered_from_fragments_witness:
  "\<exists>pid. decode_fragment [84, 76, 48, 49, 0, 0, 0, 9, 0, 0, 0, 1, 5] = Inr (pid, 0, 1, [5])"
proof -
  let ?f = "[84, 76, 48, 49, 0, 0, 0, 9, 0, 0, 0, 1, 5] :: packet"
  have "outputs push_arrival empty_assembler [(0, ?f, 3)] ! 0 = Inr (Some [5])"
    by code_simp
  then show ?thesis
    using delivered_from_fragments [of 0 "[(0, ?f, 3)]" 0 ?f 3 "[5]"] by simp
qed

text \<open>Duplicate suppression. Over any arrivals within one two second window that complete at
  most 4096 packets, no id is delivered twice.\<close>

theorem no_duplicate_delivery:
  assumes "all_within t0 evs" and "length (deliveries evs) \<le> 4096"
  shows "distinct (deliveries evs)"
  using once_run [OF assms] by (simp add: once_inv_def)

theorem no_duplicate_delivery_witness:
  "distinct (deliveries [(0, [84, 76, 48, 49, 0, 0, 0, 9, 0, 0, 0, 1, 5], 3),
     (0, [84, 76, 48, 49, 0, 0, 0, 9, 0, 0, 0, 1, 5], 4)])"
proof -
  let ?f = "[84, 76, 48, 49, 0, 0, 0, 9, 0, 0, 0, 1, 5] :: packet"
  have "deliveries [(0, ?f, 3), (0, ?f, 4)] = [9]" by code_simp
  moreover have "all_within 0 [(0, ?f, 3), (0, ?f, 4)]" by (simp add: all_within_def second_def)
  ultimately show ?thesis using no_duplicate_delivery [of 0 "[(0, ?f, 3), (0, ?f, 4)]"] by simp
qed

text \<open>C32: The assembler is safe against any sender. Whatever arrivals it sees, well-formed or not, a packet it
  delivers is the data of a one-fragment packet that just arrived, or the two halves, in order, of two
  fragments with one id that arrived within two seconds, the later one just now; and over arrivals within one
  window that complete at most 4096 packets, no id is delivered twice.\<close>

theorem assembler_safe:
  shows "(\<forall>n pick f now b. n < length evs \<and> evs ! n = (pick, f, now) \<and>
      outputs push_arrival empty_assembler evs ! n = Inr (Some b) \<longrightarrow>
      (\<exists>pid. decode_fragment f = Inr (pid, 0, 1, b)) \<or>
      (\<exists>m pick' f' t pid d0 d1. m < n \<and> evs ! m = (pick', f', t) \<and> now - t \<le> 2 * second \<and> b = d0 @ d1 \<and>
        {decode_fragment f, decode_fragment f'} = {Inr (pid, 0, 2, d0), Inr (pid, 1, 2, d1)})) \<and>
    (\<forall>t0. all_within t0 evs \<and> length (deliveries evs) \<le> 4096 \<longrightarrow> distinct (deliveries evs))"
proof (intro conjI allI impI)
  fix n pick f now b
  assume "n < length evs \<and> evs ! n = (pick, f, now) \<and> outputs push_arrival empty_assembler evs ! n = Inr (Some b)"
  then show "(\<exists>pid. decode_fragment f = Inr (pid, 0, 1, b)) \<or>
      (\<exists>m pick' f' t pid d0 d1. m < n \<and> evs ! m = (pick', f', t) \<and> now - t \<le> 2 * second \<and> b = d0 @ d1 \<and>
        {decode_fragment f, decode_fragment f'} = {Inr (pid, 0, 2, d0), Inr (pid, 1, 2, d1)})"
    using delivered_from_fragments by blast
next
  fix t0
  assume "all_within t0 evs \<and> length (deliveries evs) \<le> 4096"
  then show "distinct (deliveries evs)" using no_duplicate_delivery by blast
qed

theorem assembler_safe_witness:
  "(\<exists>pid. decode_fragment [84, 76, 48, 49, 0, 0, 0, 9, 0, 0, 0, 1, 5] = Inr (pid, 0, 1, [5])) \<and>
    distinct (deliveries [(0, [84, 76, 48, 49, 0, 0, 0, 9, 0, 0, 0, 1, 5], 3)])"
proof -
  let ?f = "[84, 76, 48, 49, 0, 0, 0, 9, 0, 0, 0, 1, 5] :: packet"
  have out: "outputs push_arrival empty_assembler [(0, ?f, 3)] ! 0 = Inr (Some [5])" by code_simp
  have win: "all_within 0 [(0, ?f, 3)]" by (simp add: all_within_def second_def)
  have len: "deliveries [(0, ?f, 3)] = [9]" by code_simp
  note safe = assembler_safe [of "[(0, ?f, 3)]"]
  from conjunct1 [OF safe, rule_format, of 0 0 ?f 3 "[5]"] out
  have "\<exists>pid. decode_fragment ?f = Inr (pid, 0, 1, [5])" by auto
  moreover have "distinct (deliveries [(0, ?f, 3)])" using conjunct2 [OF safe, rule_format, of 0] win len by simp
  ultimately show ?thesis by blast
qed

text \<open>C33: Bounded memory and bounded output. After any arrivals at all the assembler holds at
  most 64 incomplete packets and at most 4096 completed ids, and every packet it has delivered
  has between 1 and MTU bytes.\<close>

theorem assembler_bounded:
  "length (pending (final push_arrival empty_assembler evs)) \<le> 64 \<and>
   length (completed (final push_arrival empty_assembler evs)) \<le> 4096 \<and>
   list_all delivered_sized (outputs push_arrival empty_assembler evs)"
  using assembler_run.run_inv [OF wf_empty_assembler, of evs]
    assembler_run.run_guar [OF wf_empty_assembler, of _ evs]
  by (auto simp: wf_assembler_def list_all_iff)

text \<open>\<open>splitPacket\<close> cuts a packet into one or two payloads of at most 912 bytes, each of which
  the assembler's checks accept with the packet's id, its index and the fragment count, and whose
  data concatenate to the packet.\<close>

theorem split_fragments:
  assumes "sized b"
  shows "map decode_fragment (splitPacket pid b) =
      map (\<lambda>i. Inr (pid, i, length (splitPacket pid b), chunk b i)) [0..<length (splitPacket pid b)] \<and>
    concat (map (chunk b) [0..<length (splitPacket pid b)]) = b \<and>
    list_all (\<lambda>f. length f \<le> 912) (splitPacket pid b)"
proof -
  have "map decode_fragment (splitPacket pid b) =
      map (\<lambda>i. Inr (pid, i, nfrags b, chunk b i)) [0..<nfrags b]"
    using decode_fragment_at [OF assms] by (simp add: splitPacket_nfrags)
  moreover have "list_all (\<lambda>f. length f \<le> 912) (splitPacket pid b)"
    by (auto simp: list_all_iff splitPacket_nfrags length_fragment_at length_chunk frag_consts)
  ultimately show ?thesis by (simp add: length_splitPacket chunks_concat [OF assms])
qed

theorem split_fragments_witness:
  "concat (map (chunk (replicate 1280 1)) [0..<length (splitPacket 7 (replicate 1280 1))]) =
    replicate 1280 1"
  using split_fragments [of "replicate 1280 1" 7] by (simp add: sized_def MTU_def)

end
