(* ===== verification/Netconn.thy ===== *)
theory Netconn
  imports Packet
begin

text \<open>
  The standard library's side of a stream connection, as far as the transports use it:
  \<open>net.Conn\<close> as the bytes still to be read, the error that ends them and the bytes accepted by
  \<open>Write\<close> so far; \<open>io.ReadFull\<close>; and \<open>writeAll\<close> of \<open>internal/transport/transport.go\<close>. How many
  bytes a single \<open>Write\<close> accepts, and whether it fails, is decided by the schedule \<open>wsched\<close>, an
  arbitrary list, so statements hold for every partial writef and every failure. Deadlines
  appear as the errors they cause.
\<close>

datatype conn_error =
    EOF
  | UnexpectedEOF
  | NetFailure string
  | ShortWrite
  | SliceOutOfRange
  | InvalidPacketLength
  | PacketExceedsMTU
  | InvalidToken
  | AuthenticationRejected

record netconn =
  rd :: "byte list"
  rd_err :: conn_error
  wr :: "byte list"
  wsched :: "(nat \<times> conn_error option) list"

definition conn_of :: "byte list \<Rightarrow> netconn" where
  "conn_of s = \<lparr>rd = s, rd_err = EOF, wr = [], wsched = []\<rparr>"

text \<open>\<open>io.ReadFull\<close> with a buffer of \<open>n\<close> bytes.\<close>

definition readFull :: "nat \<Rightarrow> netconn \<Rightarrow> (conn_error + byte list) \<times> netconn" where
  "readFull n c =
    (if n \<le> length (rd c) then (Inr (take n (rd c)), c\<lparr>rd := drop n (rd c)\<rparr>)
     else (Inl (if rd c \<noteq> [] \<and> rd_err c = EOF then UnexpectedEOF else rd_err c), c\<lparr>rd := []\<rparr>))"

text \<open>One call of \<open>Write\<close>: the number of bytes accepted and the error.\<close>

definition conn_write :: "netconn \<Rightarrow> byte list \<Rightarrow> (nat \<times> conn_error option) \<times> netconn" where
  "conn_write c b =
    (case wsched c of
       [] \<Rightarrow> ((length b, None), c\<lparr>wr := wr c @ b\<rparr>)
     | (n, e) # ws \<Rightarrow>
         ((min n (length b), e), c\<lparr>wr := wr c @ take n b, wsched := ws\<rparr>))"

subsection \<open>writeAll\<close>

text \<open>\<open>writeAll\<close> over any \<open>io.Writer\<close>; \<open>b = b[n:]\<close> panics when \<open>n > len(b)\<close>.\<close>

function writeAll ::
    "('w \<Rightarrow> byte list \<Rightarrow> (nat \<times> conn_error option) \<times> 'w) \<Rightarrow> 'w \<Rightarrow> byte list \<Rightarrow>
      conn_error option \<times> 'w" where
  "writeAll writef w b =
    (if b = [] then (None, w)
     else
       case writef w b of ((n, e), w') \<Rightarrow>
         (case e of
            Some x \<Rightarrow> (Some x, w')
          | None \<Rightarrow>
              if n = 0 then (Some ShortWrite, w')
              else if n > length b then (Some SliceOutOfRange, w')
              else writeAll writef w' (drop n b)))"
  by pat_completeness auto
termination
  by (relation "measure (\<lambda>(writef, w, b). length b)") auto

declare writeAll.simps [simp del]

text \<open>The contract of \<open>io.Writer\<close>: what was accepted is a prefix of what was offered.\<close>

locale io_writer =
  fixes writef :: "'w \<Rightarrow> byte list \<Rightarrow> (nat \<times> conn_error option) \<times> 'w"
    and sent :: "'w \<Rightarrow> byte list"
  assumes write_prefix:
    "writef w b = ((n, e), w') \<Longrightarrow> n \<le> length b \<and> sent w' = sent w @ take n b"
begin

lemma writeAll_cons:
  assumes "b \<noteq> []" and "writef w b = ((n, e), w')"
  shows "writeAll writef w b =
    (case e of Some x \<Rightarrow> (Some x, w')
     | None \<Rightarrow> if n = 0 then (Some ShortWrite, w') else writeAll writef w' (drop n b))"
  using assms write_prefix [OF assms(2)] by (simp add: writeAll.simps [of writef w b])

lemma writeAll_prefix:
  "\<exists>k \<le> length b. sent (snd (writeAll writef w b)) = sent w @ take k b \<and>
     (fst (writeAll writef w b) = None \<longrightarrow> k = length b)"
proof (induction b arbitrary: w rule: length_induct)
  case (1 b)
  show ?case
  proof (cases "b = []")
    case True
    then show ?thesis by (simp add: writeAll.simps)
  next
    case False
    obtain n e w' where w: "writef w b = ((n, e), w')" by (metis prod.exhaust)
    note acc = write_prefix [OF w]
    show ?thesis
    proof (cases "e = None \<and> n \<noteq> 0")
      case True
      then have "length (drop n b) < length b" using False by simp
      with "1.IH" obtain k where
        k: "k \<le> length (drop n b)"
          "sent (snd (writeAll writef w' (drop n b))) = sent w' @ take k (drop n b)"
          "fst (writeAll writef w' (drop n b)) = None \<longrightarrow> k = length (drop n b)" by meson
      have "sent w' @ take k (drop n b) = sent w @ take (n + k) b"
        using acc by (simp add: take_add)
      with k acc True show ?thesis
        by (intro exI [of _ "n + k"]) (auto simp: writeAll_cons [OF False w])
    next
      case False2: False
      then show ?thesis
        using acc by (intro exI [of _ n]) (auto simp: writeAll_cons [OF False w] split: option.splits)
    qed
  qed
qed

lemma writeAll_complete:
  assumes "writeAll writef w b = (None, w')"
  shows "sent w' = sent w @ b"
  using writeAll_prefix [of b w] assms by auto

end

interpretation conn_writer: io_writer conn_write wr
  by unfold_locales (auto simp: conn_write_def min_def split: list.splits)

lemma writeAll_frame:
  "rd (snd (writeAll conn_write c b)) = rd c \<and> rd_err (snd (writeAll conn_write c b)) = rd_err c"
proof (induction b arbitrary: c rule: length_induct)
  case (1 b)
  show ?case
  proof (cases "b = []")
    case True
    then show ?thesis by (simp add: writeAll.simps)
  next
    case False
    obtain n e c' where w: "conn_write c b = ((n, e), c')" by (metis prod.exhaust)
    then have c': "rd c' = rd c" "rd_err c' = rd_err c"
      by (auto simp: conn_write_def split: list.splits)
    have "rd (snd (writeAll conn_write c' (drop n b))) = rd c' \<and>
        rd_err (snd (writeAll conn_write c' (drop n b))) = rd_err c'" if "n \<noteq> 0"
      using "1" False that by simp
    with c' show ?thesis
      by (auto simp: conn_writer.writeAll_cons [OF False w] split: option.splits)
  qed
qed

text \<open>A connection whose writes all succeed in full.\<close>

lemma writeAll_smooth:
  assumes "wsched c = []"
  shows "writeAll conn_write c b = (None, c\<lparr>wr := wr c @ b\<rparr>)"
proof (cases "b = []")
  case True
  then show ?thesis by (simp add: writeAll.simps)
next
  case False
  have w: "conn_write c b = ((length b, None), c\<lparr>wr := wr c @ b\<rparr>)"
    using assms by (simp add: conn_write_def)
  have "writeAll conn_write c' [] = (None, c')" for c' by (simp add: writeAll.simps)
  with False show ?thesis by (simp add: conn_writer.writeAll_cons [OF False w])
qed

end
