(* ===== verification/Transport.thy ===== *)
theory Transport
  imports Netconn
begin

text \<open>
  \<open>internal/transport/transport.go\<close>: the length-prefixed frames of the REALITY stream
  (\<open>framed\<close>), the token exchange on it (\<open>authStream\<close>) and the constant-time comparison
  (\<open>equal\<close>). A \<open>framed\<close> connection is its \<open>net.Conn\<close>; the mutex serialises whole calls, so a
  call is one step.
\<close>

subsection \<open>equal\<close>

text \<open>\<open>crypto/subtle.ConstantTimeCompare\<close>: differences are accumulated over the whole strings.\<close>

definition constantTimeCompare :: "byte list \<Rightarrow> byte list \<Rightarrow> int" where
  "constantTimeCompare x y =
    (if length x \<noteq> length y then 0
     else if foldl (\<lambda>v (a, b). v OR (a XOR b)) (0 :: byte) (zip x y) = 0 then 1 else 0)"

definition go_equal :: "string \<Rightarrow> string \<Rightarrow> bool" where
  "go_equal a b \<longleftrightarrow> constantTimeCompare (bytes_of a) (bytes_of b) = 1"

lemma or_zero_iff: "(a :: byte) OR b = 0 \<longleftrightarrow> a = 0 \<and> b = 0"
  by (metis or_eq_0_iff)

lemma foldl_xor_zero:
  "length x = length y \<Longrightarrow>
    foldl (\<lambda>v (a, b). v OR (a XOR b)) (v :: byte) (zip x y) = 0 \<longleftrightarrow> v = 0 \<and> x = y"
proof (induction x y arbitrary: v rule: list_induct2)
  case Nil
  then show ?case by simp
next
  case (Cons a x b y)
  have "a XOR b = 0 \<longleftrightarrow> a = b" by (metis xor_self_eq bit.xor_left_self xor.right_neutral)
  with Cons show ?case by (auto simp: or_zero_iff)
qed

lemma go_equal_iff: "go_equal a b \<longleftrightarrow> a = b"
proof (cases "length a = length b")
  case True
  then have "go_equal a b \<longleftrightarrow> bytes_of a = bytes_of b"
    using foldl_xor_zero [of "bytes_of a" "bytes_of b" 0]
    by (auto simp: go_equal_def constantTimeCompare_def)
  then show ?thesis by simp
next
  case False
  then show ?thesis by (auto simp: go_equal_def constantTimeCompare_def)
qed

subsection \<open>Frames\<close>

definition framed_ReadPacket :: "netconn \<Rightarrow> (conn_error + packet) \<times> netconn" where
  "framed_ReadPacket c =
    (case readFull 2 c of
       (Inl e, c1) \<Rightarrow> (Inl e, c1)
     | (Inr hdr, c1) \<Rightarrow>
         (let n = unat (get16 hdr)
          in if n < 1 \<or> n > MTU then (Inl InvalidPacketLength, c1)
             else readFull n c1))"

definition framed_WritePacket :: "netconn \<Rightarrow> packet \<Rightarrow> conn_error option \<times> netconn" where
  "framed_WritePacket c b =
    (if length b < 1 \<or> length b > MTU then (Some PacketExceedsMTU, c)
     else writeAll conn_write c (put16 (of_nat (length b)) @ b))"

subsection \<open>authStream\<close>

definition authStream ::
    "netconn \<Rightarrow> string \<Rightarrow> bool \<Rightarrow> conn_error option \<times> netconn" where
  "authStream n token server =
    (if server then
       case framed_ReadPacket n of
         (Inl e, n1) \<Rightarrow> (Some e, n1)
       | (Inr b, n1) \<Rightarrow>
           if \<not> go_equal (string_of b) token then (Some InvalidToken, n1)
           else framed_WritePacket n1 (bytes_of ''OK'')
     else
       case framed_WritePacket n (bytes_of token) of
         (Some e, n1) \<Rightarrow> (Some e, n1)
       | (None, n1) \<Rightarrow>
           (case framed_ReadPacket n1 of
              (Inl e, n2) \<Rightarrow> (Some e, n2)
            | (Inr b, n2) \<Rightarrow>
                if string_of b \<noteq> ''OK'' then (Some AuthenticationRejected, n2) else (None, n2)))"

subsection \<open>The frame format\<close>

definition frame :: "packet \<Rightarrow> byte list" where
  "frame b = put16 (of_nat (length b)) @ b"

definition frame_dec :: "byte list \<Rightarrow> conn_error + packet \<times> byte list" where
  "frame_dec s =
    (case framed_ReadPacket (conn_of s) of
       (Inl e, c) \<Rightarrow> Inl e
     | (Inr b, c) \<Rightarrow> Inr (b, rd c))"

lemma sized_unat: "sized b \<Longrightarrow> unat (of_nat (length b) :: 16 word) = length b"
  by (rule unat_of_nat16) (simp add: sized_def MTU_def)

lemma framed_ReadPacket_frame:
  assumes "sized b" and "rd c = frame b @ rest"
  shows "framed_ReadPacket c = (Inr b, c\<lparr>rd := rest\<rparr>)"
proof -
  have "get16 (put16 w) = w" for w using get16_put16 [of w "[]"] by simp
  with assms show ?thesis
    by (simp add: framed_ReadPacket_def readFull_def frame_def sized_unat Let_def)
      (auto simp: sized_iff not_less)
qed

lemma framed_ReadPacket_sized:
  assumes "framed_ReadPacket c = (Inr b, c')"
  shows "sized b \<and> rd c = frame b @ rd c' \<and> wr c' = wr c \<and> wsched c' = wsched c"
proof -
  obtain hdr c1 where h: "readFull 2 c = (Inr hdr, c1)"
    and n: "\<not> (unat (get16 hdr) < 1 \<or> unat (get16 hdr) > MTU)"
    and b: "readFull (unat (get16 hdr)) c1 = (Inr b, c')"
    using assms
    by (auto simp: framed_ReadPacket_def Let_def split: prod.splits sum.splits if_splits)
  from h have hdr: "hdr = take 2 (rd c)" "length hdr = 2" "c1 = c\<lparr>rd := drop 2 (rd c)\<rparr>"
    by (auto simp: readFull_def split: if_splits)
  from b hdr have body: "b = take (unat (get16 hdr)) (drop 2 (rd c))"
      "length b = unat (get16 hdr)" "c' = c\<lparr>rd := drop (length b) (drop 2 (rd c))\<rparr>"
    by (auto simp: readFull_def split: if_splits)
  have "put16 (of_nat (length b)) = hdr"
    using put16_get16 [OF hdr(2)] body(2) by simp
  moreover have "rd c = hdr @ b @ rd c'"
    using hdr(1,2) body
    by (metis append_take_drop_id select_convs(1) surjective update_convs(1))
  moreover have "wr c' = wr c" "wsched c' = wsched c" using hdr(3) body(3) by simp_all
  ultimately show ?thesis using n body(2) by (simp add: frame_def sized_def)
qed

interpretation framed_codec: frame_codec sized frame frame_dec "\<lambda>b. b"
proof
  fix b rest
  assume "sized b"
  then show "frame_dec (frame b @ rest) = Inr (b, rest)"
    using framed_ReadPacket_frame [of b "conn_of (frame b @ rest)" rest]
    by (simp add: frame_dec_def conn_of_def)
qed

lemma framed_WritePacket_prefix:
  assumes "framed_WritePacket c b = (r, c')"
  shows "\<exists>k \<le> length (frame b). wr c' = wr c @ take k (frame b) \<and>
    (r = None \<longrightarrow> sized b \<and> wr c' = wr c @ frame b)"
proof (cases "sized b")
  case True
  then have "writeAll conn_write c (frame b) = (r, c')"
    using assms by (auto simp: framed_WritePacket_def sized_iff frame_def split: if_splits)
  with True conn_writer.writeAll_prefix [of "frame b" c] show ?thesis by auto
next
  case False
  with assms show ?thesis
    by (intro exI [of _ 0]) (auto simp: framed_WritePacket_def sized_iff)
qed

interpretation framed_conn:
  packet_conn "\<lambda>(_ :: unit) c. Some (framed_ReadPacket c)" "\<lambda>_. framed_WritePacket" "\<lambda>_. True"
proof
  fix c s :: netconn and b s'
  show "sized b" if "Some (framed_ReadPacket s) = Some (Inr b, s')"
    using framed_ReadPacket_sized [of s b s'] that by blast
  show "\<exists>e. framed_WritePacket s b = (Some e, s)" if "\<not> sized b"
    using that by (auto simp: framed_WritePacket_def sized_iff)
qed simp_all

lemma framed_WritePacket_smooth:
  assumes "sized b" and "wsched c = []"
  shows "framed_WritePacket c b = (None, c\<lparr>wr := wr c @ frame b\<rparr>)"
  using assms by (simp add: framed_WritePacket_def frame_def writeAll_smooth sized_iff not_less)

lemma framed_WritePacket_rd:
  "rd (snd (framed_WritePacket c b)) = rd c"
  using writeAll_frame by (simp add: framed_WritePacket_def)

text \<open>A sequence of \<open>WritePacket\<close> calls that stops at the first error.\<close>

fun write_packets :: "netconn \<Rightarrow> packet list \<Rightarrow> conn_error option \<times> netconn" where
  "write_packets c [] = (None, c)"
| "write_packets c (p # ps) =
     (case framed_WritePacket c p of
        (Some e, c') \<Rightarrow> (Some e, c')
      | (None, c') \<Rightarrow> write_packets c' ps)"

lemma write_packets_frames:
  assumes "write_packets c ps = (None, c')"
  shows "list_all sized ps \<and> wr c' = wr c @ concat (map frame ps)"
  using assms
proof (induction ps arbitrary: c)
  case Nil
  then show ?case by simp
next
  case (Cons p ps)
  then obtain c1 where c1: "framed_WritePacket c p = (None, c1)" "write_packets c1 ps = (None, c')"
    by (auto split: prod.splits option.splits)
  with framed_WritePacket_prefix [OF c1(1)] Cons.IH [OF c1(2)] show ?case by auto
qed

lemma authStream_server_cases:
  assumes "authStream c token True = (r, c')"
  shows "(\<exists>b c1. framed_ReadPacket c = (Inr b, c1) \<and> b = bytes_of token \<and>
      framed_WritePacket c1 (bytes_of ''OK'') = (r, c')) \<or> (r \<noteq> None \<and> wr c' = wr c)"
proof -
  have keep: "wr c1 = wr c" if "framed_ReadPacket c = (x, c1)" for x c1
    using that by (auto simp: framed_ReadPacket_def readFull_def Let_def
        split: prod.splits sum.splits if_splits)
  have "string_of b = token \<longleftrightarrow> b = bytes_of token" for b
    by (metis bytes_of_string_of string_of_bytes_of)
  with assms keep show ?thesis
    by (auto simp: authStream_def go_equal_iff split: prod.splits sum.splits if_splits)
qed

subsection \<open>Properties\<close>

text \<open>C27: Frames survive the stream. When a sequence of \<open>WritePacket\<close> calls succeeds, however
  many partial writes the connection needed, all packets have legal sizes, and a peer reading
  what was written gets exactly these packets, in order, and stops exactly at the end of the
  last one.\<close>

theorem framed_stream_roundtrip:
  assumes "write_packets c ps = (None, c')"
  shows "list_all sized ps \<and>
    (\<exists>s. wr c' = wr c @ s \<and>
       read_frames frame_dec (length ps) (s @ rest) = Inr (ps, rest))"
proof -
  from write_packets_frames [OF assms] have sz: "list_all sized ps"
    and wr: "wr c' = wr c @ concat (map frame ps)" by simp_all
  from sz have "read_frames frame_dec (length ps) (concat (map frame ps) @ rest) = Inr (ps, rest)"
    using framed_codec.read_all [of ps rest] by (simp add: list_all_iff)
  with sz wr show ?thesis by blast
qed

theorem framed_stream_roundtrip_witness:
  "\<exists>s. read_frames frame_dec 2 (s @ [9]) = Inr ([[1, 2], [3]], [9])"
proof -
  let ?c = "\<lparr>rd = [], rd_err = EOF, wr = [], wsched = [(1, None), (2, None), (7, None)]\<rparr>"
  have "fst (write_packets ?c [[1, 2], [3]]) = None" by code_simp
  then obtain c' where "write_packets ?c [[1, 2], [3]] = (None, c')" by (metis prod.collapse)
  from framed_stream_roundtrip [OF this, of "[9]"] show ?thesis
    by (auto simp: numeral_2_eq_2 simp del: read_frames.simps)
qed

text \<open>C28: A REALITY stream is opened only by the token. \<open>authStream\<close> on the server succeeds only
  if the peer's first frame is exactly the configured token; it has then consumed exactly that
  frame and answered \<open>OK\<close>. With any other first bytes it fails and has written nothing.\<close>

theorem auth_server_needs_token:
  assumes "authStream c token True = (r, c')"
  shows "(r = None \<longrightarrow> rd c = frame (bytes_of token) @ rd c' \<and>
      wr c' = wr c @ frame (bytes_of ''OK'')) \<and>
    ((\<nexists>rest. rd c = frame (bytes_of token) @ rest) \<longrightarrow> r \<noteq> None \<and> wr c' = wr c)"
  using authStream_server_cases [OF assms]
proof (elim disjE exE conjE)
  fix b c1
  assume b: "framed_ReadPacket c = (Inr b, c1)" "b = bytes_of token"
    and w: "framed_WritePacket c1 (bytes_of ''OK'') = (r, c')"
  from framed_ReadPacket_sized [OF b(1)] b(2)
  have rd: "rd c = frame (bytes_of token) @ rd c1" "wr c1 = wr c" by simp_all
  have "rd c' = rd c1" using framed_WritePacket_rd [of c1 "bytes_of ''OK''"] w by simp
  with rd framed_WritePacket_prefix [OF w] show ?thesis by auto
qed auto

theorem auth_server_needs_token_witness:
  "fst (authStream (conn_of [0, 1, 65]) ''B'' True) \<noteq> None"
proof -
  obtain r c' where a: "authStream (conn_of [0, 1, 65]) ''B'' True = (r, c')" by fastforce
  have "\<nexists>rest. rd (conn_of [0, 1, 65]) = frame (bytes_of ''B'') @ rest"
    by (simp add: conn_of_def frame_def put16_def bytes_of_def byte_of_char_def)
  with auth_server_needs_token [OF a] a show ?thesis by simp
qed



end
