(* ===== verification/GoStrings.thy ===== *)
theory GoStrings
  imports Bytes
begin

text \<open>
  The functions of Go's packages \<open>strings\<close> and \<open>strconv\<close> the program calls, on byte strings.
  A string is a list of \<open>char\<close>, one per byte. \<open>TrimSpace\<close> and \<open>Fields\<close> know the white space of
  \<open>unicode.IsSpace\<close> by its UTF-8 encodings; since no lead byte occurs inside another encoding,
  matching encodings byte by byte agrees with decoding runes. \<open>ToLower\<close> of a string that is not
  ASCII needs Unicode's case tables, which are its argument \<open>uni\<close>.
\<close>

definition hasPrefix :: "string \<Rightarrow> string \<Rightarrow> bool" where
  "hasPrefix s p \<longleftrightarrow> take (length p) s = p"

definition hasSuffix :: "string \<Rightarrow> string \<Rightarrow> bool" where
  "hasSuffix s p \<longleftrightarrow> length p \<le> length s \<and> drop (length s - length p) s = p"

definition trimPrefix :: "string \<Rightarrow> string \<Rightarrow> string" where
  "trimPrefix s p = (if hasPrefix s p then drop (length p) s else s)"

fun contains :: "string \<Rightarrow> string \<Rightarrow> bool" where
  "contains [] sub \<longleftrightarrow> sub = []"
| "contains (c # s) sub \<longleftrightarrow> hasPrefix (c # s) sub \<or> contains s sub"

definition containsAny :: "string \<Rightarrow> string \<Rightarrow> bool" where
  "containsAny s chars \<longleftrightarrow> list_ex (\<lambda>c. c \<in> set chars) s"

text \<open>\<open>strings.Cut\<close> with a separator of one byte.\<close>

fun cut :: "string \<Rightarrow> char \<Rightarrow> string \<times> string \<times> bool" where
  "cut [] sep = ([], [], False)"
| "cut (c # s) sep =
     (if c = sep then ([], s, True)
      else let (before, after, found) = cut s sep in (c # before, after, found))"

text \<open>\<open>strings.Split\<close> with a separator of one byte.\<close>

fun split_on :: "char \<Rightarrow> string \<Rightarrow> string list" where
  "split_on sep [] = [[]]"
| "split_on sep (c # s) =
     (if c = sep then [] # split_on sep s
      else case split_on sep s of
             [] \<Rightarrow> [[c]]
           | p # ps \<Rightarrow> (c # p) # ps)"

fun join :: "string \<Rightarrow> string list \<Rightarrow> string" where
  "join sep [] = []"
| "join sep [s] = s"
| "join sep (s # t # ss) = s @ sep @ join sep (t # ss)"

text \<open>\<open>strings.Trim\<close> with an ASCII cutset.\<close>

definition trim_set :: "string \<Rightarrow> string \<Rightarrow> string" where
  "trim_set s cutset =
    rev (dropWhile (\<lambda>c. c \<in> set cutset) (rev (dropWhile (\<lambda>c. c \<in> set cutset) s)))"

subsection \<open>White space\<close>

definition space_encodings :: "string list" where
  "space_encodings =
    [[CHR 0x09], [CHR 0x0A], [CHR 0x0B], [CHR 0x0C], [CHR 0x0D], [CHR 0x20],
     [CHR 0xC2, CHR 0x85], [CHR 0xC2, CHR 0xA0], [CHR 0xE1, CHR 0x9A, CHR 0x80],
     [CHR 0xE2, CHR 0x80, CHR 0x80], [CHR 0xE2, CHR 0x80, CHR 0x81],
     [CHR 0xE2, CHR 0x80, CHR 0x82], [CHR 0xE2, CHR 0x80, CHR 0x83],
     [CHR 0xE2, CHR 0x80, CHR 0x84], [CHR 0xE2, CHR 0x80, CHR 0x85],
     [CHR 0xE2, CHR 0x80, CHR 0x86], [CHR 0xE2, CHR 0x80, CHR 0x87],
     [CHR 0xE2, CHR 0x80, CHR 0x88], [CHR 0xE2, CHR 0x80, CHR 0x89],
     [CHR 0xE2, CHR 0x80, CHR 0x8A], [CHR 0xE2, CHR 0x80, CHR 0xA8],
     [CHR 0xE2, CHR 0x80, CHR 0xA9], [CHR 0xE2, CHR 0x80, CHR 0xAF],
     [CHR 0xE2, CHR 0x81, CHR 0x9F], [CHR 0xE3, CHR 0x80, CHR 0x80]]"

text \<open>The length of the white space at the front, 0 when there is none; at the end likewise.\<close>

definition space_front :: "string \<Rightarrow> nat" where
  "space_front s =
    (case find (hasPrefix s) space_encodings of None \<Rightarrow> 0 | Some w \<Rightarrow> length w)"

definition space_back :: "string \<Rightarrow> nat" where
  "space_back s =
    (case find (hasSuffix s) space_encodings of None \<Rightarrow> 0 | Some w \<Rightarrow> length w)"

lemma space_encodings_nonempty: "[] \<notin> set space_encodings"
  by (simp add: space_encodings_def)

lemma space_front_nil [simp]: "space_front [] = 0"
  by (simp add: space_front_def space_encodings_def hasPrefix_def)

lemma space_back_nil [simp]: "space_back [] = 0"
  by (simp add: space_back_def space_encodings_def hasSuffix_def)

function trim_left :: "string \<Rightarrow> string" where
  "trim_left s = (if space_front s = 0 then s else trim_left (drop (space_front s) s))"
  by pat_completeness auto
termination
proof (relation "measure length")
  show "(drop (space_front s) s, s) \<in> measure length" if "space_front s \<noteq> 0" for s
    using that by (cases "s = []") simp_all
qed simp

function trim_right :: "string \<Rightarrow> string" where
  "trim_right s = (if space_back s = 0 then s else trim_right (take (length s - space_back s) s))"
  by pat_completeness auto
termination
proof (relation "measure length")
  show "(take (length s - space_back s) s, s) \<in> measure length" if "space_back s \<noteq> 0" for s
    using that by (cases "s = []") simp_all
qed simp

declare trim_left.simps [simp del] trim_right.simps [simp del]

definition trimSpace :: "string \<Rightarrow> string" where
  "trimSpace s = trim_right (trim_left s)"

text \<open>\<open>strings.Fields\<close>: the maximal runs without white space; \<open>cur\<close> is the run being read.\<close>

function fields_from :: "string \<Rightarrow> string \<Rightarrow> string list" where
  "fields_from cur s =
    (if s = [] then (if cur = [] then [] else [cur])
     else if space_front s = 0 then fields_from (cur @ [hd s]) (tl s)
     else (if cur = [] then [] else [cur]) @ fields_from [] (drop (space_front s) s))"
  by pat_completeness auto
termination
  by (relation "measure (\<lambda>(cur, s). length s)") auto

declare fields_from.simps [simp del]

definition fields :: "string \<Rightarrow> string list" where
  "fields s = fields_from [] s"

subsection \<open>Lower case\<close>

definition ascii_lower :: "char \<Rightarrow> char" where
  "ascii_lower c =
    (let n = of_char c :: nat in if 65 \<le> n \<and> n \<le> 90 then char_of (n + 32) else c)"

definition is_ascii :: "string \<Rightarrow> bool" where
  "is_ascii s \<longleftrightarrow> list_all (\<lambda>c. (of_char c :: nat) < 128) s"

definition toLower :: "(string \<Rightarrow> string) \<Rightarrow> string \<Rightarrow> string" where
  "toLower uni s = (if is_ascii s then map ascii_lower s else uni s)"

subsection \<open>Decimal numbers\<close>

definition digit :: "nat \<Rightarrow> char" where
  "digit d = ''0123456789'' ! d"

definition digit_val :: "char \<Rightarrow> nat option" where
  "digit_val c =
    (let n = of_char c :: nat in if 48 \<le> n \<and> n \<le> 57 then Some (n - 48) else None)"

text \<open>\<open>fmt.Sprintf("%d", n)\<close> for a number that is not negative.\<close>

fun dec :: "nat \<Rightarrow> string" where
  "dec n = (if n < 10 then [digit n] else dec (n div 10) @ [digit (n mod 10)])"

declare dec.simps [simp del]

text \<open>The value of a string of digits, \<open>None\<close> if another byte occurs or it is empty.\<close>

fun digits_val :: "nat \<Rightarrow> string \<Rightarrow> nat option" where
  "digits_val acc [] = Some acc"
| "digits_val acc (c # s) =
     (case digit_val c of None \<Rightarrow> None | Some d \<Rightarrow> digits_val (10 * acc + d) s)"

definition parse_digits :: "string \<Rightarrow> nat option" where
  "parse_digits s = (if s = [] then None else digits_val 0 s)"

text \<open>\<open>strconv.ParseUint(s, 10, 64)\<close> and \<open>strconv.Atoi\<close> with a 64-bit \<open>int\<close>.\<close>

definition parseUint64 :: "string \<Rightarrow> nat option" where
  "parseUint64 s =
    (case parse_digits s of
       None \<Rightarrow> None
     | Some n \<Rightarrow> if n < 2 ^ 64 then Some n else None)"

definition atoi :: "string \<Rightarrow> int option" where
  "atoi s =
    (let (neg, body) =
        (case s of
           [] \<Rightarrow> (False, [])
         | c # cs \<Rightarrow> if c = CHR ''-'' then (True, cs)
                    else if c = CHR ''+'' then (False, cs) else (False, s))
     in case parse_digits body of
          None \<Rightarrow> None
        | Some n \<Rightarrow>
            let v = (if neg then - int n else int n)
            in if - (2 ^ 63) \<le> v \<and> v < 2 ^ 63 then Some v else None)"

subsection \<open>Facts about them\<close>

lemma digit_cases:
  assumes "d < (10 :: nat)"
  shows "d \<in> {0, 1, 2, 3, 4, 5, 6, 7, 8, 9}"
  using assms by auto

lemma digit_val_digit: "d < 10 \<Longrightarrow> digit_val (digit d) = Some d"
  using digit_cases [of d] by (auto simp: digit_val_def digit_def Let_def)

lemma digit_in: "d < 10 \<Longrightarrow> digit d \<in> set ''0123456789''"
  unfolding digit_def by (rule nth_mem) simp

lemma digits_val_append:
  "digits_val acc (s @ t) = (case digits_val acc s of None \<Rightarrow> None | Some n \<Rightarrow> digits_val n t)"
  by (induction s arbitrary: acc) (auto split: option.splits)

lemma digits_val_dec: "digits_val 0 (dec n) = Some n"
proof (induction n rule: dec.induct)
  case (1 n)
  show ?case
  proof (cases "n < 10")
    case True
    then show ?thesis by (simp add: dec.simps [of n] digit_val_digit)
  next
    case False
    with "1.IH" have "digits_val 0 (dec (n div 10)) = Some (n div 10)" by simp
    with False show ?thesis
      by (simp add: dec.simps [of n] digits_val_append digit_val_digit)
  qed
qed

lemma dec_nonempty [simp]: "dec n \<noteq> []"
  by (simp add: dec.simps [of n])

lemma dec_digits: "c \<in> set (dec n) \<Longrightarrow> \<exists>d < 10. c = digit d"
proof (induction n rule: dec.induct)
  case (1 n)
  show ?case
  proof (cases "n < 10")
    case True
    with "1.prems" show ?thesis by (auto simp: dec.simps [of n])
  next
    case False
    with "1.prems" have "c \<in> set (dec (n div 10)) \<or> c = digit (n mod 10)"
      by (auto simp: dec.simps [of n])
    moreover have "n mod 10 < 10" by simp
    ultimately show ?thesis using "1.IH" False by blast
  qed
qed

lemma parse_digits_dec: "parse_digits (dec n) = Some n"
  by (simp add: parse_digits_def digits_val_dec)

lemma parseUint64_dec: "n < 2 ^ 64 \<Longrightarrow> parseUint64 (dec n) = Some n"
  by (simp add: parseUint64_def parse_digits_dec)

lemma dec_chars: "set (dec n) \<subseteq> set ''0123456789''"
  using dec_digits digit_in by blast

lemma dec_inj: "dec m = dec n \<longleftrightarrow> m = n"
  by (metis option.inject parse_digits_dec)

lemma atoi_dec:
  assumes "n < 2 ^ 63"
  shows "atoi (dec n) = Some (int n)"
proof -
  obtain c cs where c: "dec n = c # cs" by (cases "dec n") auto
  then have "c \<in> set ''0123456789''" using dec_chars [of n] by auto
  then have "c \<noteq> CHR ''-''" "c \<noteq> CHR ''+''" by auto
  with c have "atoi (dec n) = (case parse_digits (dec n) of None \<Rightarrow> None | Some n \<Rightarrow>
      if - (2 ^ 63) \<le> int n \<and> int n < 2 ^ 63 then Some (int n) else None)"
    by (simp add: atoi_def Let_def split: option.split)
  moreover have "int n < 2 ^ 63" using assms by (metis of_nat_less_iff of_nat_numeral of_nat_power)
  ultimately show ?thesis by (simp add: parse_digits_dec)
qed

subsection \<open>Strings without white space at their ends\<close>

text \<open>A printable ASCII character other than the space.\<close>

definition graphic :: "char \<Rightarrow> bool" where
  "graphic c \<longleftrightarrow> 33 \<le> (of_char c :: nat) \<and> (of_char c :: nat) \<le> 126"

lemma space_encoding_ends:
  "w \<in> set space_encodings \<Longrightarrow> w \<noteq> [] \<and> \<not> graphic (hd w) \<and> \<not> graphic (last w)"
  by (auto simp: space_encodings_def graphic_def)

lemma space_front_graphic:
  assumes "graphic c"
  shows "space_front (c # s) = 0"
proof -
  have "\<not> hasPrefix (c # s) w" if "w \<in> set space_encodings" for w
  proof
    assume "hasPrefix (c # s) w"
    then have "take (length w) (c # s) = w" by (simp add: hasPrefix_def)
    with space_encoding_ends [OF that] have "hd w = c" by (cases w) auto
    with space_encoding_ends [OF that] assms show False by simp
  qed
  then have "find (hasPrefix (c # s)) space_encodings = None" by (simp add: find_None_iff)
  then show ?thesis by (simp add: space_front_def)
qed

lemma space_back_graphic:
  assumes "s \<noteq> []" and "graphic (last s)"
  shows "space_back s = 0"
proof -
  have "\<not> hasSuffix s w" if "w \<in> set space_encodings" for w
  proof
    assume h: "hasSuffix s w"
    then have "drop (length s - length w) s = w" "length w \<le> length s" by (simp_all add: hasSuffix_def)
    with space_encoding_ends [OF that] have "last w = last s"
      by (metis last_drop length_greater_0_conv diff_less less_le_trans)
    with space_encoding_ends [OF that] assms show False by simp
  qed
  then have "find (hasSuffix s) space_encodings = None" by (simp add: find_None_iff)
  then show ?thesis by (simp add: space_back_def)
qed

lemma space_front_blank: "space_front (CHR '' '' # s) = 1"
  by (simp add: space_front_def space_encodings_def hasPrefix_def)

text \<open>A string that starts and ends with a graphic ASCII character.\<close>

definition tidy :: "string \<Rightarrow> bool" where
  "tidy s \<longleftrightarrow> s \<noteq> [] \<and> graphic (hd s) \<and> graphic (last s)"

lemma trim_left_tidy: "tidy s \<Longrightarrow> trim_left s = s"
  by (cases s) (auto simp: tidy_def trim_left.simps [of "_ # _"] space_front_graphic)

lemma trim_right_tidy: "tidy s \<Longrightarrow> trim_right s = s"
  by (simp add: tidy_def trim_right.simps [of s] space_back_graphic)

lemma trimSpace_tidy: "tidy s \<Longrightarrow> trimSpace s = s"
  by (simp add: trimSpace_def trim_left_tidy trim_right_tidy)

lemma trimSpace_blank: "trimSpace (CHR '' '' # s) = trimSpace s"
  by (simp add: trimSpace_def trim_left.simps [of "CHR '' '' # s"] space_front_blank)

lemma tidyI: "s \<noteq> [] \<Longrightarrow> list_all graphic s \<Longrightarrow> tidy s"
  by (cases s) (auto simp: tidy_def list_all_iff)

lemma tidy_append: "tidy a \<Longrightarrow> tidy b \<Longrightarrow> tidy (a @ m @ b)"
  by (simp add: tidy_def)

lemma fields_from_graphic:
  "list_all graphic w \<Longrightarrow> fields_from cur (w @ s) = fields_from (cur @ w) s"
proof (induction w arbitrary: cur)
  case Nil
  then show ?case by simp
next
  case (Cons c w)
  then show ?case
    by (simp add: fields_from.simps [of cur "c # w @ s"] space_front_graphic)
qed

lemma fields_two:
  assumes "list_all graphic a" and "a \<noteq> []" and "list_all graphic b" and "b \<noteq> []"
  shows "fields (a @ CHR '' '' # b) = [a, b]"
proof -
  have "fields_from a (CHR '' '' # b) = a # fields_from [] b"
    using assms(2) by (simp add: fields_from.simps [of a] space_front_blank)
  moreover have "fields_from [] b = [b]"
    using fields_from_graphic [OF assms(3), of "[]" "[]"] assms(4) by (simp add: fields_from.simps [of b])
  ultimately show ?thesis
    using fields_from_graphic [OF assms(1), of "[]" "CHR '' '' # b"] by (simp add: fields_def)
qed

lemma graphic_digits: "list_all graphic (dec n)"
proof -
  have "list_all graphic ''0123456789''" by (simp add: graphic_def)
  then show ?thesis using dec_chars [of n] by (auto simp: list_all_iff)
qed

subsection \<open>Hexadecimal\<close>

text \<open>\<open>hex.EncodeToString\<close>.\<close>

definition hex_bytes :: "byte list \<Rightarrow> string" where
  "hex_bytes bs =
    concat (map (\<lambda>b. [''0123456789abcdef'' ! (unat b div 16), ''0123456789abcdef'' ! (unat b mod 16)]) bs)"

lemma length_hex_bytes [simp]: "length (hex_bytes bs) = 2 * length bs"
  by (simp add: hex_bytes_def length_concat comp_def sum_list_triv)

lemma hex_char: "n < 16 \<Longrightarrow> graphic (''0123456789abcdef'' ! n)"
proof -
  assume "n < 16"
  then have "''0123456789abcdef'' ! n \<in> set ''0123456789abcdef''" by (intro nth_mem) simp
  moreover have "list_all graphic ''0123456789abcdef''" by (simp add: graphic_def)
  ultimately show ?thesis by (simp only: list_all_iff)
qed

lemma hex_bytes_graphic: "list_all graphic (hex_bytes bs)"
proof -
  have "unat (b :: byte) div 16 < 16" for b
    using unsigned_less [of b, where ?'a = nat] by (simp add: less_mult_imp_div_less)
  then show ?thesis
    by (induction bs) (simp_all add: hex_bytes_def hex_char del: nth_Cons_numeral)
qed

end
