(* ===== verification/Netip.thy ===== *)
theory Netip
  imports GoStrings
begin

text \<open>
  The parts of Go's \<open>net\<close> and \<open>net/netip\<close> the program relies on: textual IP addresses and
  prefixes, containment, masking, printing, and host:port strings. An address is 32 bits, or
  128 bits with a zone (empty when there is none); the zero \<open>netip.Addr\<close> only appears as a parse
  error, that is \<open>None\<close>. A \<open>net.IP\<close> made by \<open>net.ParseIP\<close> is its 16 bytes as a 128-bit word.
\<close>

datatype addr = Addr4 "32 word" | Addr6 "128 word" string

definition word_of_bytes :: "byte list \<Rightarrow> 'a::len word" where
  "word_of_bytes bs = foldl (\<lambda>v b. v * 256 + ucast b) 0 bs"

definition addrFrom4 :: "byte list \<Rightarrow> addr" where
  "addrFrom4 b = Addr4 (word_of_bytes b)"

definition addrFrom16 :: "byte list \<Rightarrow> addr" where
  "addrFrom16 b = Addr6 (word_of_bytes b) []"

definition is4 :: "addr \<Rightarrow> bool" where
  "is4 a = (case a of Addr4 _ \<Rightarrow> True | Addr6 _ _ \<Rightarrow> False)"

definition is6 :: "addr \<Rightarrow> bool" where
  "is6 a = (case a of Addr4 _ \<Rightarrow> False | Addr6 _ _ \<Rightarrow> True)"

definition zone :: "addr \<Rightarrow> string" where
  "zone a = (case a of Addr4 _ \<Rightarrow> [] | Addr6 _ z \<Rightarrow> z)"

subsection \<open>Parsing addresses\<close>

text \<open>One decimal field: digits, at most 255, no leading zero.\<close>

definition octet :: "string \<Rightarrow> byte option" where
  "octet s =
    (if length s > 1 \<and> hd s = CHR ''0'' then None
     else case parse_digits s of
            None \<Rightarrow> None
          | Some n \<Rightarrow> if n \<le> 255 then Some (of_nat n) else None)"

definition parse4 :: "string \<Rightarrow> byte list option" where
  "parse4 s =
    (case map octet (split_on CHR ''.'' s) of
       [Some a, Some b, Some c, Some d] \<Rightarrow> Some [a, b, c, d]
     | _ \<Rightarrow> None)"

definition hex_val :: "char \<Rightarrow> nat option" where
  "hex_val c =
    (let n = of_char c :: nat
     in if 48 \<le> n \<and> n \<le> 57 then Some (n - 48)
        else if 97 \<le> n \<and> n \<le> 102 then Some (n - 87)
        else if 65 \<le> n \<and> n \<le> 70 then Some (n - 55)
        else None)"

definition hex_num :: "string \<Rightarrow> nat" where
  "hex_num s = foldl (\<lambda>v c. v * 16 + (case hex_val c of None \<Rightarrow> 0 | Some d \<Rightarrow> d)) 0 s"

text \<open>The group loop of \<open>parseIPv6\<close>, with the bytes read so far and the position of \<open>::\<close>;
  the first argument bounds the groups that still fit.\<close>

fun parse6_groups ::
    "nat \<Rightarrow> byte list \<Rightarrow> nat option \<Rightarrow> string \<Rightarrow> (byte list \<times> nat option \<times> string) option" where
  "parse6_groups 0 ip ell s = Some (ip, ell, s)"
| "parse6_groups (Suc k) ip ell s =
    (let g = takeWhile (\<lambda>c. hex_val c \<noteq> None) s;
         rest = drop (length g) s;
         v = hex_num g;
         ip' = ip @ [of_nat (v div 256), of_nat (v mod 256)]
     in if length g > 4 \<or> g = [] then None
        else case rest of
            [] \<Rightarrow> Some (ip', ell, [])
          | c # r \<Rightarrow>
              if c = CHR ''.'' then
                (if ell = None \<and> length ip \<noteq> 12 \<or> length ip + 4 > 16 then None
                 else case parse4 s of
                        None \<Rightarrow> None
                      | Some q \<Rightarrow> Some (ip @ q, ell, []))
              else if c \<noteq> CHR '':'' \<or> r = [] then None
              else if hd r = CHR '':'' then
                (if ell \<noteq> None then None
                 else if tl r = [] then Some (ip', Some (length ip'), [])
                 else parse6_groups k ip' (Some (length ip')) (tl r))
              else parse6_groups k ip' ell r)"

definition expand6 :: "byte list \<times> nat option \<times> string \<Rightarrow> byte list option" where
  "expand6 = (\<lambda>(ip, ell, s).
    if s \<noteq> [] then None
    else if length ip < 16 then
      (case ell of
         None \<Rightarrow> None
       | Some e \<Rightarrow> Some (take e ip @ replicate (16 - length ip) 0 @ drop e ip))
    else if ell \<noteq> None then None
    else Some ip)"

definition parse6 :: "string \<Rightarrow> addr option" where
  "parse6 input =
    (let (s, z, zoned) = cut input CHR ''%''
     in if zoned \<and> z = [] then None
        else if hasPrefix s ''::'' then
          (if s = ''::'' then Some (Addr6 0 z)
           else case parse6_groups 8 [] (Some 0) (drop 2 s) of
                  None \<Rightarrow> None
                | Some r \<Rightarrow> map_option (\<lambda>b. Addr6 (word_of_bytes b) z) (expand6 r))
        else case parse6_groups 8 [] None s of
               None \<Rightarrow> None
             | Some r \<Rightarrow> map_option (\<lambda>b. Addr6 (word_of_bytes b) z) (expand6 r))"

text \<open>\<open>netip.ParseAddr\<close> looks for the first of \<open>.\<close>, \<open>:\<close> and \<open>%\<close>.\<close>

definition parseAddr :: "string \<Rightarrow> addr option" where
  "parseAddr s =
    (case find (\<lambda>c. c \<in> set ''.:%'') s of
       None \<Rightarrow> None
     | Some c \<Rightarrow>
         if c = CHR ''.'' then map_option addrFrom4 (parse4 s)
         else if c = CHR '':'' then parse6 s
         else None)"

text \<open>\<open>net.ParseIP\<close>: no zone, and always 16 bytes.\<close>

definition parseIP :: "string \<Rightarrow> 128 word option" where
  "parseIP s =
    (case parseAddr s of
       None \<Rightarrow> None
     | Some (Addr4 v) \<Rightarrow> Some (push_bit 32 0xffff OR ucast v)
     | Some (Addr6 v z) \<Rightarrow> if z = [] then Some v else None)"

subsection \<open>Prefixes\<close>

text \<open>A \<open>netip.Prefix\<close>: the address and the number of bits.\<close>

type_synonym prefix = "addr \<times> nat"

definition parsePrefix :: "string \<Rightarrow> prefix option" where
  "parsePrefix s =
    (if CHR ''/'' \<notin> set s then None
     else
       let tail = rev (takeWhile (\<lambda>c. c \<noteq> CHR ''/'') (rev s));
           head = take (length s - length tail - 1) s
       in case parseAddr head of
            None \<Rightarrow> None
          | Some ip \<Rightarrow>
              if zone ip \<noteq> [] then None
              else if length tail > 1 \<and> hd tail \<notin> set ''123456789'' then None
              else case atoi tail of
                     None \<Rightarrow> None
                   | Some n \<Rightarrow>
                       if n < 0 \<or> n > (if is4 ip then 32 else 128) then None
                       else Some (ip, nat n))"

text \<open>\<open>Prefix.Contains\<close>: the leading bits agree.\<close>

definition prefix_contains :: "prefix \<Rightarrow> addr \<Rightarrow> bool" where
  "prefix_contains p a =
    (case (p, a) of
       ((Addr4 n, bits), Addr4 v) \<Rightarrow> drop_bit (32 - bits) (v XOR n) = 0
     | ((Addr6 n zn, bits), Addr6 v z) \<Rightarrow> z = [] \<and> drop_bit (128 - bits) (v XOR n) = 0
     | _ \<Rightarrow> False)"

definition masked :: "prefix \<Rightarrow> prefix" where
  "masked p =
    (case p of
       (Addr4 n, bits) \<Rightarrow> (Addr4 (push_bit (32 - bits) (drop_bit (32 - bits) n)), bits)
     | (Addr6 n z, bits) \<Rightarrow> (Addr6 (push_bit (128 - bits) (drop_bit (128 - bits) n)) [], bits))"

subsection \<open>Printing\<close>

definition string4 :: "32 word \<Rightarrow> string" where
  "string4 v =
    join ''.'' (map (\<lambda>k. dec (unat (drop_bit k v AND 255))) [24, 16, 8, 0])"

fun hex :: "nat \<Rightarrow> string" where
  "hex n = (if n < 16 then [''0123456789abcdef'' ! n]
            else hex (n div 16) @ [''0123456789abcdef'' ! (n mod 16)])"

declare hex.simps [simp del]

definition group :: "128 word \<Rightarrow> nat \<Rightarrow> nat" where
  "group v i = unat (drop_bit (112 - 16 * i) v AND 0xffff)"

text \<open>The longest run of at least two zero groups, the first such run: its start and end.\<close>

definition zero_run :: "128 word \<Rightarrow> nat \<times> nat" where
  "zero_run v =
    foldl (\<lambda>(zs, ze) i.
        let j = i + length (takeWhile (\<lambda>k. group v k = 0) [i..<8])
        in if j - i \<ge> 2 \<and> j - i > ze - zs then (i, j) else (zs, ze))
      (255, 255) [0..<8]"

fun groups_from :: "128 word \<Rightarrow> nat \<times> nat \<Rightarrow> nat list \<Rightarrow> string" where
  "groups_from v z [] = []"
| "groups_from v z (i # is) =
    (if i = fst z then ''::'' @
       (if snd z \<ge> 8 then [] else hex (group v (snd z))) @ groups_from v z is
     else if fst z < i \<and> i \<le> snd z \<and> fst z < 8 then groups_from v z is
     else (if i > 0 then '':'' else []) @ hex (group v i) @ groups_from v z is)"

definition string6 :: "128 word \<Rightarrow> string" where
  "string6 v = groups_from v (zero_run v) [0..<8]"

definition is4in6 :: "128 word \<Rightarrow> bool" where
  "is4in6 v \<longleftrightarrow> drop_bit 32 v = 0xffff"

definition addr_string :: "addr \<Rightarrow> string" where
  "addr_string a =
    (case a of
       Addr4 v \<Rightarrow> string4 v
     | Addr6 v z \<Rightarrow>
         (if is4in6 v then ''::ffff:'' @ string4 (ucast v) else string6 v) @
         (if z = [] then [] else ''%'' @ z))"

definition prefix_string :: "prefix \<Rightarrow> string" where
  "prefix_string p = addr_string (fst p) @ ''/'' @ dec (snd p)"

text \<open>\<open>net.IP\<close>: \<open>To4() != nil\<close>, \<open>String\<close> and \<open>IsLoopback\<close>.\<close>

definition ip_string :: "128 word \<Rightarrow> string" where
  "ip_string v = (if is4in6 v then string4 (ucast v) else string6 v)"

definition isLoopback :: "128 word \<Rightarrow> bool" where
  "isLoopback v = (if is4in6 v then drop_bit 24 (ucast v :: 32 word) = 127 else v = 1)"

subsection \<open>Host and port\<close>

definition last_index :: "char \<Rightarrow> string \<Rightarrow> nat option" where
  "last_index c s =
    (if c \<in> set s then Some (length s - 1 - length (takeWhile (\<lambda>x. x \<noteq> c) (rev s))) else None)"

definition first_index :: "char \<Rightarrow> string \<Rightarrow> nat option" where
  "first_index c s = (if c \<in> set s then Some (length (takeWhile (\<lambda>x. x \<noteq> c) s)) else None)"

definition splitHostPort :: "string \<Rightarrow> (string \<times> string) option" where
  "splitHostPort hp =
    (case last_index CHR '':'' hp of
       None \<Rightarrow> None
     | Some i \<Rightarrow>
         if hd hp = CHR ''['' then
           (case first_index CHR '']'' hp of
              None \<Rightarrow> None
            | Some e \<Rightarrow>
                if e + 1 \<noteq> i then None
                else if CHR ''['' \<in> set (drop 1 hp) \<or> CHR '']'' \<in> set (drop (e + 1) hp) then None
                else Some (take (e - 1) (drop 1 hp), drop (i + 1) hp))
         else if CHR '':'' \<in> set (take i hp) then None
         else if CHR ''['' \<in> set hp \<or> CHR '']'' \<in> set hp then None
         else Some (take i hp, drop (i + 1) hp))"

definition joinHostPort :: "string \<Rightarrow> string \<Rightarrow> string" where
  "joinHostPort host port =
    (if CHR '':'' \<in> set host then ''['' @ host @ '']:'' @ port else host @ '':'' @ port)"

end
