(* ===== verification/Bridge.thy ===== *)
theory Bridge
  imports Netip Packet
begin

text \<open>
  \<open>internal/tunnel/bridge.go\<close>: the packet checks (\<open>ValidateIP\<close>, \<open>Source\<close>), the decision one
  iteration of \<open>copyPackets\<close> takes, and \<open>Bridge\<close> as a step relation: two copying goroutines,
  the main goroutine and the context, interleaved at every call they make. The endpoints are
  arbitrary: a read may return any packet or any error, a write may succeed or fail.
\<close>

subsection \<open>ValidateIP and Source\<close>

datatype ip_error =
    InvalidSize
  | InvalidIPv4Length
  | InvalidIPv6Length
  | UnknownVersion

definition ValidateIP :: "packet \<Rightarrow> ip_error option" where
  "ValidateIP b =
    (if length b < 1 \<or> length b > MTU then Some InvalidSize
     else if drop_bit 4 (b ! 0) = 4 then
       (if length b < 20 \<or> unat (b ! 0 AND 15) * 4 < 20 \<or> unat (b ! 0 AND 15) * 4 > length b \<or>
           unat (get16 (take 2 (drop 2 b))) \<noteq> length b
        then Some InvalidIPv4Length else None)
     else if drop_bit 4 (b ! 0) = 6 then
       (if length b < 40 \<or> unat (get16 (take 2 (drop 4 b))) + 40 \<noteq> length b
        then Some InvalidIPv6Length else None)
     else Some UnknownVersion)"

text \<open>\<open>None\<close> is the panic of an index or a slice out of range.\<close>

definition Source :: "packet \<Rightarrow> addr option" where
  "Source b =
    (if b = [] then None
     else if drop_bit 4 (b ! 0) = 4 then
       (if length b < 16 then None else Some (addrFrom4 (take 4 (drop 12 b))))
     else
       (if length b < 24 then None else Some (addrFrom16 (take 16 (drop 8 b)))))"

lemma ValidateIP_sized: "ValidateIP b = None \<Longrightarrow> sized b"
  by (auto simp: ValidateIP_def sized_def split: if_splits)

lemma ValidateIP_Source: "ValidateIP b = None \<Longrightarrow> Source b \<noteq> None"
  by (auto simp: ValidateIP_def Source_def split: if_splits)

subsection \<open>One iteration of copyPackets\<close>

text \<open>What the loop does with a packet it has read: stop with an error, panic, \<open>continue\<close>
  without writing, or write it.\<close>

text \<open>\<open>admit_no_panic\<close> below shows that the verdict \<open>Panic\<close> never occurs.\<close>

datatype verdict = Reject ip_error | Panic | Drop | Forward

definition admit :: "bool \<Rightarrow> addr list \<Rightarrow> packet \<Rightarrow> verdict" where
  "admit inbound allowed b =
    (case ValidateIP b of
       Some e \<Rightarrow> Reject e
     | None \<Rightarrow>
         if inbound \<and> length allowed > 0 then
           (case Source b of
              None \<Rightarrow> Panic
            | Some source \<Rightarrow> if list_ex (\<lambda>a. a = source) allowed then Forward else Drop)
         else Forward)"

lemma admit_no_panic: "admit inbound allowed b \<noteq> Panic"
  using ValidateIP_Source [of b] by (auto simp: admit_def split: option.splits if_splits)

lemma admit_forward_iff:
  "admit inbound allowed b = Forward \<longleftrightarrow>
    ValidateIP b = None \<and> (inbound \<longrightarrow> allowed = [] \<or> (\<exists>a \<in> set allowed. Source b = Some a))"
  using ValidateIP_Source [of b] by (auto simp: admit_def list_ex_iff split: option.splits if_splits)

subsection \<open>The Bridge\<close>

text \<open>\<open>Outbound\<close> copies from the device to the remote end, \<open>Inbound\<close> from the remote end to the
  device.\<close>

datatype dir = Outbound | Inbound

datatype pc = Reading | Writing packet | Counting packet | Stopped

datatype 'e bridge_error =
    ReadFailed 'e
  | BadPacket ip_error
  | WriteFailed 'e
  | ContextDone

text \<open>The main goroutine: in the \<open>select\<close> loop, then before each of the calls \<open>cancel\<close>,
  \<open>dev.Close\<close>, \<open>remote.Close\<close> and \<open>wg.Wait\<close>, and after the last.\<close>

datatype main_pc = Selecting | Cancelling | ClosingDev | ClosingRemote | Waiting | Joined

text \<open>
  \<open>taken d\<close> and \<open>given d\<close> record the packets direction \<open>d\<close> has read and written, oldest first;
  \<open>packets d\<close> and \<open>octets d\<close> are its two atomic counters. \<open>errs\<close> is the channel of capacity 2.
\<close>

record 'e bridge =
  pc_of :: "dir \<Rightarrow> pc"
  taken :: "dir \<Rightarrow> packet list"
  given :: "dir \<Rightarrow> packet list"
  packets :: "dir \<Rightarrow> 64 word"
  octets :: "dir \<Rightarrow> 64 word"
  errs :: "'e bridge_error list"
  cancelled :: bool
  dev_closed :: bool
  remote_closed :: bool
  main :: main_pc
  result :: "'e bridge_error option"

definition bridge_init :: "'e bridge" where
  "bridge_init = \<lparr>pc_of = (\<lambda>_. Reading), taken = (\<lambda>_. []), given = (\<lambda>_. []),
    packets = (\<lambda>_. 0), octets = (\<lambda>_. 0), errs = [], cancelled = False,
    dev_closed = False, remote_closed = False, main = Selecting, result = None\<rparr>"

text \<open>\<open>errs <- e; return\<close> of a copying goroutine.\<close>

definition stop_dir :: "dir \<Rightarrow> 'e bridge_error \<Rightarrow> 'e bridge \<Rightarrow> 'e bridge" where
  "stop_dir d e s = s\<lparr>pc_of := (pc_of s)(d := Stopped), errs := errs s @ [e]\<rparr>"

definition read_packet :: "addr list \<Rightarrow> dir \<Rightarrow> packet \<Rightarrow> 'e bridge \<Rightarrow> 'e bridge" where
  "read_packet allowed d b s =
    (let s' = s\<lparr>taken := (taken s)(d := taken s d @ [b])\<rparr>
     in case admit (d = Inbound) allowed b of
          Reject e \<Rightarrow> stop_dir d (BadPacket e) s'
        | Panic \<Rightarrow> s'
        | Drop \<Rightarrow> s'
        | Forward \<Rightarrow> s'\<lparr>pc_of := (pc_of s)(d := Writing b)\<rparr>)"

definition wrote_packet :: "dir \<Rightarrow> packet \<Rightarrow> 'e bridge \<Rightarrow> 'e bridge" where
  "wrote_packet d b s =
    s\<lparr>given := (given s)(d := given s d @ [b]), pc_of := (pc_of s)(d := Counting b)\<rparr>"

definition count_packet :: "dir \<Rightarrow> packet \<Rightarrow> 'e bridge \<Rightarrow> 'e bridge" where
  "count_packet d b s =
    s\<lparr>packets := (packets s)(d := packets s d + 1),
      octets := (octets s)(d := octets s d + of_nat (length b)),
      pc_of := (pc_of s)(d := Reading)\<rparr>"

definition leave_select :: "'e bridge_error \<Rightarrow> 'e bridge \<Rightarrow> 'e bridge" where
  "leave_select r s = s\<lparr>result := Some r, main := Cancelling\<rparr>"

text \<open>
  The steps. The \<open>select\<close> of the main goroutine takes an error from the channel or sees the
  context done, then cancels and closes both ends; the context's \<open>AfterFunc\<close> closes them too, in
  a goroutine of its own; \<open>wg.Wait\<close> passes when both copying goroutines have stopped. The ticker
  case of the \<open>select\<close> logs the counters and changes nothing.
\<close>

inductive bridge_step :: "addr list \<Rightarrow> 'e bridge \<Rightarrow> 'e bridge \<Rightarrow> bool"
  for allowed :: "addr list" where
  read: "pc_of s d = Reading \<Longrightarrow> bridge_step allowed s (read_packet allowed d b s)"
| read_fail: "pc_of s d = Reading \<Longrightarrow> bridge_step allowed s (stop_dir d (ReadFailed e) s)"
| deliver: "pc_of s d = Writing b \<Longrightarrow> bridge_step allowed s (wrote_packet d b s)"
| write_fail: "pc_of s d = Writing b \<Longrightarrow> bridge_step allowed s (stop_dir d (WriteFailed e) s)"
| count: "pc_of s d = Counting b \<Longrightarrow> bridge_step allowed s (count_packet d b s)"
| cancel: "bridge_step allowed s (s\<lparr>cancelled := True\<rparr>)"
| after_dev: "cancelled s \<Longrightarrow> bridge_step allowed s (s\<lparr>dev_closed := True\<rparr>)"
| after_remote: "cancelled s \<Longrightarrow> dev_closed s \<Longrightarrow> bridge_step allowed s (s\<lparr>remote_closed := True\<rparr>)"
| take_error: "main s = Selecting \<Longrightarrow> errs s = e # es \<Longrightarrow>
    bridge_step allowed s (leave_select e (s\<lparr>errs := es\<rparr>))"
| take_done: "main s = Selecting \<Longrightarrow> cancelled s \<Longrightarrow> bridge_step allowed s (leave_select ContextDone s)"
| main_cancel: "main s = Cancelling \<Longrightarrow>
    bridge_step allowed s (s\<lparr>cancelled := True, main := ClosingDev\<rparr>)"
| main_dev: "main s = ClosingDev \<Longrightarrow>
    bridge_step allowed s (s\<lparr>dev_closed := True, main := ClosingRemote\<rparr>)"
| main_remote: "main s = ClosingRemote \<Longrightarrow>
    bridge_step allowed s (s\<lparr>remote_closed := True, main := Waiting\<rparr>)"
| wait: "main s = Waiting \<Longrightarrow> pc_of s Outbound = Stopped \<Longrightarrow> pc_of s Inbound = Stopped \<Longrightarrow>
    bridge_step allowed s (s\<lparr>main := Joined\<rparr>)"

inductive bridge_reach :: "addr list \<Rightarrow> 'e bridge \<Rightarrow> bool" for allowed :: "addr list" where
  start: "bridge_reach allowed bridge_init"
| step: "bridge_reach allowed s \<Longrightarrow> bridge_step allowed s t \<Longrightarrow> bridge_reach allowed t"

lemmas bridge_ops = stop_dir_def read_packet_def wrote_packet_def count_packet_def leave_select_def

subsection \<open>The invariant\<close>

definition admitted :: "addr list \<Rightarrow> dir \<Rightarrow> packet list \<Rightarrow> packet list" where
  "admitted allowed d bs = filter (\<lambda>b. admit (d = Inbound) allowed b = Forward) bs"

definition in_flight :: "pc \<Rightarrow> packet list" where
  "in_flight p = (case p of Writing b \<Rightarrow> [b] | _ \<Rightarrow> [])"

definition uncounted :: "pc \<Rightarrow> packet list" where
  "uncounted p = (case p of Counting b \<Rightarrow> [b] | _ \<Rightarrow> [])"

text \<open>Forwarding in one direction: everything admitted has been written, up to the packet being
  written, or lost when a write failed.\<close>

definition forwards :: "addr list \<Rightarrow> 'e bridge \<Rightarrow> dir \<Rightarrow> bool" where
  "forwards allowed s d \<longleftrightarrow>
    (\<exists>lost. admitted allowed d (taken s d) = given s d @ in_flight (pc_of s d) @ lost \<and>
       length lost \<le> 1 \<and> (lost \<noteq> [] \<longrightarrow> pc_of s d = Stopped))"

text \<open>Counting in one direction: the counters are those of the packets written, but for the one
  just written.\<close>

definition counts :: "'e bridge \<Rightarrow> dir \<Rightarrow> bool" where
  "counts s d \<longleftrightarrow>
    (\<exists>ps. given s d = ps @ uncounted (pc_of s d) \<and>
       packets s d = of_nat (length ps) \<and> octets s d = of_nat (sum_list (map length ps)))"

definition stopped_dirs :: "'e bridge \<Rightarrow> nat" where
  "stopped_dirs s = length (filter (\<lambda>d. pc_of s d = Stopped) [Outbound, Inbound])"

text \<open>The channel never holds more errors than goroutines have stopped.\<close>

definition room :: "'e bridge \<Rightarrow> bool" where
  "room s \<longleftrightarrow> length (errs s) \<le> stopped_dirs s"

text \<open>What the main goroutine has done by its place in the function.\<close>

definition shuts_down :: "'e bridge \<Rightarrow> bool" where
  "shuts_down s \<longleftrightarrow>
    (case main s of
       Selecting \<Rightarrow> True
     | Cancelling \<Rightarrow> result s \<noteq> None
     | ClosingDev \<Rightarrow> result s \<noteq> None \<and> cancelled s
     | ClosingRemote \<Rightarrow> result s \<noteq> None \<and> cancelled s \<and> dev_closed s
     | Waiting \<Rightarrow> result s \<noteq> None \<and> cancelled s \<and> dev_closed s \<and> remote_closed s
     | Joined \<Rightarrow> result s \<noteq> None \<and> cancelled s \<and> dev_closed s \<and> remote_closed s \<and>
         pc_of s Outbound = Stopped \<and> pc_of s Inbound = Stopped)"

definition bridge_inv :: "addr list \<Rightarrow> 'e bridge \<Rightarrow> bool" where
  "bridge_inv allowed s \<longleftrightarrow>
    (\<forall>d. forwards allowed s d) \<and> (\<forall>d. counts s d) \<and> room s \<and> shuts_down s"

lemma bridge_inv_init: "bridge_inv allowed bridge_init"
  by (simp add: bridge_inv_def forwards_def counts_def room_def shuts_down_def bridge_init_def
      admitted_def in_flight_def uncounted_def stopped_dirs_def)

lemma forwards_step:
  assumes "bridge_step allowed s t" and "forwards allowed s d"
  shows "forwards allowed t d"
  using assms
proof (cases rule: bridge_step.cases)
  case (read d' b)
  with assms(2) show ?thesis
    by (cases "d' = d"; cases "admit (d' = Inbound) allowed b")
      (auto simp: forwards_def bridge_ops admitted_def in_flight_def Let_def)
qed (auto simp: forwards_def bridge_ops in_flight_def)

lemma counts_step:
  assumes "bridge_step allowed s t" and "counts s d"
  shows "counts t d"
  using assms
proof (cases rule: bridge_step.cases)
  case (read d' b)
  with assms(2) show ?thesis
    by (cases "d' = d"; cases "admit (d' = Inbound) allowed b")
      (auto simp: counts_def bridge_ops uncounted_def Let_def)
next
  case (count d' b)
  with assms(2) show ?thesis
    by (cases "d' = d") (auto simp: counts_def bridge_ops uncounted_def)
qed (auto simp: counts_def bridge_ops uncounted_def)

lemma read_packet_cases:
  obtains "pc_of (read_packet allowed d b s) = pc_of s" and "errs (read_packet allowed d b s) = errs s"
  | "pc_of (read_packet allowed d b s) = (pc_of s)(d := Writing b)"
    and "errs (read_packet allowed d b s) = errs s"
  | e where "pc_of (read_packet allowed d b s) = (pc_of s)(d := Stopped)"
    and "errs (read_packet allowed d b s) = errs s @ [e]"
  by (cases "admit (d = Inbound) allowed b") (auto simp: bridge_ops Let_def)

lemma read_packet_main:
  "main (read_packet allowed d b s) = main s" "result (read_packet allowed d b s) = result s"
  "cancelled (read_packet allowed d b s) = cancelled s"
  "dev_closed (read_packet allowed d b s) = dev_closed s"
  "remote_closed (read_packet allowed d b s) = remote_closed s"
  by (auto simp: bridge_ops Let_def split: verdict.split)

lemma stopped_dirs_upd:
  "stopped_dirs (s\<lparr>pc_of := (pc_of s)(d := Stopped)\<rparr>) =
    (if pc_of s d = Stopped then stopped_dirs s else Suc (stopped_dirs s))"
  "p \<noteq> Stopped \<Longrightarrow> pc_of s d \<noteq> Stopped \<Longrightarrow>
    stopped_dirs (s\<lparr>pc_of := (pc_of s)(d := p)\<rparr>) = stopped_dirs s"
  by (cases d; simp add: stopped_dirs_def)+

lemma stopped_dirs_cong: "pc_of s = pc_of t \<Longrightarrow> stopped_dirs s = stopped_dirs t"
  by (simp add: stopped_dirs_def)

lemma room_more:
  assumes "room s" and "pc_of s d \<noteq> Stopped" and "p \<noteq> Stopped"
    and "pc_of t = (pc_of s)(d := p)" and "errs t = errs s"
  shows "room t"
  using assms stopped_dirs_cong [of t "s\<lparr>pc_of := (pc_of s)(d := p)\<rparr>"]
  by (simp add: room_def stopped_dirs_upd)

lemma room_stop:
  assumes "room s" and "pc_of s d \<noteq> Stopped"
    and "pc_of t = (pc_of s)(d := Stopped)" and "errs t = errs s @ [e]"
  shows "room t"
  using assms stopped_dirs_cong [of t "s\<lparr>pc_of := (pc_of s)(d := Stopped)\<rparr>"]
  by (simp add: room_def stopped_dirs_upd)

lemma room_same:
  assumes "room s" and "pc_of t = pc_of s" and "length (errs t) \<le> length (errs s)"
  shows "room t"
  using assms stopped_dirs_cong [of t s] by (simp add: room_def)

lemma room_step:
  assumes "bridge_step allowed s t" and "room s"
  shows "room t"
  using assms(1)
proof (cases rule: bridge_step.cases)
  case (read d b)
  then have d: "pc_of s d \<noteq> Stopped" by simp
  show ?thesis unfolding read(1)
    by (rule read_packet_cases [of allowed d b s])
      (simp_all add: room_same [OF assms(2)] room_more [OF assms(2) d, of "Writing b"] room_stop [OF assms(2) d])
next
  case (read_fail d e)
  then have "pc_of s d \<noteq> Stopped" by simp
  from room_stop [OF assms(2) this] read_fail show ?thesis by (simp add: stop_dir_def)
next
  case (deliver d b)
  then have "pc_of s d \<noteq> Stopped" by simp
  from room_more [OF assms(2) this, of "Counting b"] deliver show ?thesis
    by (simp add: wrote_packet_def)
next
  case (write_fail d b e)
  then have "pc_of s d \<noteq> Stopped" by simp
  from room_stop [OF assms(2) this] write_fail show ?thesis by (simp add: stop_dir_def)
next
  case (count d b)
  then have "pc_of s d \<noteq> Stopped" by simp
  from room_more [OF assms(2) this, of Reading] count show ?thesis by (simp add: count_packet_def)
qed (simp_all add: leave_select_def room_same [OF assms(2)])

lemma shuts_down_keep:
  assumes "shuts_down s" and "main t = main s" and "result t = result s"
    and "cancelled s \<Longrightarrow> cancelled t" and "dev_closed s \<Longrightarrow> dev_closed t"
    and "remote_closed s \<Longrightarrow> remote_closed t"
    and "\<And>d. pc_of s d = Stopped \<Longrightarrow> pc_of t d = Stopped"
  shows "shuts_down t"
  using assms by (cases "main s") (simp_all add: shuts_down_def)

lemma shuts_down_step:
  assumes "bridge_step allowed s t" and "shuts_down s"
  shows "shuts_down t"
  using assms(1)
proof (cases rule: bridge_step.cases)
  case (read d b)
  have "pc_of (read_packet allowed d b s) d' = Stopped" if "pc_of s d' = Stopped" for d'
    by (rule read_packet_cases [of allowed d b s]) (use that read in auto)
  then show ?thesis unfolding read(1)
    by (intro shuts_down_keep [OF assms(2)]) (simp_all add: read_packet_main)
next
  case (read_fail d e)
  then show ?thesis by (intro shuts_down_keep [OF assms(2)]) (simp_all add: stop_dir_def)
next
  case (deliver d b)
  then show ?thesis by (intro shuts_down_keep [OF assms(2)]) (auto simp: wrote_packet_def)
next
  case (write_fail d b e)
  then show ?thesis by (intro shuts_down_keep [OF assms(2)]) (simp_all add: stop_dir_def)
next
  case (count d b)
  then show ?thesis by (intro shuts_down_keep [OF assms(2)]) (auto simp: count_packet_def)
next
  case cancel
  then show ?thesis by (intro shuts_down_keep [OF assms(2)]) simp_all
next
  case after_dev
  then show ?thesis by (intro shuts_down_keep [OF assms(2)]) simp_all
next
  case after_remote
  then show ?thesis by (intro shuts_down_keep [OF assms(2)]) simp_all
qed (use assms(2) in \<open>simp_all add: shuts_down_def leave_select_def\<close>)

lemma bridge_inv_step: "bridge_step allowed s t \<Longrightarrow> bridge_inv allowed s \<Longrightarrow> bridge_inv allowed t"
  unfolding bridge_inv_def by (blast intro: forwards_step counts_step room_step shuts_down_step)

lemma bridge_reach_inv: "bridge_reach allowed s \<Longrightarrow> bridge_inv allowed s"
  by (induction rule: bridge_reach.induct) (blast intro: bridge_inv_init bridge_inv_step)+

lemma given_admitted:
  assumes "bridge_reach allowed s" and "b \<in> set (given s d)"
  shows "admit (d = Inbound) allowed b = Forward"
proof -
  have "forwards allowed s d" using bridge_reach_inv [OF assms(1)] by (simp add: bridge_inv_def)
  with assms(2) have "b \<in> set (admitted allowed d (taken s d))" by (auto simp: forwards_def)
  then show ?thesis by (simp add: admitted_def)
qed

text \<open>From any state the bridge can come to its end, once the main goroutine has left the
  \<open>select\<close>: the main goroutine closes the ends, a running direction meets an error.\<close>

lemma step_star: "bridge_step allowed s t \<Longrightarrow> (bridge_step allowed)\<^sup>*\<^sup>* s t"
  by (rule r_into_rtranclp)

lemma stop_direction:
  "\<exists>t. (bridge_step allowed)\<^sup>*\<^sup>* s t \<and> main t = main s \<and> pc_of t = (pc_of s)(d := Stopped)"
proof (cases "pc_of s d")
  case Reading
  then show ?thesis
    by (intro exI [of _ "stop_dir d (ReadFailed undefined) s"] conjI step_star bridge_step.read_fail)
      (simp_all add: stop_dir_def)
next
  case (Writing b)
  then show ?thesis
    by (intro exI [of _ "stop_dir d (WriteFailed undefined) s"] conjI step_star
        bridge_step.write_fail) (simp_all add: stop_dir_def)
next
  case (Counting b)
  then show ?thesis
    by (intro exI [of _ "stop_dir d (ReadFailed undefined) (count_packet d b s)"] conjI
        rtranclp_trans [OF step_star [OF bridge_step.count] step_star [OF bridge_step.read_fail]])
      (simp_all add: bridge_ops)
next
  case Stopped
  then show ?thesis by (intro exI [of _ s]) (auto simp: fun_upd_idem)
qed

lemma close_ends:
  assumes "main s \<in> {Cancelling, ClosingDev, ClosingRemote, Waiting}"
  shows "\<exists>t. (bridge_step allowed)\<^sup>*\<^sup>* s t \<and> main t = Waiting"
proof -
  have w: "\<exists>t. (bridge_step allowed)\<^sup>*\<^sup>* u t \<and> main t = Waiting" if "main u = ClosingRemote" for u
    using step_star [OF bridge_step.main_remote [OF that]] by force
  have d: "\<exists>t. (bridge_step allowed)\<^sup>*\<^sup>* u t \<and> main t = Waiting" if "main u = ClosingDev" for u
    using w [of "u\<lparr>dev_closed := True, main := ClosingRemote\<rparr>"]
      converse_rtranclp_into_rtranclp [of "bridge_step allowed", OF bridge_step.main_dev [OF that]]
    by force
  have c: "\<exists>t. (bridge_step allowed)\<^sup>*\<^sup>* u t \<and> main t = Waiting" if "main u = Cancelling" for u
    using d [of "u\<lparr>cancelled := True, main := ClosingDev\<rparr>"]
      converse_rtranclp_into_rtranclp [of "bridge_step allowed", OF bridge_step.main_cancel [OF that]]
    by force
  from assms w d c show ?thesis by blast
qed

lemma can_return:
  assumes "main s \<in> {Cancelling, ClosingDev, ClosingRemote, Waiting}"
  shows "\<exists>t. (bridge_step allowed)\<^sup>*\<^sup>* s t \<and> main t = Joined"
proof -
  obtain t where t: "(bridge_step allowed)\<^sup>*\<^sup>* s t" "main t = Waiting"
    using close_ends [OF assms, of allowed] by blast
  obtain u where u: "(bridge_step allowed)\<^sup>*\<^sup>* t u" "main u = Waiting" "pc_of u Outbound = Stopped"
    using stop_direction [of allowed t Outbound] t(2) by auto
  obtain v where v: "(bridge_step allowed)\<^sup>*\<^sup>* u v" "main v = Waiting"
      "pc_of v Outbound = Stopped" "pc_of v Inbound = Stopped"
    using stop_direction [of allowed u Inbound] u(2,3) by auto
  have "(bridge_step allowed)\<^sup>*\<^sup>* s (v\<lparr>main := Joined\<rparr>)"
    using t(1) u(1) v(1) bridge_step.wait [OF v(2-4)] by (meson rtranclp.rtrancl_into_rtrancl rtranclp_trans)
  then show ?thesis by force
qed

subsection \<open>Properties\<close>

text \<open>C19: The bridge neither alters, reorders, repeats nor invents packets. In every reachable
  state, in each direction, the packets written are the admitted ones among those read, in the
  same order, up to at most one: the packet being written now, or the one whose write failed and
  ended the direction.\<close>

theorem bridge_forwards_in_order:
  assumes "bridge_reach allowed s"
  shows "\<exists>rest. filter (\<lambda>b. admit (d = Inbound) allowed b = Forward) (taken s d) = given s d @ rest \<and>
    length rest \<le> 1 \<and>
    (rest \<noteq> [] \<longrightarrow> pc_of s d = Stopped \<or> pc_of s d = Writing (hd rest))"
proof -
  have "forwards allowed s d" using bridge_reach_inv [OF assms] by (simp add: bridge_inv_def)
  then obtain lost where "admitted allowed d (taken s d) = given s d @ in_flight (pc_of s d) @ lost"
    and "length lost \<le> 1" and "lost \<noteq> [] \<longrightarrow> pc_of s d = Stopped" by (auto simp: forwards_def)
  then show ?thesis
    by (intro exI [of _ "in_flight (pc_of s d) @ lost"], cases "pc_of s d"; cases lost)
      (simp_all add: admitted_def in_flight_def)
qed

definition sample_packet :: packet where
  "sample_packet = [0x45, 0, 0, 20, 0, 0, 0, 0, 64, 17, 0, 0, 10, 7, 0, 2, 10, 7, 0, 1]"

definition spoofed_packet :: packet where
  "spoofed_packet = [0x45, 0, 0, 20, 0, 0, 0, 0, 64, 17, 0, 0, 10, 7, 0, 3, 10, 7, 0, 1]"

lemma sample_admit:
  "admit True [Addr4 0x0a070002] sample_packet = Forward"
  "admit True [Addr4 0x0a070002] spoofed_packet = Drop"
  by code_simp+

lemma sample_run:
  "bridge_reach [Addr4 0x0a070002] (wrote_packet Inbound sample_packet
    (read_packet [Addr4 0x0a070002] Inbound sample_packet
      (read_packet [Addr4 0x0a070002] Inbound spoofed_packet bridge_init)))"
  by (intro bridge_reach.step [OF _ bridge_step.deliver] bridge_reach.step [OF _ bridge_step.read]
      bridge_reach.start)
    (simp_all add: read_packet_def bridge_init_def sample_admit)

theorem bridge_forwards_in_order_witness:
  "\<exists>rest. filter (\<lambda>b. admit True [Addr4 0x0a070002] b = Forward) [spoofed_packet, sample_packet] =
    sample_packet # rest \<and> length rest \<le> 1"
  using bridge_forwards_in_order [OF sample_run, of Inbound]
  by (auto simp: read_packet_def wrote_packet_def bridge_init_def sample_admit Let_def)

text \<open>C1: No spoofed or malformed packet crosses the bridge. Every packet written in either
  direction passed \<open>ValidateIP\<close>; every packet written to the device has, when source addresses
  are configured, one of them as its source.\<close>

theorem bridge_no_spoofing:
  assumes "bridge_reach allowed s" and "b \<in> set (given s d)"
  shows "ValidateIP b = None \<and>
    (d = Inbound \<and> allowed \<noteq> [] \<longrightarrow> (\<exists>a. Source b = Some a \<and> a \<in> set allowed))"
  using given_admitted [OF assms] by (auto simp: admit_forward_iff)

theorem bridge_no_spoofing_witness:
  "ValidateIP sample_packet = None \<and> (\<exists>a. Source sample_packet = Some a \<and> a \<in> {Addr4 0x0a070002})"
  using bridge_no_spoofing [OF sample_run, of sample_packet Inbound]
  by (simp add: wrote_packet_def)

text \<open>The traffic report is exact. Whenever a direction is between packets, its packet counter is the number
  of packets written in that direction and its byte counter their total size, modulo $2^{64}$;
  while the counters are being updated they lag by exactly the packet just written.\<close>

theorem bridge_counters_exact:
  assumes "bridge_reach allowed s"
  shows "case pc_of s d of
      Counting b \<Rightarrow> given s d \<noteq> [] \<and> last (given s d) = b \<and>
        packets s d + 1 = of_nat (length (given s d)) \<and>
        octets s d + of_nat (length b) = of_nat (sum_list (map length (given s d)))
    | _ \<Rightarrow> packets s d = of_nat (length (given s d)) \<and>
        octets s d = of_nat (sum_list (map length (given s d)))"
proof -
  have "counts s d" using bridge_reach_inv [OF assms] by (simp add: bridge_inv_def)
  then show ?thesis by (cases "pc_of s d") (auto simp: counts_def uncounted_def)
qed

theorem bridge_counters_exact_witness:
  "packets (count_packet Inbound sample_packet (wrote_packet Inbound sample_packet
    (read_packet [Addr4 0x0a070002] Inbound sample_packet
      (read_packet [Addr4 0x0a070002] Inbound spoofed_packet bridge_init)))) Inbound = 1"
proof -
  have "bridge_reach [Addr4 0x0a070002] (count_packet Inbound sample_packet
      (wrote_packet Inbound sample_packet (read_packet [Addr4 0x0a070002] Inbound sample_packet
        (read_packet [Addr4 0x0a070002] Inbound spoofed_packet bridge_init))))"
    by (rule bridge_reach.step [OF sample_run bridge_step.count]) (simp add: wrote_packet_def)
  from bridge_counters_exact [OF this, of Inbound] show ?thesis
    by (simp add: read_packet_def count_packet_def wrote_packet_def bridge_init_def sample_admit
        Let_def)
qed

text \<open>C20: \<open>Bridge\<close> owns both ends. When it returns, both ends have been closed, both copying
  goroutines have ended and it has a result. A goroutine that reports an error finds room in the
  channel of capacity 2, so it never blocks there. Once the main goroutine has left the
  \<open>select\<close>, no state is a dead end: \<open>Bridge\<close> can still return.\<close>

theorem bridge_shutdown:
  assumes "bridge_reach allowed s"
  shows "(main s = Joined \<longrightarrow> dev_closed s \<and> remote_closed s \<and> result s \<noteq> None \<and>
      pc_of s Outbound = Stopped \<and> pc_of s Inbound = Stopped) \<and>
    (pc_of s d \<noteq> Stopped \<longrightarrow> length (errs s) < 2) \<and>
    (main s \<notin> {Selecting, Joined} \<longrightarrow> (\<exists>t. (bridge_step allowed)\<^sup>*\<^sup>* s t \<and> main t = Joined))"
proof -
  have inv: "room s" "shuts_down s" using bridge_reach_inv [OF assms] by (simp_all add: bridge_inv_def)
  have "stopped_dirs s < 2" if "pc_of s d \<noteq> Stopped"
    using that by (cases d) (simp_all add: stopped_dirs_def)
  with inv(1) have "length (errs s) < 2" if "pc_of s d \<noteq> Stopped"
    using that by (auto simp: room_def)
  moreover have "\<exists>t. (bridge_step allowed)\<^sup>*\<^sup>* s t \<and> main t = Joined" if "main s \<notin> {Selecting, Joined}"
    using that by (intro can_return) (cases "main s"; simp)
  moreover have "dev_closed s \<and> remote_closed s \<and> result s \<noteq> None \<and>
      pc_of s Outbound = Stopped \<and> pc_of s Inbound = Stopped" if "main s = Joined"
    using inv(2) that by (simp add: shuts_down_def)
  ultimately show ?thesis by blast
qed

theorem bridge_shutdown_witness:
  "\<exists>t :: nat bridge. (bridge_step [])\<^sup>*\<^sup>*
    (leave_select ContextDone (bridge_init\<lparr>cancelled := True\<rparr>)) t \<and> main t = Joined"
proof -
  have "bridge_reach [] (leave_select ContextDone (bridge_init\<lparr>cancelled := True\<rparr>) :: nat bridge)"
    by (rule bridge_reach.step [OF bridge_reach.step [OF bridge_reach.start bridge_step.cancel]
          bridge_step.take_done]) (simp_all add: bridge_init_def)
  from bridge_shutdown [OF this] show ?thesis by (simp add: leave_select_def)
qed

end
