(* ===== verification/Config.thy ===== *)
theory Config
  imports Netip
begin

text \<open>
  \<open>internal/config/config.go\<close>: the configuration, \<open>Validate\<close> and \<open>Load\<close>. \<open>Validate\<close> works on
  a pointer and fills in defaults as it goes, so it returns the configuration together with the
  error, also when it fails. Reading the file and decoding its JSON are arguments of \<open>Load\<close>.
\<close>

record sip_cfg =
  s_tls :: bool

record network_cfg =
  n_auto :: bool
  n_ipv4 :: string
  n_peer4 :: string
  n_ipv6 :: string
  n_peer6 :: string
  n_egress :: string
  n_dns_service :: string
  n_dns :: "string list"
  n_bypass_ips :: "string list"

record tls_cfg =
  t_cert :: string
  t_key :: string
  t_ca :: string
  t_server_name :: string

record webrtc_cfg =
  w_codec :: string
  w_ice_urls :: "string list"
  w_ice_username :: string
  w_ice_credential :: string
  w_udp_min :: "16 word"
  w_udp_max :: "16 word"
  w_nat_ips :: "string list"

record reality_cfg =
  r_uuid :: string
  r_private_key :: string
  r_password :: string
  r_short_id :: string
  r_server_name :: string
  r_target :: string
  r_fingerprint :: string

record config =
  c_role :: string
  c_transport :: string
  c_listen :: string
  c_endpoint :: string
  c_token :: string
  c_tun :: string
  c_sip :: sip_cfg
  c_network :: network_cfg
  c_tls :: tls_cfg
  c_webrtc :: webrtc_cfg
  c_reality :: reality_cfg

text \<open>The zero value, \<open>var c Config\<close>.\<close>

definition zero_config :: config where
  "zero_config = \<lparr>c_role = [], c_transport = [], c_listen = [], c_endpoint = [], c_token = [], c_tun = [],
    c_sip = \<lparr>s_tls = False\<rparr>,
    c_network = \<lparr>n_auto = False, n_ipv4 = [], n_peer4 = [], n_ipv6 = [], n_peer6 = [],
      n_egress = [], n_dns_service = [], n_dns = [], n_bypass_ips = []\<rparr>,
    c_tls = \<lparr>t_cert = [], t_key = [], t_ca = [], t_server_name = []\<rparr>,
    c_webrtc = \<lparr>w_codec = [], w_ice_urls = [], w_ice_username = [], w_ice_credential = [],
      w_udp_min = 0, w_udp_max = 0, w_nat_ips = []\<rparr>,
    c_reality = \<lparr>r_uuid = [], r_private_key = [], r_password = [], r_short_id = [],
      r_server_name = [], r_target = [], r_fingerprint = []\<rparr>\<rparr>"

datatype config_error =
    BadRole
  | BadTransport
  | BadTokenLength
  | TokenNewline
  | BadListenEndpoint
  | BadIPv4
  | BadPeer4
  | BadIPv6
  | BadPeer6
  | BadAddress string
  | BadCodec
  | BadUDPRange
  | RealityIncomplete
  | RealityServerIncomplete
  | RealityClientIncomplete
  | TLSIncomplete

subsection \<open>Validate\<close>

text \<open>A section of the function: it fails, or goes on with the configuration updated.\<close>

type_synonym check = "config \<Rightarrow> config_error option \<times> config"

definition then_check :: "check \<Rightarrow> check \<Rightarrow> check" where
  "then_check f g c = (case f c of (Some e, c') \<Rightarrow> (Some e, c') | (None, c') \<Rightarrow> g c')"

definition check_head :: check where
  "check_head c =
    (if c_role c \<noteq> ''client'' \<and> c_role c \<noteq> ''server'' then (Some BadRole, c)
     else if c_transport c \<noteq> ''webrtc'' \<and> c_transport c \<noteq> ''sip'' \<and> c_transport c \<noteq> ''reality''
       then (Some BadTransport, c)
     else if length (c_token c) < 32 \<or> length (c_token c) > 256 then (Some BadTokenLength, c)
     else if containsAny (c_token c) [CHR 0x0D, CHR 0x0A] then (Some TokenNewline, c)
     else
       let addr = (if c_role c = ''server'' then c_listen c else c_endpoint c)
       in if splitHostPort addr = None then (Some BadListenEndpoint, c) else (None, c))"

definition default_network :: "config \<Rightarrow> config" where
  "default_network c =
    (if n_ipv4 (c_network c) = [] then
       (if c_role c = ''server''
        then c\<lparr>c_network := (c_network c)\<lparr>n_ipv4 := ''10.77.0.1/30'', n_peer4 := ''10.77.0.2''\<rparr>\<rparr>
        else c\<lparr>c_network := (c_network c)\<lparr>n_ipv4 := ''10.77.0.2/30'', n_peer4 := ''10.77.0.1''\<rparr>\<rparr>)
     else c)"

text \<open>\<open>e != nil || !p.Contains(peer) || peer == p.Addr()\<close>.\<close>

definition bad_peer :: "prefix \<Rightarrow> string \<Rightarrow> bool" where
  "bad_peer p s =
    (case parseAddr s of
       None \<Rightarrow> True
     | Some peer \<Rightarrow> \<not> prefix_contains p peer \<or> peer = fst p)"

definition check_ipv4 :: check where
  "check_ipv4 c =
    (case parsePrefix (n_ipv4 (c_network c)) of
       None \<Rightarrow> (Some BadIPv4, c)
     | Some p \<Rightarrow>
         if \<not> is4 (fst p) \<or> snd p \<noteq> 30 then (Some BadIPv4, c)
         else if bad_peer p (n_peer4 (c_network c)) then (Some BadPeer4, c)
         else (None, c))"

definition check_ipv6 :: check where
  "check_ipv6 c =
    (if n_ipv6 (c_network c) = [] then (None, c)
     else case parsePrefix (n_ipv6 (c_network c)) of
       None \<Rightarrow> (Some BadIPv6, c)
     | Some p \<Rightarrow>
         if \<not> is6 (fst p) \<or> snd p \<noteq> 126 then (Some BadIPv6, c)
         else if bad_peer p (n_peer6 (c_network c)) then (Some BadPeer6, c)
         else (None, c))"

definition check_addresses :: check where
  "check_addresses c =
    (case find (\<lambda>ip. parseIP ip = None) (n_dns (c_network c) @ n_bypass_ips (c_network c)) of
       Some ip \<Rightarrow> (Some (BadAddress ip), c)
     | None \<Rightarrow> (None, c))"

definition default_codec :: "config \<Rightarrow> config" where
  "default_codec c =
    (if w_codec (c_webrtc c) = [] then c\<lparr>c_webrtc := (c_webrtc c)\<lparr>w_codec := ''vp8''\<rparr>\<rparr> else c)"

definition check_webrtc :: check where
  "check_webrtc c =
    (if w_codec (c_webrtc c) \<noteq> ''vp8'' \<and> w_codec (c_webrtc c) \<noteq> ''h264'' then (Some BadCodec, c)
     else if (w_udp_min (c_webrtc c) = 0) \<noteq> (w_udp_max (c_webrtc c) = 0) \<or>
         w_udp_min (c_webrtc c) > w_udp_max (c_webrtc c)
       then (Some BadUDPRange, c)
     else (None, c))"

definition check_credentials :: check where
  "check_credentials c =
    (if c_transport c = ''reality'' then
       (if r_uuid (c_reality c) = [] \<or> r_server_name (c_reality c) = [] \<or> r_short_id (c_reality c) = []
        then (Some RealityIncomplete, c)
        else if c_role c = ''server'' \<and> (r_private_key (c_reality c) = [] \<or> r_target (c_reality c) = [])
        then (Some RealityServerIncomplete, c)
        else if c_role c = ''client'' \<and> r_password (c_reality c) = []
        then (Some RealityClientIncomplete, c)
        else (None,
          if r_fingerprint (c_reality c) = []
          then c\<lparr>c_reality := (c_reality c)\<lparr>r_fingerprint := ''chrome''\<rparr>\<rparr> else c))
     else if c_role c = ''server'' \<and> (c_transport c = ''webrtc'' \<or> s_tls (c_sip c)) then
       (if t_cert (c_tls c) = [] \<or> t_key (c_tls c) = [] then (Some TLSIncomplete, c) else (None, c))
     else (None, c))"

definition Validate :: check where
  "Validate =
    then_check check_head
      (then_check (\<lambda>c. check_ipv4 (default_network c))
        (then_check check_ipv6
          (then_check check_addresses
            (then_check (\<lambda>c. check_webrtc (default_codec c)) check_credentials))))"

lemma then_check_None:
  "then_check f g c = (None, c'') \<longleftrightarrow> (\<exists>c'. f c = (None, c') \<and> g c' = (None, c''))"
  by (auto simp: then_check_def split: prod.splits option.splits)

text \<open>A check that only looks returns its argument.\<close>

lemma check_same:
  "snd (check_head c) = c" "snd (check_ipv4 c) = c" "snd (check_ipv6 c) = c"
  "snd (check_addresses c) = c" "snd (check_webrtc c) = c"
  by (simp_all add: check_head_def check_ipv4_def check_ipv6_def check_addresses_def
      check_webrtc_def Let_def split: option.split)

lemma looks_only:
  assumes "snd r = c"
  shows "r = (None, c') \<longleftrightarrow> fst r = None \<and> c' = c"
  using assms by (cases r) auto

lemmas check_head_passes = looks_only [OF check_same(1)]
  and check_ipv4_passes = looks_only [OF check_same(2)]
  and check_ipv6_passes = looks_only [OF check_same(3)]
  and check_addresses_passes = looks_only [OF check_same(4)]
  and check_webrtc_passes = looks_only [OF check_same(5)]

definition default_fingerprint :: "config \<Rightarrow> config" where
  "default_fingerprint c =
    (if c_transport c = ''reality'' \<and> r_fingerprint (c_reality c) = []
     then c\<lparr>c_reality := (c_reality c)\<lparr>r_fingerprint := ''chrome''\<rparr>\<rparr> else c)"

lemma check_credentials_passes:
  "check_credentials c = (None, c') \<longleftrightarrow> fst (check_credentials c) = None \<and> c' = default_fingerprint c"
  by (auto simp: check_credentials_def default_fingerprint_def)

definition with_defaults :: "config \<Rightarrow> config" where
  "with_defaults c = default_fingerprint (default_codec (default_network c))"

text \<open>The checks a configuration passes, each on the configuration itself.\<close>

definition passes :: "config \<Rightarrow> bool" where
  "passes c \<longleftrightarrow>
    fst (check_head c) = None \<and> fst (check_ipv4 c) = None \<and> fst (check_ipv6 c) = None \<and>
    fst (check_addresses c) = None \<and> fst (check_webrtc c) = None \<and>
    fst (check_credentials c) = None"

lemmas default_defs = default_network_def default_codec_def default_fingerprint_def

lemma default_network_fields [simp]:
  "c_role (default_network c) = c_role c" "c_transport (default_network c) = c_transport c"
  "c_listen (default_network c) = c_listen c" "c_endpoint (default_network c) = c_endpoint c"
  "c_token (default_network c) = c_token c" "c_sip (default_network c) = c_sip c"
  "c_tls (default_network c) = c_tls c" "c_webrtc (default_network c) = c_webrtc c"
  "c_reality (default_network c) = c_reality c" "c_tun (default_network c) = c_tun c"
  by (simp_all add: default_network_def)

lemma default_codec_fields [simp]:
  "c_role (default_codec c) = c_role c" "c_transport (default_codec c) = c_transport c"
  "c_listen (default_codec c) = c_listen c" "c_endpoint (default_codec c) = c_endpoint c"
  "c_token (default_codec c) = c_token c" "c_sip (default_codec c) = c_sip c"
  "c_tls (default_codec c) = c_tls c" "c_network (default_codec c) = c_network c"
  "c_reality (default_codec c) = c_reality c" "c_tun (default_codec c) = c_tun c"
  by (simp_all add: default_codec_def)

lemma default_fingerprint_fields [simp]:
  "c_role (default_fingerprint c) = c_role c" "c_transport (default_fingerprint c) = c_transport c"
  "c_listen (default_fingerprint c) = c_listen c" "c_endpoint (default_fingerprint c) = c_endpoint c"
  "c_token (default_fingerprint c) = c_token c" "c_sip (default_fingerprint c) = c_sip c"
  "c_tls (default_fingerprint c) = c_tls c" "c_network (default_fingerprint c) = c_network c"
  "c_webrtc (default_fingerprint c) = c_webrtc c" "c_tun (default_fingerprint c) = c_tun c"
  by (simp_all add: default_fingerprint_def)

lemma defaults_idem [simp]:
  "default_network (default_network c) = default_network c"
  "default_codec (default_codec c) = default_codec c"
  "default_fingerprint (default_fingerprint c) = default_fingerprint c"
  by (simp_all add: default_defs)

text \<open>A check reads the sections of the configuration its code reads.\<close>

lemma check_head_cong:
  "c_role c = c_role d \<Longrightarrow> c_transport c = c_transport d \<Longrightarrow> c_token c = c_token d \<Longrightarrow> c_listen c = c_listen d \<Longrightarrow>
    c_endpoint c = c_endpoint d \<Longrightarrow> fst (check_head c) = None \<longleftrightarrow> fst (check_head d) = None"
  by (simp add: check_head_def Let_def)

lemma check_network_cong:
  assumes "c_network c = c_network d"
  shows "fst (check_ipv4 c) = None \<longleftrightarrow> fst (check_ipv4 d) = None"
    and "fst (check_ipv6 c) = None \<longleftrightarrow> fst (check_ipv6 d) = None"
    and "fst (check_addresses c) = None \<longleftrightarrow> fst (check_addresses d) = None"
  using assms
  by (simp_all add: check_ipv4_def check_ipv6_def check_addresses_def split: option.split)

lemma check_webrtc_cong:
  "c_webrtc c = c_webrtc d \<Longrightarrow> fst (check_webrtc c) = None \<longleftrightarrow> fst (check_webrtc d) = None"
  by (simp add: check_webrtc_def)

lemma check_credentials_default:
  "fst (check_credentials (default_fingerprint c)) = None \<longleftrightarrow> fst (check_credentials c) = None"
  by (simp add: check_credentials_def default_fingerprint_def)

lemma Validate_accepts: "Validate c = (None, c') \<longleftrightarrow> c' = with_defaults c \<and> passes c'"
proof -
  let ?n = "default_network c" and ?w = "default_codec (default_network c)"
  have "Validate c = (None, c') \<longleftrightarrow>
      fst (check_head c) = None \<and> fst (check_ipv4 ?n) = None \<and> fst (check_ipv6 ?n) = None \<and>
      fst (check_addresses ?n) = None \<and> fst (check_webrtc ?w) = None \<and>
      check_credentials ?w = (None, c')"
    by (simp add: Validate_def then_check_None check_head_passes check_ipv4_passes
        check_ipv6_passes check_addresses_passes check_webrtc_passes)
  moreover have cred: "check_credentials ?w = (None, c') \<longleftrightarrow>
      c' = with_defaults c \<and> fst (check_credentials (with_defaults c)) = None"
    by (auto simp: with_defaults_def check_credentials_passes check_credentials_default)
  moreover have "fst (check_head c) = None \<longleftrightarrow> fst (check_head (with_defaults c)) = None"
    by (rule check_head_cong) (simp_all add: with_defaults_def)
  moreover have "c_network ?n = c_network (with_defaults c)" and "c_webrtc ?w = c_webrtc (with_defaults c)"
    by (simp_all add: with_defaults_def)
  note check_network_cong [OF this(1)] check_webrtc_cong [OF this(2)]
  ultimately show ?thesis by (cases "c' = with_defaults c") (simp_all add: passes_def)
qed

lemma defaults_present:
  "n_ipv4 (c_network c) \<noteq> [] \<Longrightarrow> default_network c = c"
  "w_codec (c_webrtc c) \<noteq> [] \<Longrightarrow> default_codec c = c"
  by (simp_all add: default_defs)

text \<open>Nothing left to default.\<close>

definition complete :: "config \<Rightarrow> bool" where
  "complete c \<longleftrightarrow> n_ipv4 (c_network c) \<noteq> [] \<and> w_codec (c_webrtc c) \<noteq> [] \<and>
    (c_transport c = ''reality'' \<longrightarrow> r_fingerprint (c_reality c) \<noteq> [])"

lemma complete_with_defaults: "complete (with_defaults c)"
proof -
  have "n_ipv4 (c_network (default_network c)) \<noteq> []" by (simp add: default_network_def)
  moreover have "w_codec (c_webrtc (default_codec d)) \<noteq> []" for d by (simp add: default_codec_def)
  moreover have "c_transport d = ''reality'' \<longrightarrow> r_fingerprint (c_reality (default_fingerprint d)) \<noteq> []" for d
    by (simp add: default_fingerprint_def)
  ultimately show ?thesis
    by (metis complete_def default_codec_fields(8) default_fingerprint_fields(2,8,9) with_defaults_def)
qed

lemma with_defaults_complete: "complete c \<Longrightarrow> with_defaults c = c"
  by (simp add: complete_def with_defaults_def defaults_present default_fingerprint_def)

lemma with_defaults_idem: "with_defaults (with_defaults c) = with_defaults c"
  by (rule with_defaults_complete [OF complete_with_defaults])

text \<open>What a failing \<open>Validate\<close> leaves behind.\<close>

lemma snd_then_check:
  assumes "snd (f c) = c'"
  shows "snd (then_check f g c) = c' \<or> snd (then_check f g c) = snd (g c')"
  using assms by (auto simp: then_check_def split: prod.split option.split)

lemma snd_if_cases: "snd x \<in> S \<Longrightarrow> snd y \<in> S \<Longrightarrow> snd (if b then x else y) \<in> S"
  by simp

lemma snd_check_credentials: "snd (check_credentials c) \<in> {c, default_fingerprint c}"
proof (cases "c_transport c = ''reality''")
  case True
  then have "(if r_fingerprint (c_reality c) = []
      then c\<lparr>c_reality := (c_reality c)\<lparr>r_fingerprint := ''chrome''\<rparr>\<rparr> else c) = default_fingerprint c"
    by (simp add: default_fingerprint_def)
  then show ?thesis unfolding check_credentials_def if_P [OF True]
    by (intro snd_if_cases) simp_all
next
  case False
  show ?thesis unfolding check_credentials_def if_not_P [OF False]
    by (intro snd_if_cases) simp_all
qed

lemma Validate_leaves:
  "snd (Validate c) \<in> {c, default_network c, default_codec (default_network c), with_defaults c}"
proof -
  let ?n = "default_network c"
  define g5 where "g5 = then_check (\<lambda>c. check_webrtc (default_codec c)) check_credentials"
  define g4 where "g4 = then_check check_addresses g5"
  define g3 where "g3 = then_check check_ipv6 g4"
  define g2 where "g2 = then_check (\<lambda>c. check_ipv4 (default_network c)) g3"
  have "snd (g5 ?n) \<in> {default_codec ?n, with_defaults c}"
    using snd_then_check [of "\<lambda>c. check_webrtc (default_codec c)" ?n "default_codec ?n"
        check_credentials, OF check_same(5)]
      snd_check_credentials [of "default_codec ?n"] by (auto simp: g5_def with_defaults_def)
  moreover have "snd (g4 ?n) \<in> {?n, snd (g5 ?n)}" "snd (g3 ?n) \<in> {?n, snd (g4 ?n)}"
    using snd_then_check [of check_addresses ?n ?n g5, OF check_same(4)]
      snd_then_check [of check_ipv6 ?n ?n g4, OF check_same(3)]
    by (auto simp: g4_def g3_def)
  moreover have "snd (g2 c) \<in> {?n, snd (g3 ?n)}"
    using snd_then_check [of "\<lambda>c. check_ipv4 (default_network c)" c ?n g3, OF check_same(2)]
    by (auto simp: g2_def)
  moreover have "snd (Validate c) \<in> {c, snd (g2 c)}"
    using snd_then_check [of check_head c c g2, OF check_same(1)]
    by (auto simp: Validate_def g2_def g3_def g4_def g5_def)
  ultimately show ?thesis by auto
qed

subsection \<open>Properties of Validate\<close>

text \<open>A configuration is validated once. When \<open>Validate\<close> accepts, it has filled in the
  defaults and nothing else, and validating the result again accepts it unchanged.\<close>

theorem validate_idempotent:
  assumes "Validate c = (None, c')"
  shows "c' = with_defaults c \<and> Validate c' = (None, c')"
  using assms by (auto simp: Validate_accepts with_defaults_idem)

definition sample_config :: config where
  "sample_config = zero_config\<lparr>c_role := ''client'', c_transport := ''sip'',
    c_endpoint := ''192.0.2.1:5060'', c_token := ''0123456789abcdef0123456789abcdef''\<rparr>"

lemma sample_valid: "fst (Validate sample_config) = None"
  by code_simp

theorem validate_idempotent_witness:
  "n_peer4 (c_network (snd (Validate (snd (Validate sample_config))))) = ''10.77.0.1''"
proof -
  obtain c' where c': "Validate sample_config = (None, c')" using sample_valid by (metis prod.collapse)
  from validate_idempotent [OF c'] have v: "Validate c' = (None, c')"
    and d: "c' = with_defaults sample_config" by blast+
  have "Validate (snd (Validate sample_config)) = (None, c')" unfolding c' snd_conv by (rule v)
  then show ?thesis unfolding d
    by (simp add: with_defaults_def sample_config_def zero_config_def default_network_def)
qed

text \<open>\<open>Validate\<close> overwrites nothing that was set. Whatever its result, an error included,
  only the tunnel addresses when \<open>ipv4\<close> was empty, the codec when it was empty and the REALITY fingerprint when it was
  empty can differ afterwards.\<close>

theorem validate_overwrites_nothing:
  assumes "Validate c = (r, c')"
  shows "(n_ipv4 (c_network c) \<noteq> [] \<longrightarrow> c_network c' = c_network c) \<and>
    (w_codec (c_webrtc c) \<noteq> [] \<longrightarrow> c_webrtc c' = c_webrtc c) \<and>
    (r_fingerprint (c_reality c) \<noteq> [] \<longrightarrow> c_reality c' = c_reality c) \<and>
    c_role c' = c_role c \<and> c_transport c' = c_transport c \<and> c_listen c' = c_listen c \<and>
    c_endpoint c' = c_endpoint c \<and> c_token c' = c_token c \<and> c_tun c' = c_tun c \<and> c_sip c' = c_sip c \<and>
    c_tls c' = c_tls c"
proof -
  have "c' \<in> {c, default_network c, default_codec (default_network c), with_defaults c}"
    using Validate_leaves [of c] assms by simp
  moreover have "c_network (default_network c) = c_network c" if "n_ipv4 (c_network c) \<noteq> []"
    using that by (simp add: defaults_present)
  moreover have "c_webrtc (default_codec d) = c_webrtc d" if "w_codec (c_webrtc d) \<noteq> []" for d
    using that by (simp add: defaults_present)
  moreover have "c_reality (default_fingerprint d) = c_reality d" if "r_fingerprint (c_reality d) \<noteq> []" for d
    using that by (simp add: default_fingerprint_def)
  ultimately show ?thesis by (auto simp: with_defaults_def)
qed

theorem validate_overwrites_nothing_witness:
  "c_webrtc (snd (Validate (sample_config\<lparr>c_webrtc := (c_webrtc sample_config)\<lparr>w_codec := ''vp9''\<rparr>\<rparr>)))
    = (c_webrtc sample_config)\<lparr>w_codec := ''vp9''\<rparr>"
  using validate_overwrites_nothing
    [of "sample_config\<lparr>c_webrtc := (c_webrtc sample_config)\<lparr>w_codec := ''vp9''\<rparr>\<rparr>",
      OF prod.collapse [symmetric]]
  by simp

text \<open>A validated configuration gives the rest of the program what it relies on: \<open>ipv4\<close> and
  \<open>peer4\<close> parse (so \<open>MustParsePrefix\<close> and \<open>MustParseAddr\<close> on them do not panic) to two different
  IPv4 addresses that differ in their last two bits only, every DNS and bypass entry is an IP
  address, the endpoint or listen address splits into host and port, and the token is one line
  of 32 to 256 bytes.\<close>

theorem validated_addresses:
  assumes "Validate c = (None, c')"
  shows "(\<exists>p q. parsePrefix (n_ipv4 (c_network c')) = Some (Addr4 p, 30) \<and>
      parseAddr (n_peer4 (c_network c')) = Some (Addr4 q) \<and> p \<noteq> q \<and> drop_bit 2 p = drop_bit 2 q) \<and>
    list_all (\<lambda>ip. parseIP ip \<noteq> None) (n_dns (c_network c') @ n_bypass_ips (c_network c')) \<and>
    splitHostPort (if c_role c' = ''server'' then c_listen c' else c_endpoint c') \<noteq> None \<and>
    32 \<le> length (c_token c') \<and> length (c_token c') \<le> 256 \<and>
    CHR 0x0A \<notin> set (c_token c') \<and> CHR 0x0D \<notin> set (c_token c')"
proof -
  have p: "passes c'" using assms by (auto simp: Validate_accepts)
  obtain a k where a: "parsePrefix (n_ipv4 (c_network c')) = Some (a, k)" "is4 a" "k = 30"
      "\<not> bad_peer (a, k) (n_peer4 (c_network c'))"
    using p by (auto simp: passes_def check_ipv4_def split: option.splits if_splits)
  then obtain v where v: "a = Addr4 v" by (cases a) (auto simp: is4_def)
  from a(4) obtain q where q: "parseAddr (n_peer4 (c_network c')) = Some q"
      "prefix_contains (a, k) q" "q \<noteq> a"
    by (auto simp: bad_peer_def split: option.splits)
  with v a(3) obtain w where w: "q = Addr4 w" "drop_bit 2 (w XOR v) = 0"
    by (cases q) (auto simp: prefix_contains_def)
  then have "drop_bit 2 w = drop_bit 2 v"
    by (simp add: drop_bit_xor) (metis bit.xor_left_self xor.right_neutral)
  with a v q w have "\<exists>p q. parsePrefix (n_ipv4 (c_network c')) = Some (Addr4 p, 30) \<and>
      parseAddr (n_peer4 (c_network c')) = Some (Addr4 q) \<and> p \<noteq> q \<and> drop_bit 2 p = drop_bit 2 q"
    by auto
  moreover have "list_all (\<lambda>ip. parseIP ip \<noteq> None) (n_dns (c_network c') @ n_bypass_ips (c_network c'))"
    using p by (auto simp: passes_def check_addresses_def find_None_iff list_all_iff split: option.splits)
  moreover have "fst (check_head c') = None" using p by (simp add: passes_def)
  then have "splitHostPort (if c_role c' = ''server'' then c_listen c' else c_endpoint c') \<noteq> None \<and>
      32 \<le> length (c_token c') \<and> length (c_token c') \<le> 256 \<and>
      \<not> containsAny (c_token c') [CHR 0x0D, CHR 0x0A]"
    by (simp add: check_head_def Let_def split: if_splits)
  ultimately show ?thesis by (auto simp: containsAny_def list_ex_iff)
qed

theorem validated_addresses_witness:
  "\<exists>p q. parsePrefix ''10.77.0.2/30'' = Some (Addr4 p, 30) \<and>
    parseAddr ''10.77.0.1'' = Some (Addr4 q) \<and> p \<noteq> q"
proof -
  obtain c' where c': "Validate sample_config = (None, c')" using sample_valid by (metis prod.collapse)
  then have "n_ipv4 (c_network c') = ''10.77.0.2/30''" "n_peer4 (c_network c') = ''10.77.0.1''"
    by (simp_all add: Validate_accepts with_defaults_def sample_config_def zero_config_def
        default_network_def)
  with validated_addresses [OF c'] show ?thesis by auto
qed

subsection \<open>Load\<close>

text \<open>\<open>path/filepath\<close> on Unix: \<open>IsAbs\<close>, \<open>Dir\<close>, \<open>Join\<close> and \<open>Clean\<close>. \<open>Clean\<close> drops empty and
  \<open>.\<close> elements and resolves \<open>..\<close> against the element before it; \<open>out\<close> holds the elements kept,
  last one first.\<close>

definition isAbs :: "string \<Rightarrow> bool" where
  "isAbs p \<longleftrightarrow> hasPrefix p ''/''"

fun clean_elements :: "bool \<Rightarrow> string list \<Rightarrow> string list \<Rightarrow> string list" where
  "clean_elements rooted out [] = rev out"
| "clean_elements rooted out (e # es) =
    (if e = [] \<or> e = ''.'' then clean_elements rooted out es
     else if e = ''..'' then
       (if out \<noteq> [] \<and> hd out \<noteq> ''..'' then clean_elements rooted (tl out) es
        else if rooted then clean_elements rooted out es
        else clean_elements rooted (''..'' # out) es)
     else clean_elements rooted (e # out) es)"

definition clean :: "string \<Rightarrow> string" where
  "clean p =
    (let q = join ''/'' (clean_elements (isAbs p) [] (split_on CHR ''/'' p))
     in if isAbs p then ''/'' @ q else if q = [] then ''.'' else q)"

definition path_join :: "string \<Rightarrow> string \<Rightarrow> string" where
  "path_join a b =
    (let es = filter (\<lambda>e. e \<noteq> []) [a, b]
     in if es = [] then [] else clean (join ''/'' es))"

definition path_dir :: "string \<Rightarrow> string" where
  "path_dir p = clean (take (length p - length (takeWhile (\<lambda>c. c \<noteq> CHR ''/'') (rev p))) p)"

text \<open>\<open>filepath.Abs\<close>, with the working directory, which may be unknown.\<close>

definition path_abs :: "string option \<Rightarrow> string \<Rightarrow> string option" where
  "path_abs cwd p = (if isAbs p then Some (clean p) else map_option (\<lambda>d. path_join d p) cwd)"

datatype 'e load_error =
    LoadIO 'e
  | ConfigTooBig
  | BadJSON
  | ExtraJSON
  | NotValid config_error
  | NoWorkingDir

text \<open>
  \<open>Load\<close>. \<open>file\<close> is what opening and reading the file gives, \<open>decode\<close> the JSON decoder that
  refuses unknown fields (it starts from the zero value and returns the rest of its input), and
  \<open>decode_any\<close> its second call, \<open>None\<close> for \<open>io.EOF\<close>.
\<close>

definition resolve_path :: "string \<Rightarrow> string \<Rightarrow> string" where
  "resolve_path base p = (if p \<noteq> [] \<and> \<not> isAbs p then path_join base p else p)"

definition resolve_tls :: "string \<Rightarrow> config \<Rightarrow> config" where
  "resolve_tls base c =
    c\<lparr>c_tls := (c_tls c)\<lparr>t_cert := resolve_path base (t_cert (c_tls c)),
      t_key := resolve_path base (t_key (c_tls c)), t_ca := resolve_path base (t_ca (c_tls c))\<rparr>\<rparr>"

definition Load ::
    "('e + byte list) \<Rightarrow> (config \<Rightarrow> byte list \<Rightarrow> (config \<times> byte list) option) \<Rightarrow>
     (byte list \<Rightarrow> 'j option) \<Rightarrow> string option \<Rightarrow> string \<Rightarrow> 'e load_error + config" where
  "Load file decode decode_any cwd path =
    (case file of
       Inl e \<Rightarrow> Inl (LoadIO e)
     | Inr content \<Rightarrow>
         let b = take 65537 content
         in if length b > 65536 then Inl ConfigTooBig
            else case decode zero_config b of
                None \<Rightarrow> Inl BadJSON
              | Some (c, rest) \<Rightarrow>
                  if decode_any rest \<noteq> None then Inl ExtraJSON
                  else case Validate c of
                      (Some e, _) \<Rightarrow> Inl (NotValid e)
                    | (None, c') \<Rightarrow>
                        (case path_abs cwd (path_dir path) of
                           None \<Rightarrow> Inl NoWorkingDir
                         | Some base \<Rightarrow> Inr (resolve_tls base c')))"

lemma isAbs_clean: "isAbs p \<Longrightarrow> isAbs (clean p)"
  by (simp add: isAbs_def clean_def hasPrefix_def Let_def)

lemma isAbs_join: "isAbs a \<Longrightarrow> isAbs (path_join a b)"
proof -
  assume a: "isAbs a"
  then obtain r where "a = CHR ''/'' # r" by (cases a) (auto simp: isAbs_def hasPrefix_def)
  then have "isAbs (join ''/'' (filter (\<lambda>e. e \<noteq> []) [a, b]))" "a \<noteq> []"
    by (auto simp: isAbs_def hasPrefix_def)
  then show ?thesis by (auto simp: path_join_def Let_def intro: isAbs_clean)
qed

lemma path_abs_isAbs:
  assumes "path_abs cwd p = Some q" and "list_all isAbs (case cwd of None \<Rightarrow> [] | Some d \<Rightarrow> [d])"
  shows "isAbs q"
  using assms by (auto simp: path_abs_def isAbs_clean isAbs_join split: if_splits option.splits)

lemma passes_resolve:
  assumes "passes c"
  shows "passes (resolve_tls base c)"
proof -
  have f: "c_role (resolve_tls base c) = c_role c" "c_transport (resolve_tls base c) = c_transport c"
    "c_token (resolve_tls base c) = c_token c" "c_listen (resolve_tls base c) = c_listen c"
    "c_endpoint (resolve_tls base c) = c_endpoint c" "c_network (resolve_tls base c) = c_network c"
    "c_webrtc (resolve_tls base c) = c_webrtc c" "c_reality (resolve_tls base c) = c_reality c"
    "c_sip (resolve_tls base c) = c_sip c" by (simp_all add: resolve_tls_def)
  have ne: "path_join base p \<noteq> []" if "p \<noteq> []" for p
    using that by (auto simp: path_join_def Let_def clean_def)
  have "t_cert (c_tls (resolve_tls base c)) = [] \<longleftrightarrow> t_cert (c_tls c) = []"
      "t_key (c_tls (resolve_tls base c)) = [] \<longleftrightarrow> t_key (c_tls c) = []"
    by (auto simp: resolve_tls_def resolve_path_def ne)
  with f have "fst (check_credentials (resolve_tls base c)) = fst (check_credentials c)"
    by (simp add: check_credentials_def if_distrib [of fst] cong: if_cong split del: if_split)
  with assms check_head_cong [OF f(1-5)] check_network_cong [OF f(6)] check_webrtc_cong [OF f(7)]
  show ?thesis by (simp add: passes_def)
qed

lemma complete_resolve: "complete (resolve_tls base c) \<longleftrightarrow> complete c"
  by (simp add: complete_def resolve_tls_def)

lemma resolve_path_abs: "isAbs base \<Longrightarrow> resolve_path base p = [] \<or> isAbs (resolve_path base p)"
  by (simp add: resolve_path_def isAbs_join)

text \<open>C38: \<open>Load\<close> returns only configurations it has checked in full. The file had at most 64 KiB
  and held one JSON value and nothing after it, what it decoded to was validated, and the result
  differs from the validated configuration in its TLS paths only: those that were set are now
  absolute (when the working directory is). The result validates again, unchanged.\<close>

theorem load_checked:
  assumes "Load file decode decode_any cwd path = Inr c"
    and "list_all isAbs (case cwd of None \<Rightarrow> [] | Some d \<Rightarrow> [d])"
  shows "\<exists>content c0 rest c1 base. file = Inr content \<and> length content \<le> 65536 \<and>
    decode zero_config content = Some (c0, rest) \<and> decode_any rest = None \<and>
    Validate c0 = (None, c1) \<and> c = resolve_tls base c1 \<and>
    list_all (\<lambda>p. p = [] \<or> isAbs p) [t_cert (c_tls c), t_key (c_tls c), t_ca (c_tls c)] \<and>
    Validate c = (None, c)"
proof -
  obtain content c0 rest c1 base where l: "file = Inr content" "length (take 65537 content) \<le> 65536"
      "decode zero_config (take 65537 content) = Some (c0, rest)" "decode_any rest = None"
      "Validate c0 = (None, c1)" "path_abs cwd (path_dir path) = Some base"
      "c = resolve_tls base c1"
    using assms(1) by (auto simp: Load_def Let_def split: sum.splits if_splits option.splits prod.splits)
  from l(2) have len: "length content \<le> 65536" by simp
  then have whole: "take 65537 content = content" by simp
  have v: "c1 = with_defaults c0" "passes c1" using l(5) by (auto simp: Validate_accepts)
  have "complete c" using l(7) v(1) by (simp add: complete_resolve complete_with_defaults)
  moreover have "passes c" using l(7) v(2) by (simp add: passes_resolve)
  ultimately have "Validate c = (None, c)" by (simp add: Validate_accepts with_defaults_complete)
  moreover have "isAbs base" by (rule path_abs_isAbs [OF l(6) assms(2)])
  then have "list_all (\<lambda>p. p = [] \<or> isAbs p) [t_cert (c_tls c), t_key (c_tls c), t_ca (c_tls c)]"
    by (simp add: l(7) resolve_tls_def resolve_path_abs)
  ultimately show ?thesis using l whole len by auto
qed

theorem load_checked_witness:
  "t_ca (c_tls (resolve_tls ''/etc/lab'' (snd (Validate (sample_config
    \<lparr>c_tls := \<lparr>t_cert = [], t_key = [], t_ca = ''cert.pem'', t_server_name = []\<rparr>\<rparr>)))))
    \<noteq> ''cert.pem''"
proof -
  let ?c0 = "sample_config\<lparr>c_tls := \<lparr>t_cert = [], t_key = [], t_ca = ''cert.pem'', t_server_name = []\<rparr>\<rparr>"
  let ?d = "\<lambda>_ b. if b = [1] then Some (?c0, []) else None"
  have v: "fst (Validate ?c0) = None" by code_simp
  then obtain c1 where c1: "Validate ?c0 = (None, c1)" by (metis prod.collapse)
  have dir: "path_abs None (path_dir ''/etc/lab/c.json'') = Some ''/etc/lab''" by code_simp
  have "Load (Inr [1] :: unit + byte list) ?d (\<lambda>_. None :: unit option) None ''/etc/lab/c.json''
      = Inr (resolve_tls ''/etc/lab'' c1)"
    by (simp add: Load_def c1 dir)
  from load_checked [OF this] have "t_ca (c_tls (resolve_tls ''/etc/lab'' c1)) = [] \<or>
      isAbs (t_ca (c_tls (resolve_tls ''/etc/lab'' c1)))" by auto
  then show ?thesis by (auto simp: c1 isAbs_def hasPrefix_def)
qed

end
