(* ===== verification/Manager.thy ===== *)
theory Manager
  imports Config "HOL-Library.Sublist"
begin

text \<open>
  The core of \<open>internal/network/network.go\<close>: the \<open>Manager\<close> that runs commands which change the
  host's network configuration, records how to undo them and undoes them on \<open>Close\<close>.

  The operating system is a parameter: a record of what running a command, resolving a name,
  asking the context for its error and decoding the route table's JSON give in a world \<open>'w\<close>. An
  error of \<open>exec\<close> is its text, because \<open>Close\<close> looks into the text.
\<close>

type_synonym command = "string list"

record manager =
  undo :: "command list"
  has_ctx :: bool

record 'w os =
  run_cmd :: "command \<Rightarrow> 'w \<Rightarrow> (string + string) \<times> 'w"
  lookup_ip :: "string \<Rightarrow> 'w \<Rightarrow> (string + 128 word list) \<times> 'w"
  ctx_err :: "'w \<Rightarrow> string option"
  route_devs :: "string \<Rightarrow> string list option"

datatype net_error =
    CommandFailed string
  | LookupFailed string
  | ContextErr string
  | NetError string
  | Panicked
  | CleanupError "string list"
  | Wrapped string net_error
  | Joined net_error net_error

text \<open>\<open>CleanupFailed\<close>: \<open>errors.As\<close> looks for the type anywhere in the tree of errors.\<close>

fun CleanupFailed :: "net_error \<Rightarrow> bool" where
  "CleanupFailed (CleanupError es) \<longleftrightarrow> True"
| "CleanupFailed (Wrapped s e) \<longleftrightarrow> CleanupFailed e"
| "CleanupFailed (Joined e f) \<longleftrightarrow> CleanupFailed e \<or> CleanupFailed f"
| "CleanupFailed _ \<longleftrightarrow> False"

subsection \<open>Sequencing\<close>

text \<open>An operation of the manager: it changes the manager and the world, and returns an error or
  a value. \<open>and_then\<close> is the pattern \<open>if e != nil { return e }\<close>.\<close>

type_synonym ('w, 'a) act = "manager \<times> 'w \<Rightarrow> (net_error + 'a) \<times> manager \<times> 'w"

definition give :: "'a \<Rightarrow> ('w, 'a) act" where
  "give x s = (Inr x, s)"

definition fail :: "net_error \<Rightarrow> ('w, 'a) act" where
  "fail e s = (Inl e, s)"

definition and_then :: "('w, 'a) act \<Rightarrow> ('a \<Rightarrow> ('w, 'b) act) \<Rightarrow> ('w, 'b) act" where
  "and_then f g s = (case f s of (Inl e, s') \<Rightarrow> (Inl e, s') | (Inr x, s') \<Rightarrow> g x s')"

definition on_error :: "(net_error \<Rightarrow> net_error) \<Rightarrow> ('w, 'a) act \<Rightarrow> ('w, 'a) act" where
  "on_error h f s = (case f s of (Inl e, s') \<Rightarrow> (Inl (h e), s') | (Inr x, s') \<Rightarrow> (Inr x, s'))"

fun each :: "('x \<Rightarrow> ('w, 'y) act) \<Rightarrow> 'x list \<Rightarrow> ('w, 'y list) act" where
  "each f [] = give []"
| "each f (x # xs) = and_then (f x) (\<lambda>y. and_then (each f xs) (\<lambda>ys. give (y # ys)))"

subsection \<open>run and add\<close>

definition ctx_error :: "'w os \<Rightarrow> manager \<Rightarrow> 'w \<Rightarrow> string option" where
  "ctx_error os m w = (if has_ctx m then ctx_err os w else None)"

text \<open>\<open>m.run(c)\<close>, returning its output.\<close>

definition query :: "'w os \<Rightarrow> command \<Rightarrow> ('w, string) act" where
  "query os c = (\<lambda>(m, w).
    case run_cmd os c w of
      (Inl e, w') \<Rightarrow> (Inl (CommandFailed e), (m, w'))
    | (Inr out, w') \<Rightarrow> (Inr out, (m, w')))"

definition add :: "'w os \<Rightarrow> command \<Rightarrow> command \<Rightarrow> ('w, unit) act" where
  "add os d u = (\<lambda>(m, w).
    case ctx_error os m w of
      Some e \<Rightarrow> (Inl (ContextErr e), (m, w))
    | None \<Rightarrow>
        (case run_cmd os d w of
           (Inl e, w') \<Rightarrow> (Inl (CommandFailed e), (m, w'))
         | (Inr _, w') \<Rightarrow>
             let m' = (if length u > 0 then m\<lparr>undo := undo m @ [u]\<rparr> else m)
             in case ctx_error os m w' of
                  Some e \<Rightarrow> (Inl (ContextErr e), (m', w'))
                | None \<Rightarrow> (Inr (), (m', w'))))"

subsection \<open>Close\<close>

text \<open>Destroying utun also removes routes bound to it: such a failure counts as undone.\<close>

definition already_gone :: "command \<Rightarrow> string \<Rightarrow> bool" where
  "already_gone u e \<longleftrightarrow>
    length u > 2 \<and> u ! 0 = ''route'' \<and> u ! 2 = ''delete'' \<and> contains e ''not in table''"

text \<open>The loop, over the undo commands last one first: the errors and the failed commands in the
  order they occurred.\<close>

fun close_loop :: "'w os \<Rightarrow> command list \<Rightarrow> 'w \<Rightarrow> (string list \<times> command list) \<times> 'w" where
  "close_loop os [] w = (([], []), w)"
| "close_loop os (u # us) w =
    (case run_cmd os u w of
       (Inr _, w') \<Rightarrow> close_loop os us w'
     | (Inl e, w') \<Rightarrow>
         if already_gone u e then close_loop os us w'
         else case close_loop os us w' of ((es, failed), w'') \<Rightarrow> ((e # es, u # failed), w''))"

definition Close :: "'w os \<Rightarrow> manager \<Rightarrow> 'w \<Rightarrow> net_error option \<times> manager \<times> 'w" where
  "Close os m w =
    (case close_loop os (rev (undo m)) w of ((result, failed), w') \<Rightarrow>
       (if result = [] then None else Some (CleanupError result), (m\<lparr>undo := rev failed\<rparr>, w')))"

subsection \<open>execute\<close>

text \<open>\<open>execute\<close>, given what a process with its time limit does: its combined output, and the error of
  \<open>exec\<close> when it fails. The systems of the program are those whose \<open>run_cmd\<close> is \<open>execute\<close> of
  some processes.\<close>

definition execute :: "(command \<Rightarrow> 'w \<Rightarrow> (string \<times> string option) \<times> 'w) \<Rightarrow> command \<Rightarrow> 'w \<Rightarrow> (string + string) \<times> 'w" where
  "execute process c w =
    (case process c w of
       ((out, Some e), w') \<Rightarrow> (Inl (join '' '' c @ '': '' @ e @ '': '' @ trimSpace out), w')
     | ((out, None), w') \<Rightarrow> (Inr (trimSpace out), w'))"

lemma contains_append: "contains b s \<Longrightarrow> contains (a @ b) s"
  by (induction a) simp_all

text \<open>The output of a failed deletion is where \<open>Close\<close> looks.\<close>

lemma execute_already_gone:
  assumes "process u w = ((out, Some x), w')" and "contains (trimSpace out) ''not in table''"
    and "u = ''route'' # f # ''delete'' # args"
  shows "\<exists>e. execute process u w = (Inl e, w') \<and> already_gone u e"
proof -
  have "contains (join '' '' u @ '': '' @ x @ '': '' @ trimSpace out) ''not in table''"
    using contains_append [OF assms(2), of "join '' '' u @ '': '' @ x @ '': ''"] by simp
  with assms(1,3) show ?thesis by (auto simp: execute_def already_gone_def)
qed

lemma execute_close:
  assumes "\<And>c. run_cmd os c = execute process c" and "undo m = [u]" and "process u w = ((out, Some x), w')"
    and "contains (trimSpace out) ''not in table''" and "u = ''route'' # f # ''delete'' # args"
  shows "Close os m w = (None, (m\<lparr>undo := []\<rparr>, w'))"
proof -
  obtain e where e: "run_cmd os u w = (Inl e, w')" "already_gone u e"
    using execute_already_gone [where process = process and u = u and w = w, OF assms(3-5)] assms(1) by metis
  then show ?thesis by (simp add: Close_def assms(2))
qed

subsection \<open>Commands and their inverses\<close>

text \<open>Commands that only look.\<close>

definition is_query :: "command \<Rightarrow> bool" where
  "is_query c \<longleftrightarrow>
    take 3 c = [''route'', ''-n'', ''get''] \<or>
    take 2 c = [''networksetup'', ''-getdnsservers''] \<or>
    take 2 c = [''sysctl'', ''-n''] \<or>
    c = [''ip'', ''-j'', ''route'', ''show'', ''default'']"

text \<open>Commands that configure the tunnel interface itself, which disappears with it.\<close>

definition on_tunnel :: "string \<Rightarrow> command \<Rightarrow> bool" where
  "on_tunnel iface c \<longleftrightarrow>
    take 2 c = [''ifconfig'', iface] \<or>
    (length c = 6 \<and> take 3 c = [''ip'', ''addr'', ''add''] \<and> drop 4 c = [''dev'', iface]) \<or>
    take 5 c = [''ip'', ''link'', ''set'', ''dev'', iface]"

definition deletion :: "command \<Rightarrow> command" where
  "deletion r = map (\<lambda>a. if a = ''-A'' \<or> a = ''-I'' then ''-D'' else a) r"

text \<open>The undo command takes back the route, or the firewall rule, that the command adds.\<close>

definition takes_back :: "command \<Rightarrow> command \<Rightarrow> bool" where
  "takes_back d u \<longleftrightarrow>
    (\<exists>family kind dest via. d = [''route'', ''-n'', ''add'', family, kind, dest] @ via \<and>
       u = [''route'', ''-n'', ''delete'', family, kind, dest]) \<or>
    (\<exists>tool r. (tool = ''iptables'' \<or> tool = ''ip6tables'') \<and> d = [tool, ''-w''] @ r \<and>
       u = [tool, ''-w''] @ deletion r)"

text \<open>What \<open>mac\<close> restores the DNS servers to, from the output of \<open>networksetup\<close>: \<open>None\<close> when
  the output is neither the notice that there are none nor a list of addresses.\<close>

definition parse_dns :: "string \<Rightarrow> string list option" where
  "parse_dns old =
    (if contains old (''aren'' @ [CHR 0x27] @ ''t any DNS Servers'') then Some [''Empty'']
     else if list_all (\<lambda>ip. parseIP ip \<noteq> None) (GoStrings.fields old) then Some (GoStrings.fields old)
     else None)"

definition get_dns :: "string \<Rightarrow> command" where
  "get_dns service = [''networksetup'', ''-getdnsservers'', service]"

definition set_dns :: "string \<Rightarrow> string list \<Rightarrow> command" where
  "set_dns service servers = [''networksetup'', ''-setdnsservers'', service] @ servers"

definition get_sysctl :: "string \<Rightarrow> command" where
  "get_sysctl key = [''sysctl'', ''-n'', key]"

definition set_sysctl :: "string \<Rightarrow> string \<Rightarrow> command" where
  "set_sysctl key v = [''sysctl'', ''-w'', key @ ''='' @ v]"

subsection \<open>Steps of a network setup\<close>

text \<open>
  Everything a setup procedure may do, one step at a time. A change of routes or rules records
  the command that takes it back; a change of the DNS servers or of a kernel setting records the
  command that restores the value read just before. No change is made once the context is
  cancelled.
\<close>

inductive net_step :: "'w os \<Rightarrow> string \<Rightarrow> manager \<times> 'w \<Rightarrow> manager \<times> 'w \<Rightarrow> bool"
  for os :: "'w os" and iface :: string where
  look: "is_query q \<Longrightarrow> run_cmd os q w = (r, w') \<Longrightarrow> net_step os iface (m, w) (m, w')"
| resolve: "lookup_ip os h w = (r, w') \<Longrightarrow> net_step os iface (m, w) (m, w')"
| rejected: "ctx_error os m w = None \<Longrightarrow> run_cmd os d w = (Inl e, w') \<Longrightarrow>
    net_step os iface (m, w) (m, w')"
| tunnel: "on_tunnel iface d \<Longrightarrow> ctx_error os m w = None \<Longrightarrow> run_cmd os d w = (Inr out, w') \<Longrightarrow>
    net_step os iface (m, w) (m, w')"
| change: "takes_back d u \<Longrightarrow> ctx_error os m w = None \<Longrightarrow> run_cmd os d w = (Inr out, w') \<Longrightarrow>
    net_step os iface (m, w) (m\<lparr>undo := undo m @ [u]\<rparr>, w')"
| dns: "run_cmd os (get_dns service) w = (Inr old, w1) \<Longrightarrow> parse_dns old = Some restore \<Longrightarrow>
    ctx_error os m w1 = None \<Longrightarrow> run_cmd os (set_dns service new) w1 = (Inr out, w2) \<Longrightarrow>
    net_step os iface (m, w) (m\<lparr>undo := undo m @ [set_dns service restore]\<rparr>, w2)"
| kernel: "run_cmd os (get_sysctl key) w = (Inr old, w1) \<Longrightarrow>
    ctx_error os m w1 = None \<Longrightarrow> run_cmd os (set_sysctl key ''1'') w1 = (Inr out, w2) \<Longrightarrow>
    net_step os iface (m, w) (m\<lparr>undo := undo m @ [set_sysctl key old]\<rparr>, w2)"

definition stepping :: "'w os \<Rightarrow> string \<Rightarrow> ('w, 'a) act \<Rightarrow> bool" where
  "stepping os iface f \<longleftrightarrow> (\<forall>s. (net_step os iface)\<^sup>*\<^sup>* s (snd (f s)))"

named_theorems stepping_intro \<open>operations that are sequences of setup steps\<close>

lemma stepping_give [stepping_intro]: "stepping os iface (give x)"
  by (simp add: stepping_def give_def)

lemma stepping_fail [stepping_intro]: "stepping os iface (fail e)"
  by (simp add: stepping_def fail_def)

lemma stepping_and_then [stepping_intro]:
  "stepping os iface f \<Longrightarrow> (\<And>x. stepping os iface (g x)) \<Longrightarrow> stepping os iface (and_then f g)"
  unfolding stepping_def and_then_def
  by (smt (verit) rtranclp_trans prod.case_eq_if snd_conv sum.case_eq_if)

lemma stepping_on_error [stepping_intro]: "stepping os iface f \<Longrightarrow> stepping os iface (on_error h f)"
  unfolding stepping_def on_error_def by (simp add: prod.case_eq_if sum.case_eq_if)

lemma stepping_if [stepping_intro]:
  "(b \<Longrightarrow> stepping os iface f) \<Longrightarrow> (\<not> b \<Longrightarrow> stepping os iface g) \<Longrightarrow>
    stepping os iface (if b then f else g)"
  by simp

lemma stepping_each [stepping_intro]:
  "(\<And>x. x \<in> set xs \<Longrightarrow> stepping os iface (f x)) \<Longrightarrow> stepping os iface (each f xs)"
  by (induction xs) (auto intro!: stepping_intro)

lemma stepping_query [stepping_intro]: "is_query c \<Longrightarrow> stepping os iface (query os c)"
  unfolding stepping_def query_def
  by (auto split: prod.splits sum.splits intro!: r_into_rtranclp net_step.look)

lemma add_result:
  "snd (add os d u (m, w)) =
    (case ctx_error os m w of
       Some e \<Rightarrow> (m, w)
     | None \<Rightarrow>
         (case run_cmd os d w of
            (Inl e, w') \<Rightarrow> (m, w')
          | (Inr _, w') \<Rightarrow> (if length u > 0 then m\<lparr>undo := undo m @ [u]\<rparr> else m, w')))"
  by (auto simp: add_def Let_def split: option.split prod.split sum.split)

lemma stepping_add_change [stepping_intro]:
  assumes "takes_back d u"
  shows "stepping os iface (add os d u)"
proof -
  have "u \<noteq> []" using assms by (auto simp: takes_back_def)
  then show ?thesis unfolding stepping_def
    using assms by (auto simp: add_result split: option.split prod.split sum.split
        intro!: r_into_rtranclp intro: net_step.rejected net_step.change)
qed

lemma stepping_add_tunnel [stepping_intro]:
  assumes "on_tunnel iface d"
  shows "stepping os iface (add os d [])"
proof -
  have step: "net_step os iface (m, w) (m, w')"
    if "ctx_error os m w = None" "run_cmd os d w = (r, w')" for m w r w'
    using that assms by (cases r) (auto intro: net_step.rejected net_step.tunnel)
  then show ?thesis unfolding stepping_def
    by (auto simp: add_result split: option.split prod.split sum.split intro!: r_into_rtranclp step)
qed

lemma is_query_get: "is_query (get_dns service)" "is_query (get_sysctl key)"
  by (simp_all add: is_query_def get_dns_def get_sysctl_def)

text \<open>A value is read, then changed with an undo command that depends on what was read.\<close>

lemma stepping_read_change:
  assumes "is_query q"
    and same: "\<And>out. g out = fail (e out) \<or> g out = give () \<or> (\<exists>d u. u \<noteq> [] \<and> g out = add os d u \<and>
      (\<forall>m w w1 w2 out'. run_cmd os q w = (Inr out, w1) \<longrightarrow> ctx_error os m w1 = None \<longrightarrow>
        run_cmd os d w1 = (Inr out', w2) \<longrightarrow>
        net_step os iface (m, w) (m\<lparr>undo := undo m @ [u]\<rparr>, w2)))"
  shows "stepping os iface (and_then (query os q) g)"
  unfolding stepping_def
proof
  fix s :: "manager \<times> 'a"
  obtain m w where s: "s = (m, w)" by (cases s)
  obtain r w1 where r: "run_cmd os q w = (r, w1)" by (cases "run_cmd os q w")
  have look: "(net_step os iface)\<^sup>*\<^sup>* (m, w) (m, w1)"
    using net_step.look [OF assms(1) r] by blast
  show "(net_step os iface)\<^sup>*\<^sup>* s (snd (and_then (query os q) g s))"
  proof (cases r)
    case (Inl e)
    then show ?thesis using look by (simp add: s r and_then_def query_def)
  next
    case (Inr out)
    then have eq: "snd (and_then (query os q) g s) = snd (g out (m, w1))"
      by (simp add: s r and_then_def query_def)
    from same [of out] show ?thesis
    proof (elim disjE exE conjE)
      fix d u
      assume u: "u \<noteq> []" "g out = add os d u"
        and st: "\<forall>m w w1 w2 out'. run_cmd os q w = (Inr out, w1) \<longrightarrow> ctx_error os m w1 = None \<longrightarrow>
          run_cmd os d w1 = (Inr out', w2) \<longrightarrow>
          net_step os iface (m, w) (m\<lparr>undo := undo m @ [u]\<rparr>, w2)"
      show ?thesis
      proof (cases "ctx_error os m w1")
        case None
        obtain r2 w2 where r2: "run_cmd os d w1 = (r2, w2)" by (cases "run_cmd os d w1")
        show ?thesis
        proof (cases r2)
          case (Inl e2)
          have "(net_step os iface)\<^sup>*\<^sup>* (m, w) (m, w2)"
            using rtranclp.rtrancl_into_rtrancl [OF look net_step.rejected [OF None, of d e2 w2]] r2 Inl
            by simp
          with r2 None Inl show ?thesis unfolding eq u(2) by (simp add: s add_result)
        next
          case (Inr o2)
          with st r \<open>r = Inr out\<close> r2 None have "net_step os iface (m, w) (m\<lparr>undo := undo m @ [u]\<rparr>, w2)"
            by blast
          with r2 None Inr u(1) show ?thesis unfolding eq u(2) by (simp add: s add_result)
        qed
      next
        case (Some e)
        then show ?thesis unfolding eq u(2) using look by (simp add: s add_result)
      qed
    qed (unfold eq, use look in \<open>simp_all add: s fail_def give_def\<close>)
  qed
qed

subsection \<open>What an operating system promises\<close>

text \<open>
  \<open>obs\<close> is the part of the world a setup must restore: the configuration outside the tunnel
  interface. The hypotheses on the system: looking changes nothing, a command that fails changes
  nothing, commands on the tunnel interface change nothing else, and a command's recorded undo
  takes the configuration it left back to the configuration it found (also when a route is
  reported as not in the table any more).
\<close>

definition undone :: "command \<Rightarrow> string + string \<Rightarrow> bool" where
  "undone u r \<longleftrightarrow> (case r of Inl e \<Rightarrow> already_gone u e | Inr _ \<Rightarrow> True)"

definition reverts :: "'w os \<Rightarrow> ('w \<Rightarrow> 'c) \<Rightarrow> command \<Rightarrow> command \<Rightarrow> 'w \<Rightarrow> bool" where
  "reverts os obs d u w \<longleftrightarrow>
    (\<forall>out w' w''. run_cmd os d w = (Inr out, w') \<longrightarrow> obs w'' = obs w' \<longrightarrow>
       undone u (fst (run_cmd os u w'')) \<longrightarrow> obs (snd (run_cmd os u w'')) = obs w)"

definition trusted :: "'w os \<Rightarrow> string \<Rightarrow> ('w \<Rightarrow> 'c) \<Rightarrow> bool" where
  "trusted os iface obs \<longleftrightarrow>
    (\<forall>q w. is_query q \<longrightarrow> obs (snd (run_cmd os q w)) = obs w) \<and>
    (\<forall>h w. obs (snd (lookup_ip os h w)) = obs w) \<and>
    (\<forall>d w e w'. run_cmd os d w = (Inl e, w') \<longrightarrow> obs w' = obs w) \<and>
    (\<forall>d w. on_tunnel iface d \<longrightarrow> obs (snd (run_cmd os d w)) = obs w) \<and>
    (\<forall>d u w. takes_back d u \<longrightarrow> reverts os obs d u w) \<and>
    (\<forall>service old restore new w w1. run_cmd os (get_dns service) w = (Inr old, w1) \<longrightarrow>
       parse_dns old = Some restore \<longrightarrow>
       reverts os obs (set_dns service new) (set_dns service restore) w1) \<and>
    (\<forall>key old w w1. run_cmd os (get_sysctl key) w = (Inr old, w1) \<longrightarrow>
       reverts os obs (set_sysctl key ''1'') (set_sysctl key old) w1)"

lemma trustedD:
  assumes "trusted os iface obs"
  shows "is_query q \<Longrightarrow> obs (snd (run_cmd os q w)) = obs w"
    and "obs (snd (lookup_ip os h w)) = obs w"
    and "run_cmd os d w = (Inl e, w') \<Longrightarrow> obs w' = obs w"
    and "on_tunnel iface d \<Longrightarrow> obs (snd (run_cmd os d w)) = obs w"
    and "takes_back d u \<Longrightarrow> reverts os obs d u w"
    and "run_cmd os (get_dns service) w = (Inr old, w1) \<Longrightarrow> parse_dns old = Some restore \<Longrightarrow>
      reverts os obs (set_dns service new) (set_dns service restore) w1"
    and "run_cmd os (get_sysctl key) w = (Inr old, w1) \<Longrightarrow>
      reverts os obs (set_sysctl key ''1'') (set_sysctl key old) w1"
  using assms unfolding trusted_def by - (elim conjE, metis)+

text \<open>The undo commands, last one first, lead back from \<open>a\<close> to \<open>a0\<close>.\<close>

fun unwinds :: "'w os \<Rightarrow> ('w \<Rightarrow> 'c) \<Rightarrow> command list \<Rightarrow> 'c \<Rightarrow> 'c \<Rightarrow> bool" where
  "unwinds os obs [] a a0 \<longleftrightarrow> a = a0"
| "unwinds os obs (u # us) a a0 \<longleftrightarrow>
     (\<exists>b. (\<forall>w. obs w = a \<longrightarrow> undone u (fst (run_cmd os u w)) \<longrightarrow> obs (snd (run_cmd os u w)) = b) \<and>
       unwinds os obs us b a0)"

lemma unwinds_push:
  assumes "unwinds os obs us (obs w) a0" and "reverts os obs d u w"
    and "run_cmd os d w = (Inr out, w')"
  shows "unwinds os obs (u # us) (obs w') a0"
  using assms by (auto simp: reverts_def)

lemma net_step_unwinds:
  assumes "net_step os iface s t" and "trusted os iface obs"
    and "unwinds os obs (rev (undo (fst s))) (obs (snd s)) a0"
  shows "unwinds os obs (rev (undo (fst t))) (obs (snd t)) a0"
  using assms(1)
proof (cases rule: net_step.cases)
  case (look q w r w' m)
  with trustedD(1) [OF assms(2), of q w] assms(3) show ?thesis by simp
next
  case (resolve h w r w' m)
  with trustedD(2) [OF assms(2), of h w] assms(3) show ?thesis by simp
next
  case (rejected m w d e w')
  with trustedD(3) [OF assms(2), of d w e w'] assms(3) show ?thesis by simp
next
  case (tunnel d m w out w')
  with trustedD(4) [OF assms(2), of d w] assms(3) show ?thesis by simp
next
  case (change d u m w out w')
  with trustedD(5) [OF assms(2), of d u w] assms(3)
    unwinds_push [of os obs "rev (undo m)" w a0 d u out w'] show ?thesis by simp
next
  case (dns service w old w1 restore m new out w2)
  from trustedD(1) [OF assms(2) is_query_get(1), of service w] dns(3) have "obs w1 = obs w" by simp
  with dns assms(3) trustedD(6) [OF assms(2) dns(3,4), of new]
    unwinds_push [of os obs "rev (undo m)" w1 a0 _ _ out w2] show ?thesis by simp
next
  case (kernel key w old w1 m out w2)
  from trustedD(1) [OF assms(2) is_query_get(2), of key w] kernel(3) have "obs w1 = obs w" by simp
  with kernel assms(3) trustedD(7) [OF assms(2) kernel(3)]
    unwinds_push [of os obs "rev (undo m)" w1 a0 _ _ out w2] show ?thesis by simp
qed

lemma steps_unwind:
  assumes "(net_step os iface)\<^sup>*\<^sup>* s t" and "trusted os iface obs"
    and "unwinds os obs (rev (undo (fst s))) (obs (snd s)) a0"
  shows "unwinds os obs (rev (undo (fst t))) (obs (snd t)) a0"
  using assms(1,3) by (induction rule: rtranclp_induct) (auto intro: net_step_unwinds [OF _ assms(2)])

lemma close_loop_unwinds:
  assumes "close_loop os us w = (([], failed), w')" and "unwinds os obs us (obs w) a0"
  shows "obs w' = a0"
  using assms
proof (induction us arbitrary: w)
  case Nil
  then show ?case by simp
next
  case (Cons u us)
  obtain r w1 where r: "run_cmd os u w = (r, w1)" by (cases "run_cmd os u w")
  with Cons.prems(1) have u: "undone u r" and l: "close_loop os us w1 = (([], failed), w')"
    by (auto simp: undone_def split: sum.splits if_splits prod.splits)
  obtain b where b: "\<forall>w. obs w = obs w' \<longrightarrow> True" "\<And>w'. obs w' = obs w \<Longrightarrow>
      undone u (fst (run_cmd os u w')) \<Longrightarrow> obs (snd (run_cmd os u w')) = b"
      "unwinds os obs us b a0" using Cons.prems(2) by auto
  have "obs w1 = b" using b(2) [of w] u r by simp
  with b(3) Cons.IH [OF l] show ?case by simp
qed

subsection \<open>The contract of a setup procedure\<close>

locale setup_procedure =
  fixes act :: "'w os \<Rightarrow> ('w, unit) act" and iface :: string
  assumes steps: "stepping os iface (act os)"
begin

text \<open>Closing the manager brings back the configuration the procedure found, whether the
  procedure succeeded or failed, if no undo command fails.\<close>

lemma rollback:
  assumes "trusted os iface obs" and "act os (m, w) = (r, (m', w'))" and "undo m = []"
    and "obs w1 = obs w'" and "Close os m' w1 = (None, m'', w'')"
  shows "obs w'' = obs w \<and> undo m'' = []"
proof -
  have "(net_step os iface)\<^sup>*\<^sup>* (m, w) (m', w')"
    using steps [of os] assms(2) by (metis stepping_def snd_conv)
  from steps_unwind [OF this assms(1), of "obs w"] assms(3)
  have "unwinds os obs (rev (undo m')) (obs w1) (obs w)" using assms(4) by simp
  moreover obtain failed where l: "close_loop os (rev (undo m')) w1 = (([], failed), w'')"
      "m'' = m'\<lparr>undo := rev failed\<rparr>"
    using assms(5) by (auto simp: Close_def split: prod.splits if_splits)
  moreover have "length (fst (fst (close_loop os us v))) = length (snd (fst (close_loop os us v)))" for us v
    by (induction us arbitrary: v) (auto split: prod.splits sum.splits, metis fst_conv snd_conv)
  from this [of "rev (undo m')" w1] l have "failed = []" by simp
  ultimately show ?thesis using close_loop_unwinds [OF l(1)] by simp
qed

end

subsection \<open>What Close does\<close>

text \<open>The same system, with a trace of the commands run and what they returned.\<close>

definition traced :: "'w os \<Rightarrow> ('w \<times> (command \<times> (string + string)) list) os" where
  "traced os =
    \<lparr>run_cmd = (\<lambda>c (w, t). case run_cmd os c w of (r, w') \<Rightarrow> (r, (w', t @ [(c, r)]))),
     lookup_ip = (\<lambda>h (w, t). case lookup_ip os h w of (r, w') \<Rightarrow> (r, (w', t))),
     ctx_err = (\<lambda>(w, t). ctx_err os w),
     route_devs = route_devs os\<rparr>"

lemma traced_simps [simp]:
  "run_cmd (traced os) c (w, t) = (fst (run_cmd os c w), (snd (run_cmd os c w), t @ [(c, fst (run_cmd os c w))]))"
  "lookup_ip (traced os) h (w, t) = (fst (lookup_ip os h w), (snd (lookup_ip os h w), t))"
  "ctx_err (traced os) (w, t) = ctx_err os w"
  by (simp_all add: traced_def split: prod.split)

lemma close_loop_traced:
  "\<exists>rs w'. length rs = length us \<and>
    close_loop (traced os) us (w, t) =
      ((map (projl \<circ> snd) (filter (\<lambda>(u, r). \<not> undone u r) (zip us rs)),
        map fst (filter (\<lambda>(u, r). \<not> undone u r) (zip us rs))), (w', t @ zip us rs))"
proof (induction us arbitrary: w t)
  case Nil
  then show ?case by simp
next
  case (Cons u us)
  obtain r w1 where r: "run_cmd os u w = (r, w1)" by (cases "run_cmd os u w")
  from Cons.IH [of w1 "t @ [(u, r)]"] obtain rs w' where rs: "length rs = length us"
    "close_loop (traced os) us (w1, t @ [(u, r)]) =
      ((map (projl \<circ> snd) (filter (\<lambda>(u, r). \<not> undone u r) (zip us rs)),
        map fst (filter (\<lambda>(u, r). \<not> undone u r) (zip us rs))), (w', t @ [(u, r)] @ zip us rs))"
    by auto
  then show ?case
    by (intro exI [of _ "r # rs"] exI [of _ w']) (cases r; simp add: r undone_def)
qed

lemma subseq_filter_zip: "length xs = length ys \<Longrightarrow> subseq (map fst (filter P (zip xs ys))) xs"
  by (induction xs ys rule: list_induct2) auto

lemma subseq_rev: "subseq xs ys \<Longrightarrow> subseq (rev xs) (rev ys)"
  by (induction rule: list_emb.induct) (auto intro: subseq_rev_drop_many list_emb_append_mono)

text \<open>C21: \<open>Close\<close> attempts every recorded undo command exactly once, last one first, whatever fails
  on the way. It keeps exactly those that failed (a missing route counts as undone), in their
  original order, so that a later \<open>Close\<close> can retry them; it reports an error exactly if it kept
  one, and the error is one that \<open>CleanupFailed\<close> recognises.\<close>

theorem close_undoes_in_reverse:
  assumes "Close (traced os) m (w, t) = (r, (m', (w', t')))"
  shows "\<exists>rs. length rs = length (undo m) \<and> t' = t @ zip (rev (undo m)) rs \<and>
    undo m' = rev (map fst (filter (\<lambda>(u, r). \<not> undone u r) (zip (rev (undo m)) rs))) \<and>
    subseq (undo m') (undo m) \<and>
    (r = None \<longleftrightarrow> undo m' = []) \<and> (\<forall>e. r = Some e \<longrightarrow> CleanupFailed e)"
proof -
  obtain rs w1 where rs: "length rs = length (undo m)"
    "close_loop (traced os) (rev (undo m)) (w, t) =
      ((map (projl \<circ> snd) (filter (\<lambda>(u, r). \<not> undone u r) (zip (rev (undo m)) rs)),
        map fst (filter (\<lambda>(u, r). \<not> undone u r) (zip (rev (undo m)) rs))),
       (w1, t @ zip (rev (undo m)) rs))"
    using close_loop_traced [of "rev (undo m)" os w t] by auto
  with assms have u: "undo m' = rev (map fst (filter (\<lambda>(u, r). \<not> undone u r) (zip (rev (undo m)) rs)))"
    and t: "t' = t @ zip (rev (undo m)) rs"
    and r: "r = None \<longleftrightarrow> undo m' = []" "\<forall>e. r = Some e \<longrightarrow> CleanupFailed e"
    by (auto simp: Close_def split: if_splits)
  have "subseq (rev (undo m')) (rev (undo m))"
    unfolding u rev_rev_ident using rs(1) by (intro subseq_filter_zip) simp
  from subseq_rev [OF this] have "subseq (undo m') (undo m)" by simp
  with rs(1) u t r show ?thesis by (intro exI [of _ rs]) simp
qed

text \<open>A system whose only failure is the deletion of a route: the routes of the listed
  destinations are gone, the others are busy.\<close>

definition flaky_os :: "unit os" where
  "flaky_os = \<lparr>run_cmd = (\<lambda>c w.
      (if take 3 c = [''route'', ''-n'', ''delete'']
       then Inl (if drop 3 c = [''a''] then ''route: not in table'' else ''busy'')
       else Inr [], w)),
    lookup_ip = (\<lambda>h w. (Inr [], w)), ctx_err = (\<lambda>w. None), route_devs = (\<lambda>s. None)\<rparr>"

theorem close_undoes_in_reverse_witness:
  "\<exists>rs. length rs = 3 \<and>
    [[''route'', ''-n'', ''delete'', ''b'']] =
      rev (map fst (filter (\<lambda>(u, r). \<not> undone u r)
        (zip [[''sysctl'', ''x''], [''route'', ''-n'', ''delete'', ''b''], [''route'', ''-n'', ''delete'', ''a'']] rs)))"
proof -
  let ?m = "\<lparr>undo = [[''route'', ''-n'', ''delete'', ''a''], [''route'', ''-n'', ''delete'', ''b''],
    [''sysctl'', ''x'']], has_ctx = False\<rparr>"
  have u: "undo (fst (snd (Close (traced flaky_os) ?m ((), [])))) = [[''route'', ''-n'', ''delete'', ''b'']]"
    by code_simp
  obtain r m' w' t' where c: "Close (traced flaky_os) ?m ((), []) = (r, (m', (w', t')))"
    by (metis prod.exhaust)
  from close_undoes_in_reverse [OF c] u c show ?thesis by (auto simp: numeral_3_eq_3)
qed

end
