(* ===== verification/MacRoutes.thy ===== *)
theory MacRoutes
  imports Manager
begin

text \<open>
  \<open>internal/network/macos_routes.go\<close>: reading the route to an underlay address, deciding whether
  the user's route can stay, pinning a host route otherwise, and verifying the routes after the
  split default routes are in place. A set of flags is the list of its elements.
\<close>

record mac_route =
  mr_ip :: string
  mr_gateway :: string
  mr_iface :: string
  mr_flags :: "string list"
  mr_static :: bool

abbreviation flag :: "mac_route \<Rightarrow> string \<Rightarrow> bool" where
  "flag r f \<equiv> f \<in> set (mr_flags r)"

definition field :: "string \<Rightarrow> string \<Rightarrow> string" where
  "field out key =
    (case find (\<lambda>line. case cut (trimSpace line) CHR '':'' of (k, v, ok) \<Rightarrow> ok \<and> k = key)
        (split_on CHR 0x0A out) of
       None \<Rightarrow> []
     | Some line \<Rightarrow> (case cut (trimSpace line) CHR '':'' of (k, v, ok) \<Rightarrow> trimSpace v))"

definition route_get :: "string \<Rightarrow> command" where
  "route_get ip = [''route'', ''-n'', ''get'', ip]"

text \<open>The route in the output of \<open>route get\<close>.\<close>

definition parse_route :: "string \<Rightarrow> string \<Rightarrow> mac_route" where
  "parse_route ip out = \<lparr>mr_ip = ip, mr_gateway = field out ''gateway'',
    mr_iface = field out ''interface'',
    mr_flags = map trimSpace (split_on CHR '','' (trim_set (field out ''flags'') ''<>'')),
    mr_static = False\<rparr>"

definition readMacRoute :: "'w os \<Rightarrow> string \<Rightarrow> ('w, mac_route) act" where
  "readMacRoute os ip =
    and_then (on_error (Wrapped (''read route to '' @ ip)) (query os (route_get ip)))
      (\<lambda>out.
        let r = parse_route ip out
        in if mr_iface r = [] then fail (NetError (''cannot determine original route to '' @ ip))
           else give r)"

definition persistentHost :: "mac_route \<Rightarrow> bool" where
  "persistentHost r \<longleftrightarrow> flag r ''HOST'' \<and> flag r ''STATIC'' \<and> \<not> flag r ''WASCLONED'' \<and>
    \<not> flag r ''DYNAMIC'' \<and> \<not> flag r ''IFSCOPE''"

definition directlyConnected :: "mac_route \<Rightarrow> bool" where
  "directlyConnected r \<longleftrightarrow> flag r ''HOST'' \<and> \<not> flag r ''GATEWAY'' \<and>
    (flag r ''LLINFO'' \<or> flag r ''LOCAL'')"

text \<open>\<open>r.iface == tun || r.flags["REJECT"] || r.flags["BLACKHOLE"]\<close>.\<close>

definition unusable :: "string \<Rightarrow> mac_route \<Rightarrow> bool" where
  "unusable tun r \<longleftrightarrow> mr_iface r = tun \<or> flag r ''REJECT'' \<or> flag r ''BLACKHOLE''"

definition host_family :: "string \<Rightarrow> string" where
  "host_family ip =
    (case parseIP ip of
       None \<Rightarrow> ''-inet6''
     | Some v \<Rightarrow> if is4in6 v then ''-inet'' else ''-inet6'')"

text \<open>\<open>net.ParseIP(strings.Split(gateway, "%")[0]) != nil\<close>.\<close>

definition gateway_is_ip :: "mac_route \<Rightarrow> bool" where
  "gateway_is_ip r \<longleftrightarrow> parseIP (hd (split_on CHR ''%'' (mr_gateway r))) \<noteq> None"

definition host_add :: "string \<Rightarrow> mac_route \<Rightarrow> command" where
  "host_add ip r = [''route'', ''-n'', ''add'', host_family ip, ''-host'', ip] @
    (if gateway_is_ip r then [mr_gateway r] else [''-interface'', mr_iface r])"

definition host_delete :: "string \<Rightarrow> command" where
  "host_delete ip = [''route'', ''-n'', ''delete'', host_family ip, ''-host'', ip]"

definition pinMacRoute :: "'w os \<Rightarrow> string \<Rightarrow> string \<Rightarrow> ('w, mac_route) act" where
  "pinMacRoute os ip tun =
    and_then (readMacRoute os ip)
      (\<lambda>r.
        if unusable tun r then fail (NetError (''unusable original route to '' @ ip))
        else if persistentHost r then give (r\<lparr>mr_static := True\<rparr>)
        else if directlyConnected r then give r
        else and_then
          (on_error (Wrapped (''pin server/ICE route to '' @ ip))
            (add os (host_add ip r) (host_delete ip)))
          (\<lambda>_. give (r\<lparr>mr_static := True\<rparr>)))"

text \<open>One iteration of \<open>verifyMacRoutes\<close>: the context, the route now, and what must not have
  changed.\<close>

definition route_kept :: "string \<Rightarrow> mac_route \<Rightarrow> mac_route \<Rightarrow> net_error option" where
  "route_kept tun want got =
    (if mr_iface got = tun \<or> mr_iface got \<noteq> mr_iface want \<or> flag got ''REJECT'' \<or>
        flag got ''BLACKHOLE'' then Some (NetError (''underlay route changed: '' @ mr_ip want))
     else if gateway_is_ip want \<and> mr_gateway got \<noteq> mr_gateway want
       then Some (NetError (''underlay gateway changed: '' @ mr_ip want))
     else if mr_static want \<and> (\<not> flag got ''HOST'' \<or> \<not> flag got ''STATIC'' \<or>
         flag got ''WASCLONED'' \<or> flag got ''DYNAMIC'')
       then Some (NetError (''not a persistent static host route: '' @ mr_ip want))
     else None)"

definition check_ctx :: "'w os \<Rightarrow> ('w, unit) act" where
  "check_ctx os = (\<lambda>(m, w).
    case ctx_error os m w of Some e \<Rightarrow> (Inl (ContextErr e), (m, w)) | None \<Rightarrow> (Inr (), (m, w)))"

definition verify_route :: "'w os \<Rightarrow> string \<Rightarrow> mac_route \<Rightarrow> ('w, unit) act" where
  "verify_route os tun want =
    and_then (check_ctx os) (\<lambda>_.
      and_then (readMacRoute os (mr_ip want)) (\<lambda>got.
        case route_kept tun want got of Some e \<Rightarrow> fail e | None \<Rightarrow> give ()))"

definition verifyMacRoutes :: "'w os \<Rightarrow> mac_route list \<Rightarrow> string \<Rightarrow> ('w, unit) act" where
  "verifyMacRoutes os routes tun = and_then (each (verify_route os tun) routes) (\<lambda>_. give ())"

subsection \<open>They are setup steps\<close>

lemma is_query_route_get: "is_query (route_get ip)"
  by (simp add: is_query_def route_get_def)

lemma takes_back_host: "takes_back (host_add ip r) (host_delete ip)"
  unfolding takes_back_def host_add_def host_delete_def by blast

lemma stepping_readMacRoute [stepping_intro]: "stepping os iface (readMacRoute os ip)"
  unfolding readMacRoute_def Let_def by (intro stepping_intro is_query_route_get)

lemma stepping_pinMacRoute [stepping_intro]: "stepping os iface (pinMacRoute os ip tun)"
  unfolding pinMacRoute_def by (intro stepping_intro takes_back_host)

lemma stepping_check_ctx [stepping_intro]: "stepping os iface (check_ctx os)"
  by (auto simp: stepping_def check_ctx_def split: option.split)

lemma stepping_verifyMacRoutes [stepping_intro]: "stepping os iface (verifyMacRoutes os routes tun)"
proof -
  have "stepping os iface (case route_kept tun want got of Some e \<Rightarrow> fail e | None \<Rightarrow> give ())"
    for want got by (cases "route_kept tun want got") (auto intro: stepping_intro)
  then show ?thesis unfolding verifyMacRoutes_def verify_route_def by (intro stepping_intro)
qed

subsection \<open>What they run\<close>

lemma and_then_Inr:
  "and_then f g s = (Inr y, s') \<longleftrightarrow> (\<exists>x s1. f s = (Inr x, s1) \<and> g x s1 = (Inr y, s'))"
  by (auto simp: and_then_def split: prod.splits sum.splits)

lemma give_Inr [simp]: "give x s = (Inr y, s') \<longleftrightarrow> y = x \<and> s' = s"
  by (auto simp: give_def)

lemma fail_Inr [simp]: "fail e s \<noteq> (Inr y, s')"
  by (simp add: fail_def)

lemma on_error_Inr [simp]: "on_error h f s = (Inr y, s') \<longleftrightarrow> f s = (Inr y, s')"
  by (auto simp: on_error_def split: prod.splits sum.splits)

lemma read_traced:
  "\<exists>r w'. query (traced os) c (m, (w, t)) =
    (case r of Inl e \<Rightarrow> Inl (CommandFailed e) | Inr out \<Rightarrow> Inr out, (m, (w', t @ [(c, r)])))"
  by (auto simp: query_def split: sum.split)

lemma readMacRoute_traced:
  "\<exists>r w'. snd (readMacRoute (traced os) ip (m, (w, t))) = (m, (w', t @ [(route_get ip, r)])) \<and>
    (case fst (readMacRoute (traced os) ip (m, (w, t))) of
       Inl _ \<Rightarrow> True
     | Inr g \<Rightarrow> (\<exists>out. r = Inr out \<and> g = parse_route ip out \<and> mr_iface g \<noteq> []))"
proof -
  obtain r w' where r: "query (traced os) (route_get ip) (m, (w, t)) =
    (case r of Inl e \<Rightarrow> Inl (CommandFailed e) | Inr out \<Rightarrow> Inr out, (m, (w', t @ [(route_get ip, r)])))"
    using read_traced [of os "route_get ip" m w t] by blast
  show ?thesis
    by (intro exI [of _ r] exI [of _ w'])
      (cases r; simp add: readMacRoute_def and_then_def on_error_def r Let_def fail_def give_def)
qed

lemma add_traced:
  "snd (add (traced os) d u (m, (w, t))) = (m, (w, t)) \<or>
   (\<exists>r w'. snd (add (traced os) d u (m, (w, t))) =
     (case r of Inl _ \<Rightarrow> m | Inr _ \<Rightarrow> if length u > 0 then m\<lparr>undo := undo m @ [u]\<rparr> else m,
      (w', t @ [(d, r)])))"
  by (cases "ctx_error (traced os) m (w, t)"; cases "fst (run_cmd os d w)")
    (force simp: add_result)+

subsection \<open>Properties\<close>

text \<open>C39: Only routes the program created are ever removed. Pinning the route to an address reads
  it, and then either changes nothing, or adds one host route to this very address and nothing
  else, recording the deletion of exactly that route if and only if the addition succeeded. A
  persistent static host route or a directly connected one is left alone, and a route that is
  accepted never goes through the tunnel.\<close>

theorem pin_owns_what_it_adds:
  assumes "pinMacRoute (traced os) ip tun (m, (w, t)) = (res, (m', (w', t')))"
  shows "\<exists>r0. (t' = t @ [(route_get ip, r0)] \<and> m' = m \<or>
      (\<exists>out r1. r0 = Inr out \<and> t' = t @ [(route_get ip, r0), (host_add ip (parse_route ip out), r1)] \<and>
        \<not> persistentHost (parse_route ip out) \<and> \<not> directlyConnected (parse_route ip out) \<and>
        \<not> unusable tun (parse_route ip out) \<and>
        m' = (case r1 of Inl _ \<Rightarrow> m | Inr _ \<Rightarrow> m\<lparr>undo := undo m @ [host_delete ip]\<rparr>))) \<and>
    (\<forall>g. res = Inr g \<longrightarrow> (\<exists>out. r0 = Inr out \<and> \<not> unusable tun (parse_route ip out) \<and>
      mr_iface g = mr_iface (parse_route ip out) \<and> mr_iface g \<noteq> tun))"
proof -
  let ?read = "readMacRoute (traced os) ip (m, (w, t))"
  obtain r w1 where r: "snd ?read = (m, (w1, t @ [(route_get ip, r)]))"
    and g: "case fst ?read of Inl _ \<Rightarrow> True
      | Inr g \<Rightarrow> (\<exists>out. r = Inr out \<and> g = parse_route ip out \<and> mr_iface g \<noteq> [])"
    using readMacRoute_traced [of os ip m w t] by blast
  show ?thesis
  proof (cases "fst ?read")
    case (Inl e)
    then have "?read = (Inl e, (m, (w1, t @ [(route_get ip, r)])))" using r by (metis prod.collapse)
    with assms show ?thesis by (auto simp: pinMacRoute_def and_then_def)
  next
    case (Inr got)
    with g obtain out where out: "r = Inr out" "got = parse_route ip out" by auto
    from Inr have rd: "?read = (Inr got, (m, (w1, t @ [(route_get ip, r)])))"
      using r by (metis prod.collapse)
    show ?thesis
    proof (cases "unusable tun got \<or> persistentHost got \<or> directlyConnected got")
      case True
      with assms rd have "m' = m \<and> t' = t @ [(route_get ip, r)] \<and>
          (\<forall>g. res = Inr g \<longrightarrow> \<not> unusable tun got \<and> mr_iface g = mr_iface got)"
        by (auto simp: pinMacRoute_def and_then_def fail_def give_def split: if_splits)
      with out show ?thesis by (auto simp: unusable_def)
    next
      case False
      let ?add = "add (traced os) (host_add ip got) (host_delete ip) (m, (w1, t @ [(route_get ip, r)]))"
      from False assms rd have m': "(m', (w', t')) = snd ?add"
        and res: "\<forall>g. res = Inr g \<longrightarrow> mr_iface g = mr_iface got"
        by (auto simp: pinMacRoute_def and_then_def on_error_def give_def
            split: prod.splits sum.splits)
      have "host_delete ip \<noteq> []" by (simp add: host_delete_def)
      with m' add_traced [of os "host_add ip got" "host_delete ip" m w1 "t @ [(route_get ip, r)]"]
      consider "m' = m" "t' = t @ [(route_get ip, r)]"
        | r1 where "t' = t @ [(route_get ip, r), (host_add ip got, r1)]"
          "m' = (case r1 of Inl _ \<Rightarrow> m | Inr _ \<Rightarrow> m\<lparr>undo := undo m @ [host_delete ip]\<rparr>)"
        by auto
      then show ?thesis using False out res by cases (auto simp: unusable_def)
    qed
  qed
qed

text \<open>A host whose route to 192.0.2.10 goes through \<open>en0\<close>, cloned from the default route.\<close>

definition cloned_output :: string where
  "cloned_output = ''gateway: 192.168.1.1'' @ [CHR 0x0A] @ ''interface: en0'' @ [CHR 0x0A] @
    ''flags: <UP,GATEWAY,HOST,WASCLONED>''"

definition pinned_output :: string where
  "pinned_output = ''gateway: 192.168.1.1'' @ [CHR 0x0A] @ ''interface: en0'' @ [CHR 0x0A] @
    ''flags: <UP,GATEWAY,HOST,STATIC>''"

definition mac_host :: "bool os" where
  "mac_host = \<lparr>run_cmd = (\<lambda>c w.
      if take 3 c = [''route'', ''-n'', ''get'']
      then (Inr (if w then pinned_output else cloned_output), w)
      else (Inr [], take 3 c = [''route'', ''-n'', ''add''])),
    lookup_ip = (\<lambda>h w. (Inr [], w)), ctx_err = (\<lambda>w. None), route_devs = (\<lambda>s. None)\<rparr>"

definition idle_manager :: manager where
  "idle_manager = \<lparr>undo = [], has_ctx = True\<rparr>"

definition en0_route :: mac_route where
  "en0_route = \<lparr>mr_ip = ''192.0.2.10'', mr_gateway = ''192.168.1.1'', mr_iface = ''en0'',
    mr_flags = [''UP'', ''GATEWAY'', ''HOST'', ''WASCLONED''], mr_static = True\<rparr>"

lemma mac_host_pin:
  "pinMacRoute (traced mac_host) ''192.0.2.10'' ''utun9'' (idle_manager, (False, [])) =
    (Inr en0_route, (\<lparr>undo = [[''route'', ''-n'', ''delete'', ''-inet'', ''-host'', ''192.0.2.10'']],
        has_ctx = True\<rparr>, (True,
      [(route_get ''192.0.2.10'', Inr cloned_output),
       ([''route'', ''-n'', ''add'', ''-inet'', ''-host'', ''192.0.2.10'', ''192.168.1.1''], Inr [])])))"
  by code_simp

theorem pin_owns_what_it_adds_witness:
  "\<not> directlyConnected (parse_route ''192.0.2.10'' cloned_output) \<and>
    \<not> persistentHost (parse_route ''192.0.2.10'' cloned_output)"
  using pin_owns_what_it_adds [OF mac_host_pin] by auto

lemma verify_kept:
  assumes "verifyMacRoutes (traced os) routes tun (m, (w, t)) = (Inr (), (m', (w', t')))"
  shows "\<exists>outs. length outs = length routes \<and> m' = m \<and>
    t' = t @ map2 (\<lambda>want out. (route_get (mr_ip want), Inr out)) routes outs \<and>
    list_all2 (\<lambda>want out. route_kept tun want (parse_route (mr_ip want) out) = None) routes outs"
proof -
  have "\<exists>outs. length outs = length routes \<and>
      m' = m \<and> t' = t @ map2 (\<lambda>want out. (route_get (mr_ip want), Inr out)) routes outs \<and>
      list_all2 (\<lambda>want out. route_kept tun want (parse_route (mr_ip want) out) = None) routes outs"
    if "each (verify_route (traced os) tun) routes (m, (w, t)) = (Inr us, (m', (w', t')))" for us
    using that
  proof (induction routes arbitrary: w t us)
    case Nil
    then show ?case by simp
  next
    case (Cons want routes)
    then obtain s1 us' where s1: "verify_route (traced os) tun want (m, (w, t)) = (Inr (), s1)"
      and rest: "each (verify_route (traced os) tun) routes s1 = (Inr us', (m', (w', t')))"
      by (auto simp: and_then_Inr)
    then obtain got where got: "readMacRoute (traced os) (mr_ip want) (m, (w, t)) = (Inr got, s1)"
      and kept: "route_kept tun want got = None"
      by (auto simp: verify_route_def and_then_Inr check_ctx_def split: option.splits)
    obtain r w1 where "s1 = (m, (w1, t @ [(route_get (mr_ip want), r)]))"
      "\<exists>out. r = Inr out \<and> got = parse_route (mr_ip want) out"
      using readMacRoute_traced [of os "mr_ip want" m w t] got by auto
    then obtain out where out: "s1 = (m, (w1, t @ [(route_get (mr_ip want), Inr out)]))"
      "got = parse_route (mr_ip want) out" by auto
    from Cons.IH [OF rest [unfolded out(1)]] obtain outs where
      "length outs = length routes" "m' = m"
      "t' = (t @ [(route_get (mr_ip want), Inr out)]) @
        map2 (\<lambda>want out. (route_get (mr_ip want), Inr out)) routes outs"
      "list_all2 (\<lambda>want out. route_kept tun want (parse_route (mr_ip want) out) = None) routes outs"
      by blast
    with kept out(2) show ?case by (intro exI [of _ "out # outs"]) simp
  qed
  moreover obtain us where
    "each (verify_route (traced os) tun) routes (m, (w, t)) = (Inr us, (m', (w', t')))"
    using assms by (auto simp: verifyMacRoutes_def and_then_Inr)
  ultimately show ?thesis by blast
qed

text \<open>The verification is sound. If \<open>verifyMacRoutes\<close> returns no error, it has read back every
  route it was given, in order, changed nothing, and at that reading each route still left
  through the same interface as before, which is not the tunnel, was not rejected, had the same gateway
  when the gateway is an address, and was a permanent static host route where one is
  required.\<close>

theorem verify_reads_back_every_route:
  assumes "verifyMacRoutes (traced os) routes tun (m, (w, t)) = (Inr (), (m', (w', t')))"
  shows "m' = m \<and> (\<exists>outs. length outs = length routes \<and>
    t' = t @ map2 (\<lambda>want out. (route_get (mr_ip want), Inr out)) routes outs \<and>
    list_all2 (\<lambda>want out. let got = parse_route (mr_ip want) out in
      mr_iface got = mr_iface want \<and> mr_iface got \<noteq> tun \<and> \<not> flag got ''REJECT'' \<and> \<not> flag got ''BLACKHOLE'' \<and>
      (gateway_is_ip want \<longrightarrow> mr_gateway got = mr_gateway want) \<and>
      (mr_static want \<longrightarrow> flag got ''HOST'' \<and> flag got ''STATIC'' \<and> \<not> flag got ''WASCLONED'' \<and>
        \<not> flag got ''DYNAMIC'')) routes outs)"
proof -
  obtain outs where "length outs = length routes" "m' = m"
      "t' = t @ map2 (\<lambda>want out. (route_get (mr_ip want), Inr out)) routes outs"
      "list_all2 (\<lambda>want out. route_kept tun want (parse_route (mr_ip want) out) = None) routes outs"
    using verify_kept [OF assms] by blast
  then show ?thesis
    by (auto simp: route_kept_def Let_def split: if_splits elim!: list_all2_mono)
qed

lemma mac_host_verify:
  "verifyMacRoutes (traced mac_host) [en0_route] ''utun9'' (idle_manager, (True, [])) =
    (Inr (), (idle_manager, (True, [(route_get ''192.0.2.10'', Inr pinned_output)])))"
  by code_simp

theorem verify_reads_back_every_route_witness:
  "\<exists>outs. length outs = 1 \<and> [(route_get ''192.0.2.10'', Inr pinned_output)] =
    map2 (\<lambda>want out. (route_get (mr_ip want), Inr out)) [en0_route] outs"
  using verify_reads_back_every_route [OF mac_host_verify] by auto

end
