(* ===== verification/Setup.thy ===== *)
theory Setup
  imports MacRoutes "HOL-Library.List_Lexorder" "HOL-Library.Char_ord"
begin

text \<open>
  The setup procedures of \<open>internal/network/network.go\<close>: \<open>mac\<close>, \<open>linux\<close> and \<open>Setup\<close>, which
  rolls back when one of them fails. Both procedures provide the contract of a setup procedure,
  from which the restoration theorem follows. \<open>MustParsePrefix\<close> panics on a bad prefix, which is
  the error \<open>Panicked\<close>; a validated configuration has none.
\<close>

subsection \<open>macOS\<close>

definition host_of :: "string \<Rightarrow> string" where
  "host_of hp = (case splitHostPort hp of None \<Rightarrow> [] | Some (h, p) \<Rightarrow> h)"

text \<open>The host of an ICE server URL, \<open>None\<close> when it has no scheme.\<close>

definition ice_host :: "string \<Rightarrow> string option" where
  "ice_host u =
    (case cut u CHR '':'' of (scheme, rest, ok) \<Rightarrow>
       if \<not> ok then None
       else
         let tail = trimPrefix (fst (cut rest CHR ''?'')) ''//''
         in Some (case splitHostPort tail of None \<Rightarrow> tail | Some (h, p) \<Rightarrow> h))"

definition underlay_hosts :: "config \<Rightarrow> string list \<Rightarrow> string list" where
  "underlay_hosts c remoteIPs =
    [host_of (c_endpoint c)] @ n_bypass_ips (c_network c) @ remoteIPs @
    List.map_filter ice_host (w_ice_urls (c_webrtc c))"

definition resolve_host :: "'w os \<Rightarrow> string \<Rightarrow> ('w, string list) act" where
  "resolve_host os h =
    (case parseIP h of
       Some ip \<Rightarrow> give [ip_string ip]
     | None \<Rightarrow> (\<lambda>(m, w).
         case lookup_ip os h w of
           (Inl e, w') \<Rightarrow> (Inl (LookupFailed e), (m, w'))
         | (Inr addresses, w') \<Rightarrow> (Inr (map ip_string addresses), (m, w'))))"

text \<open>The keys of the Go map, sorted: the order in which the map is traversed does not matter.\<close>

definition ordered_ips :: "string list list \<Rightarrow> string list" where
  "ordered_ips ips = sort (remdups (concat ips))"

definition loopback :: "string \<Rightarrow> bool" where
  "loopback ip = (case parseIP ip of None \<Rightarrow> False | Some v \<Rightarrow> isLoopback v)"

definition mac_interface :: "'w os \<Rightarrow> config \<Rightarrow> string \<Rightarrow> ('w, unit) act" where
  "mac_interface os c iface =
    (let n = c_network c
     in case parsePrefix (n_ipv4 n) of
          None \<Rightarrow> fail Panicked
        | Some v4 \<Rightarrow>
            and_then
              (add os [''ifconfig'', iface, ''inet'', addr_string (fst v4), n_peer4 n, ''netmask'',
                 ''255.255.255.252'', ''mtu'', ''1280'', ''up''] [])
              (\<lambda>_. if n_ipv6 n \<noteq> []
                   then add os [''ifconfig'', iface, ''inet6'', n_ipv6 n, ''alias''] []
                   else give ()))"

text \<open>All lookups happen before installing split default routes.\<close>

definition mac_pins :: "'w os \<Rightarrow> config \<Rightarrow> string \<Rightarrow> string list \<Rightarrow> ('w, mac_route list) act" where
  "mac_pins os c iface remoteIPs =
    and_then (each (resolve_host os) (underlay_hosts c remoteIPs)) (\<lambda>ips.
      each (\<lambda>ip. pinMacRoute os ip iface) (filter (\<lambda>ip. \<not> loopback ip) (ordered_ips ips)))"

definition mac_dns :: "'w os \<Rightarrow> config \<Rightarrow> ('w, unit) act" where
  "mac_dns os c =
    (let n = c_network c
     in if n_dns_service n \<noteq> [] \<and> length (n_dns n) > 0 then
          and_then (query os (get_dns (n_dns_service n))) (\<lambda>old.
            case parse_dns old of
              None \<Rightarrow> fail (NetError (''cannot parse current DNS settings: '' @ old))
            | Some restore \<Rightarrow>
                add os (set_dns (n_dns_service n) (n_dns n)) (set_dns (n_dns_service n) restore))
        else give ())"

definition split_add :: "string \<Rightarrow> string \<Rightarrow> string \<Rightarrow> command" where
  "split_add family cidr iface =
    [''route'', ''-n'', ''add'', family, ''-net'', cidr, ''-interface'', iface]"

definition split_delete :: "string \<Rightarrow> string \<Rightarrow> command" where
  "split_delete family cidr = [''route'', ''-n'', ''delete'', family, ''-net'', cidr]"

definition mac_split :: "'w os \<Rightarrow> config \<Rightarrow> string \<Rightarrow> ('w, unit) act" where
  "mac_split os c iface =
    and_then
      (each (\<lambda>cidr. add os (split_add ''-inet'' cidr iface) (split_delete ''-inet'' cidr))
        [''0.0.0.0/1'', ''128.0.0.0/1''])
      (\<lambda>_. if n_ipv6 (c_network c) \<noteq> [] then
             and_then
               (each (\<lambda>cidr. add os (split_add ''-inet6'' cidr iface) (split_delete ''-inet6'' cidr))
                 [''::/1'', ''8000::/1''])
               (\<lambda>_. give ())
           else give ())"

definition mac :: "'w os \<Rightarrow> config \<Rightarrow> string \<Rightarrow> string list \<Rightarrow> ('w, unit) act" where
  "mac os c iface remoteIPs =
    and_then (mac_interface os c iface) (\<lambda>_.
      and_then (mac_pins os c iface remoteIPs) (\<lambda>originalRoutes.
        and_then (mac_dns os c) (\<lambda>_.
          and_then (mac_split os c iface) (\<lambda>_.
            verifyMacRoutes os originalRoutes iface))))"

subsection \<open>Linux\<close>

definition ip_addr_add :: "string \<Rightarrow> string \<Rightarrow> command" where
  "ip_addr_add cidr iface = [''ip'', ''addr'', ''add'', cidr, ''dev'', iface]"

definition linux_interface :: "'w os \<Rightarrow> config \<Rightarrow> string \<Rightarrow> ('w, unit) act" where
  "linux_interface os c iface =
    and_then
      (each (\<lambda>cidr. if cidr \<noteq> [] then add os (ip_addr_add cidr iface) [] else give ())
        [n_ipv4 (c_network c), n_ipv6 (c_network c)])
      (\<lambda>_. add os [''ip'', ''link'', ''set'', ''dev'', iface, ''mtu'', ''1280'', ''up''] [])"

definition linux_egress :: "'w os \<Rightarrow> config \<Rightarrow> ('w, string) act" where
  "linux_egress os c =
    (if n_egress (c_network c) = [] then
       and_then (query os [''ip'', ''-j'', ''route'', ''show'', ''default'']) (\<lambda>out.
         case route_devs os out of
           Some (dev # rows) \<Rightarrow> give dev
         | _ \<Rightarrow> fail (NetError ''no Linux default route; set network.egress''))
     else give (n_egress (c_network c)))"

definition linux_rules :: "string \<Rightarrow> string \<Rightarrow> string \<Rightarrow> string \<Rightarrow> command list" where
  "linux_rules subnet egress iface peer =
    [[''-t'', ''nat'', ''-A'', ''POSTROUTING'', ''-s'', subnet, ''-o'', egress, ''-j'', ''MASQUERADE''],
     [''-I'', ''FORWARD'', ''-i'', iface, ''-o'', egress, ''-s'', peer, ''-j'', ''ACCEPT''],
     [''-I'', ''FORWARD'', ''-i'', egress, ''-o'', iface, ''-d'', peer, ''-m'', ''conntrack'',
      ''--ctstate'', ''RELATED,ESTABLISHED'', ''-j'', ''ACCEPT'']]"

definition linux_forward ::
    "'w os \<Rightarrow> string \<Rightarrow> string \<Rightarrow> string \<Rightarrow> string \<Rightarrow> string \<Rightarrow> string \<Rightarrow> ('w, unit) act" where
  "linux_forward os iface egress cidr peer tool key =
    and_then
      (and_then (query os (get_sysctl key)) (\<lambda>old.
         if old \<noteq> ''1'' then add os (set_sysctl key ''1'') (set_sysctl key old) else give ()))
      (\<lambda>_. case parsePrefix cidr of
             None \<Rightarrow> fail Panicked
           | Some p \<Rightarrow>
               and_then
                 (each (\<lambda>r. add os ([tool, ''-w''] @ r) ([tool, ''-w''] @ deletion r))
                   (linux_rules (prefix_string (masked p)) egress iface peer))
                 (\<lambda>_. give ()))"

definition linux :: "'w os \<Rightarrow> config \<Rightarrow> string \<Rightarrow> ('w, unit) act" where
  "linux os c iface =
    (let n = c_network c
     in and_then (linux_interface os c iface) (\<lambda>_.
          if c_role c \<noteq> ''server''
          then fail (NetError ''Linux client: use network.auto=false and configure namespace routes explicitly'')
          else and_then (linux_egress os c) (\<lambda>egress.
            and_then
              (linux_forward os iface egress (n_ipv4 n) (n_peer4 n) ''iptables'' ''net.ipv4.ip_forward'')
              (\<lambda>_. if n_ipv6 n = [] then give ()
                   else linux_forward os iface egress (n_ipv6 n) (n_peer6 n) ''ip6tables''
                          ''net.ipv6.conf.all.forwarding''))))"

subsection \<open>Setup\<close>

definition setup_action ::
    "'w os \<Rightarrow> string \<Rightarrow> config \<Rightarrow> string \<Rightarrow> string list \<Rightarrow> ('w, unit) act" where
  "setup_action os goos c iface remoteIPs =
    (if goos = ''darwin'' \<and> c_role c = ''client'' then mac os c iface remoteIPs
     else if goos = ''linux'' then linux os c iface
     else fail (NetError ''automatic network setup supports macOS client and Linux''))"

text \<open>\<open>errors.Join(e, m.Close())\<close> drops a \<open>nil\<close>.\<close>

definition join_close :: "net_error \<Rightarrow> net_error option \<Rightarrow> net_error" where
  "join_close e r = (case r of None \<Rightarrow> Wrapped [] e | Some f \<Rightarrow> Joined e f)"

definition Setup ::
    "'w os \<Rightarrow> string \<Rightarrow> config \<Rightarrow> string \<Rightarrow> string list \<Rightarrow> 'w \<Rightarrow> (net_error + manager) \<times> 'w" where
  "Setup os goos c iface remoteIPs w =
    (case ctx_err os w of
       Some e \<Rightarrow> (Inl (ContextErr e), w)
     | None \<Rightarrow>
         let m = \<lparr>undo = [], has_ctx = True\<rparr>
         in if \<not> n_auto (c_network c) then (Inr m, w)
            else case setup_action os goos c iface remoteIPs (m, w) of
                (Inr _, (m', w')) \<Rightarrow> (Inr m', w')
              | (Inl e, (m', w')) \<Rightarrow>
                  (case Close os m' w' of (r, (m'', w'')) \<Rightarrow> (Inl (join_close e r), w'')))"

subsection \<open>The procedures are setup procedures\<close>

lemma stepping_resolve_host [stepping_intro]: "stepping os iface (resolve_host os h)"
proof (cases "parseIP h")
  case None
  then show ?thesis
    by (auto simp: stepping_def resolve_host_def split: prod.splits sum.splits
        intro!: r_into_rtranclp net_step.resolve)
qed (auto simp: resolve_host_def intro: stepping_intro)

lemma on_tunnel_ifconfig: "on_tunnel iface (''ifconfig'' # iface # rest)"
  by (simp add: on_tunnel_def)

lemma stepping_mac_interface [stepping_intro]: "stepping os iface (mac_interface os c iface)"
  by (cases "parsePrefix (n_ipv4 (c_network c))")
    (auto simp: mac_interface_def Let_def intro!: stepping_intro on_tunnel_ifconfig)

lemma stepping_mac_pins [stepping_intro]: "stepping os iface (mac_pins os c iface remoteIPs)"
  unfolding mac_pins_def by (intro stepping_intro)

lemma stepping_mac_dns [stepping_intro]: "stepping os iface (mac_dns os c)"
proof -
  have "stepping os iface (and_then (query os (get_dns service)) (\<lambda>old.
      case parse_dns old of
        None \<Rightarrow> fail (NetError (''cannot parse current DNS settings: '' @ old))
      | Some restore \<Rightarrow> add os (set_dns service new) (set_dns service restore)))" for service new
  proof (rule stepping_read_change [OF is_query_get(1),
        of _ "\<lambda>old. NetError (''cannot parse current DNS settings: '' @ old)"])
    fix old
    let ?g = "case parse_dns old of
        None \<Rightarrow> fail (NetError (''cannot parse current DNS settings: '' @ old))
      | Some restore \<Rightarrow> add os (set_dns service new) (set_dns service restore)"
    show "?g = fail (NetError (''cannot parse current DNS settings: '' @ old)) \<or> ?g = give () \<or>
      (\<exists>d u. u \<noteq> [] \<and> ?g = add os d u \<and>
        (\<forall>m w w1 w2 out'. run_cmd os (get_dns service) w = (Inr old, w1) \<longrightarrow>
          ctx_error os m w1 = None \<longrightarrow> run_cmd os d w1 = (Inr out', w2) \<longrightarrow>
          net_step os iface (m, w) (m\<lparr>undo := undo m @ [u]\<rparr>, w2)))"
    proof (cases "parse_dns old")
      case (Some restore)
      have "set_dns service restore \<noteq> []" by (simp add: set_dns_def)
      with Some show ?thesis by (auto intro: net_step.dns)
    qed simp
  qed
  then show ?thesis by (auto simp: mac_dns_def Let_def intro: stepping_intro)
qed

lemma takes_back_split: "takes_back (split_add family cidr iface) (split_delete family cidr)"
  unfolding takes_back_def split_add_def split_delete_def
  by (rule disjI1) (intro exI [of _ family] exI [of _ "''-net''"] exI [of _ cidr]
      exI [of _ "[''-interface'', iface]"], simp)

lemma stepping_mac_split [stepping_intro]: "stepping os iface (mac_split os c iface)"
  unfolding mac_split_def by (intro stepping_intro takes_back_split)

lemma stepping_mac: "stepping os iface (mac os c iface remoteIPs)"
  unfolding mac_def by (intro stepping_intro)

lemma stepping_linux_interface [stepping_intro]: "stepping os iface (linux_interface os c iface)"
  unfolding linux_interface_def
  by (intro stepping_intro) (simp_all add: on_tunnel_def ip_addr_add_def)

lemma stepping_linux_egress [stepping_intro]: "stepping os iface (linux_egress os c)"
proof -
  have "stepping os iface (case route_devs os out of
      Some (dev # rows) \<Rightarrow> give dev
    | _ \<Rightarrow> fail (NetError ''no Linux default route; set network.egress''))" for out
    by (auto split: option.split list.split intro: stepping_intro)
  then show ?thesis unfolding linux_egress_def
    by (intro stepping_intro) (simp_all add: is_query_def)
qed

lemma stepping_sysctl [stepping_intro]:
  "stepping os iface (and_then (query os (get_sysctl key)) (\<lambda>old.
     if old \<noteq> ''1'' then add os (set_sysctl key ''1'') (set_sysctl key old) else give ()))"
proof (rule stepping_read_change [OF is_query_get(2), of _ "\<lambda>_. Panicked"])
  fix old
  show "(if old \<noteq> ''1'' then add os (set_sysctl key ''1'') (set_sysctl key old) else give ()) =
        fail Panicked \<or>
      (if old \<noteq> ''1'' then add os (set_sysctl key ''1'') (set_sysctl key old) else give ()) = give () \<or>
      (\<exists>d u. u \<noteq> [] \<and>
        (if old \<noteq> ''1'' then add os (set_sysctl key ''1'') (set_sysctl key old) else give ()) = add os d u \<and>
        (\<forall>m w w1 w2 out'. run_cmd os (get_sysctl key) w = (Inr old, w1) \<longrightarrow>
          ctx_error os m w1 = None \<longrightarrow> run_cmd os d w1 = (Inr out', w2) \<longrightarrow>
          net_step os iface (m, w) (m\<lparr>undo := undo m @ [u]\<rparr>, w2)))"
  proof (cases "old = ''1''")
    case False
    have "set_sysctl key old \<noteq> []" by (simp add: set_sysctl_def)
    with False show ?thesis by (auto intro: net_step.kernel)
  qed simp
qed

lemma takes_back_rule:
  "tool = ''iptables'' \<or> tool = ''ip6tables'' \<Longrightarrow>
    takes_back ([tool, ''-w''] @ r) ([tool, ''-w''] @ deletion r)"
  unfolding takes_back_def by blast

lemma stepping_linux_forward:
  assumes "tool = ''iptables'' \<or> tool = ''ip6tables''"
  shows "stepping os iface (linux_forward os iface egress cidr peer tool key)"
proof (cases "parsePrefix cidr")
  case None
  then show ?thesis unfolding linux_forward_def by (simp del: append.simps) (intro stepping_intro)
next
  case (Some p)
  then show ?thesis unfolding linux_forward_def
    by (simp del: append.simps each.simps)
      (intro stepping_intro takes_back_rule assms)
qed

lemma stepping_linux: "stepping os iface (linux os c iface)"
  unfolding linux_def Let_def
  by (intro stepping_intro stepping_linux_forward) simp_all

interpretation mac_setup: setup_procedure "\<lambda>os. mac os c iface remoteIPs" iface
  for c iface remoteIPs
  by unfold_locales (rule stepping_mac)

interpretation linux_setup: setup_procedure "\<lambda>os. linux os c iface" iface for c iface
  by unfold_locales (rule stepping_linux)

interpretation any_setup: setup_procedure "\<lambda>os. setup_action os goos c iface remoteIPs" iface
  for goos c iface remoteIPs
  by unfold_locales
    (auto simp: setup_action_def intro: mac_setup.steps linux_setup.steps stepping_intro)

subsection \<open>Which commands they run\<close>

text \<open>Every command an operation runs satisfies \<open>P\<close>.\<close>

definition emits ::
    "(command \<Rightarrow> bool) \<Rightarrow> ('w \<times> (command \<times> (string + string)) list, 'a) act \<Rightarrow> bool" where
  "emits P f \<longleftrightarrow> (\<forall>m w t. \<exists>m' w' cs. snd (f (m, (w, t))) = (m', (w', t @ cs)) \<and> list_all (P \<circ> fst) cs)"

named_theorems emits_intro \<open>which commands an operation runs\<close>

lemma emits_give [emits_intro]: "emits P (give x)"
  by (auto simp: emits_def give_def)

lemma emits_fail [emits_intro]: "emits P (fail e)"
  by (auto simp: emits_def fail_def)

lemma emits_and_then [emits_intro]:
  assumes "emits P f" and "\<And>x. emits P (g x)"
  shows "emits P (and_then f g)"
  unfolding emits_def
proof (intro allI)
  fix m w t
  from assms(1) obtain m1 w1 cs1 where 1: "snd (f (m, (w, t))) = (m1, (w1, t @ cs1))" "list_all (P \<circ> fst) cs1"
    unfolding emits_def by blast
  show "\<exists>m' w' cs. snd (and_then f g (m, (w, t))) = (m', (w', t @ cs)) \<and> list_all (P \<circ> fst) cs"
  proof (cases "fst (f (m, (w, t)))")
    case (Inl e)
    with 1 show ?thesis by (simp add: and_then_def split_beta)
  next
    case (Inr x)
    from assms(2) [of x] obtain m2 w2 cs2 where
      2: "snd (g x (m1, (w1, t @ cs1))) = (m2, (w2, (t @ cs1) @ cs2))" "list_all (P \<circ> fst) cs2"
      unfolding emits_def by blast
    from Inr 1 2 show ?thesis
      by (intro exI [of _ m2] exI [of _ w2] exI [of _ "cs1 @ cs2"]) (simp add: and_then_def split_beta)
  qed
qed

lemma emits_on_error [emits_intro]: "emits P f \<Longrightarrow> emits P (on_error h f)"
  unfolding emits_def on_error_def by (simp add: split_beta sum.case_eq_if)

lemma emits_if [emits_intro]:
  "(b \<Longrightarrow> emits P f) \<Longrightarrow> (\<not> b \<Longrightarrow> emits P g) \<Longrightarrow> emits P (if b then f else g)"
  by simp

lemma emits_each [emits_intro]: "(\<And>x. emits P (f x)) \<Longrightarrow> emits P (each f xs)"
  by (induction xs) (auto intro!: emits_intro)

lemma emits_query [emits_intro]: "P c \<Longrightarrow> emits P (query (traced os) c)"
  unfolding emits_def query_def by (auto split: sum.split)

lemma emits_add [emits_intro]: "P d \<Longrightarrow> emits P (add (traced os) d u)"
proof -
  assume P: "P d"
  have "\<exists>m' w' cs. snd (add (traced os) d u (m, (w, t))) = (m', (w', t @ cs)) \<and> list_all (P \<circ> fst) cs"
    for m w t
    using add_traced [of os d u m w t] P by (elim disjE exE) force+
  then show ?thesis by (simp add: emits_def)
qed

definition is_split :: "command \<Rightarrow> bool" where
  "is_split d \<longleftrightarrow> length d > 4 \<and> take 3 d = [''route'', ''-n'', ''add''] \<and> d ! 4 = ''-net''"

lemma emits_resolve_host [emits_intro]: "emits P (resolve_host (traced os) h)"
  by (cases "parseIP h")
    (auto simp: emits_def resolve_host_def give_def split: sum.split)

lemma emits_mac_interface: "emits (\<lambda>c. \<not> is_split c) (mac_interface (traced os) c iface)"
  by (cases "parsePrefix (n_ipv4 (c_network c))")
    (auto simp: mac_interface_def Let_def is_split_def intro!: emits_intro)

lemma emits_mac_pins: "emits (\<lambda>c. \<not> is_split c) (mac_pins (traced os) c iface remoteIPs)"
  unfolding mac_pins_def pinMacRoute_def readMacRoute_def Let_def
  by (intro emits_intro) (simp_all add: is_split_def route_get_def host_add_def)

lemma emits_mac_dns: "emits (\<lambda>c. \<not> is_split c) (mac_dns (traced os) c)"
proof -
  have "emits (\<lambda>c. \<not> is_split c) (case parse_dns old of
      None \<Rightarrow> fail (NetError (''cannot parse current DNS settings: '' @ old))
    | Some restore \<Rightarrow> add (traced os) (set_dns service new) (set_dns service restore))" for old service new
    by (cases "parse_dns old") (auto intro!: emits_intro simp: is_split_def set_dns_def)
  then show ?thesis unfolding mac_dns_def Let_def
    by (intro emits_intro) (simp_all add: is_split_def get_dns_def)
qed

text \<open>The part of \<open>mac\<close> before the split default routes.\<close>

definition mac_prepare :: "'w os \<Rightarrow> config \<Rightarrow> string \<Rightarrow> string list \<Rightarrow> ('w, mac_route list) act" where
  "mac_prepare os c iface remoteIPs =
    and_then (mac_interface os c iface) (\<lambda>_.
      and_then (mac_pins os c iface remoteIPs) (\<lambda>originalRoutes.
        and_then (mac_dns os c) (\<lambda>_. give originalRoutes)))"

lemma mac_prepared:
  "mac os c iface remoteIPs =
    and_then (mac_prepare os c iface remoteIPs) (\<lambda>originalRoutes.
      and_then (mac_split os c iface) (\<lambda>_. verifyMacRoutes os originalRoutes iface))"
  by (rule ext)
    (simp add: mac_def mac_prepare_def and_then_def give_def split: prod.split sum.split)

lemma emits_mac_prepare: "emits (\<lambda>c. \<not> is_split c) (mac_prepare (traced os) c iface remoteIPs)"
  unfolding mac_prepare_def
  by (intro emits_intro emits_mac_interface emits_mac_pins emits_mac_dns)

lemma emits_mac_split: "emits (\<lambda>_. True) (mac_split (traced os) c iface)"
  unfolding mac_split_def by (intro emits_intro) simp_all

lemma emits_verify: "emits (\<lambda>_. True) (verifyMacRoutes (traced os) routes iface)"
proof -
  have "emits (\<lambda>_. True) (case route_kept iface want got of Some e \<Rightarrow> fail e | None \<Rightarrow> give ())"
    for want got by (cases "route_kept iface want got") (auto intro: emits_intro)
  moreover have "emits (\<lambda>_. True) (check_ctx (traced os))"
    by (auto simp: emits_def check_ctx_def split: option.split)
  ultimately show ?thesis
    unfolding verifyMacRoutes_def verify_route_def readMacRoute_def Let_def
    by (intro emits_intro) simp_all
qed

subsection \<open>Properties\<close>

lemma setup_restored:
  assumes "trusted os iface obs"
    and "Setup os goos c iface remoteIPs w = (res, w')"
  shows "(\<forall>e. res = Inl e \<and> \<not> CleanupFailed e \<longrightarrow> obs w' = obs w) \<and>
    (\<forall>m w1 m' w2. res = Inr m \<and> obs w1 = obs w' \<and> Close os m w1 = (None, (m', w2)) \<longrightarrow>
      obs w2 = obs w)"
proof -
  let ?m = "\<lparr>undo = [], has_ctx = True\<rparr>"
  have empty: "Close os ?m w1 = (None, (m', w2)) \<Longrightarrow> w2 = w1" for w1 m' w2
    by (simp add: Close_def)
  show ?thesis
  proof (cases "ctx_err os w = None \<and> n_auto (c_network c)")
    case False
    with assms(2) have "(\<exists>e. res = Inl e) \<and> w' = w \<or> res = Inr ?m \<and> w' = w"
      by (auto simp: Setup_def Let_def split: option.splits if_splits)
    then show ?thesis using empty by auto
  next
    case True
    obtain r m1 w1 where a: "setup_action os goos c iface remoteIPs (?m, w) = (r, (m1, w1))"
      by (metis prod.exhaust)
    note rb = any_setup.rollback [OF assms(1) a, simplified]
    show ?thesis
    proof (cases r)
      case (Inl e)
      obtain cr m2 w2 where cl: "Close os m1 w1 = (cr, (m2, w2))" by (metis prod.exhaust)
      with assms(2) True a Inl have res: "res = Inl (join_close e cr)" "w' = w2"
        by (simp_all add: Setup_def Let_def)
      have "obs w' = obs w" if "\<not> CleanupFailed (join_close e cr)"
      proof -
        from that cl have "cr = None"
          by (cases cr) (auto simp: join_close_def Close_def split: prod.splits if_splits)
        with rb [of w1 m2 w2] cl res show ?thesis by simp
      qed
      with res show ?thesis by simp
    next
      case (Inr u)
      with assms(2) True a have res: "res = Inr m1" "w' = w1" by (simp_all add: Setup_def Let_def)
      have "obs w2 = obs w" if "obs v = obs w1" and "Close os m1 v = (None, (m2, w2))" for v m2 w2
        using rb [OF that] by simp
      with res show ?thesis by blast
    qed
  qed
qed


text \<open>A host with room for one firewall rule: the second insertion fails.\<close>

definition is_tool :: "command \<Rightarrow> bool" where
  "is_tool c \<longleftrightarrow> take 1 c = [''iptables''] \<or> take 1 c = [''ip6tables'']"

definition small_firewall :: "command option os" where
  "small_firewall = \<lparr>run_cmd = (\<lambda>c w.
      if is_query c \<or> on_tunnel ''tlab0'' c then (Inr ''1'', w)
      else case w of
          None \<Rightarrow>
            if is_tool c \<and> (''-A'' \<in> set c \<or> ''-I'' \<in> set c)
            then (Inr [], Some c) else (Inl ''denied'', w)
        | Some d \<Rightarrow> if c = deletion d then (Inr [], None) else (Inl ''busy'', w)),
    lookup_ip = (\<lambda>h w. (Inr [], w)), ctx_err = (\<lambda>w. None), route_devs = (\<lambda>s. Some [''eth0''])\<rparr>"

lemma deletion_no_insert: "''-A'' \<notin> set (deletion c)" "''-I'' \<notin> set (deletion c)"
  by (auto simp: deletion_def)

definition plain :: "command \<Rightarrow> bool" where
  "plain c \<longleftrightarrow> \<not> is_query c \<and> \<not> on_tunnel ''tlab0'' c"

lemma small_firewall_denied:
  assumes "plain u" and "\<not> (is_tool u \<and> (''-A'' \<in> set u \<or> ''-I'' \<in> set u))"
  shows "\<not> undone u (fst (run_cmd small_firewall u None))"
proof -
  have "\<not> contains ''denied'' ''not in table''" by code_simp
  with assms show ?thesis by (auto simp: small_firewall_def undone_def already_gone_def plain_def)
qed

lemma small_firewall_reverts:
  assumes "plain d" and "plain u" and "is_tool d \<and> u = deletion d \<or> \<not> is_tool d \<and> \<not> is_tool u"
  shows "reverts small_firewall (\<lambda>w. w) d u w"
  unfolding reverts_def
proof (intro allI impI)
  fix out w' w''
  assume run: "run_cmd small_firewall d w = (Inr out, w')" and w'': "w'' = w'"
    and u: "undone u (fst (run_cmd small_firewall u w''))"
  show "snd (run_cmd small_firewall u w'') = w"
  proof (cases w)
    case None
    with run assms(1) have "is_tool d" "w' = Some d"
      by (auto simp: small_firewall_def plain_def split: if_splits)
    with assms w'' None show ?thesis by (auto simp: small_firewall_def plain_def)
  next
    case (Some d0)
    with run assms(1) have "w' = None" by (auto simp: small_firewall_def plain_def split: if_splits)
    with u w'' small_firewall_denied [OF assms(2)] assms(3) deletion_no_insert show ?thesis by auto
  qed
qed

lemma take_deletion: "take n (deletion c) = deletion (take n c)"
  by (simp add: deletion_def take_map)

lemma trusted_small_firewall: "trusted small_firewall ''tlab0'' (\<lambda>w. w)"
proof -
  have 1: "reverts small_firewall (\<lambda>w. w) d u w" if "takes_back d u" for d u w
  proof (rule small_firewall_reverts)
    show "plain d" "plain u" "is_tool d \<and> u = deletion d \<or> \<not> is_tool d \<and> \<not> is_tool u"
      using that by (auto simp: takes_back_def plain_def is_query_def on_tunnel_def is_tool_def deletion_def)
  qed
  have 2: "reverts small_firewall (\<lambda>w. w) (set_dns service new) (set_dns service restore) w"
    for service new restore w
    by (rule small_firewall_reverts)
      (simp_all add: set_dns_def plain_def is_query_def on_tunnel_def is_tool_def)
  have 3: "reverts small_firewall (\<lambda>w. w) (set_sysctl key a) (set_sysctl key b) w" for key a b w
    by (rule small_firewall_reverts)
      (simp_all add: set_sysctl_def plain_def is_query_def on_tunnel_def is_tool_def)
  have 4: "w' = w" if "run_cmd small_firewall d w = (Inl e, w')" for d w e w'
    using that by (auto simp: small_firewall_def split: if_splits option.splits)
  from 1 2 3 4 show ?thesis
    by (auto simp: trusted_def) (simp_all add: small_firewall_def)
qed

definition server_config :: config where
  "server_config = sample_config\<lparr>c_role := ''server'', c_listen := ''0.0.0.0:5060'',
    c_network := (c_network sample_config)\<lparr>n_auto := True, n_ipv4 := ''10.77.0.1/30'',
      n_peer4 := ''10.77.0.2''\<rparr>\<rparr>"


text \<open>C10: On macOS the underlay is secured before the traffic is diverted. In every run of \<open>mac\<close>,
  successful or not, the split default routes are added only after all addresses have been
  resolved and pinned and the DNS servers set, all without an error; and when \<open>mac\<close> succeeds, it
  has then read every pinned route back and found it on its interface, not on the tunnel.\<close>

theorem underlay_before_split:
  assumes "mac (traced os) c iface remoteIPs (m, (w, t)) = (res, (m', (w', t')))"
  shows "\<exists>t1 t2. t' = t @ t1 @ t2 \<and> list_all (\<lambda>(d, r). \<not> is_split d) t1 \<and>
    (t2 \<noteq> [] \<or> res = Inr () \<longrightarrow>
      (\<exists>routes m1 w1. mac_prepare (traced os) c iface remoteIPs (m, (w, t)) = (Inr routes, (m1, (w1, t @ t1))) \<and>
        (res = Inr () \<longrightarrow> (\<exists>ts outs.
          t2 = ts @ map2 (\<lambda>want out. (route_get (mr_ip want), Inr out)) routes outs \<and>
          list_all2 (\<lambda>want out. mr_iface (parse_route (mr_ip want) out) = mr_iface want \<and>
            mr_iface want \<noteq> iface) routes outs))))"
proof -
  let ?prep = "mac_prepare (traced os) c iface remoteIPs (m, (w, t))"
  obtain m1 w1 t1 where p: "snd ?prep = (m1, (w1, t @ t1))" "list_all ((\<lambda>c. \<not> is_split c) \<circ> fst) t1"
    using emits_mac_prepare [of os c iface remoteIPs] unfolding emits_def by blast
  then have ns: "list_all (\<lambda>(d, r). \<not> is_split d) t1" by (auto simp: list_all_iff)
  show ?thesis
  proof (cases "fst ?prep")
    case (Inl e)
    with p have "?prep = (Inl e, (m1, (w1, t @ t1)))" by (metis prod.collapse)
    with assms have "t' = t @ t1" "res \<noteq> Inr ()" by (auto simp: mac_prepared and_then_def)
    with ns show ?thesis by auto
  next
    case (Inr routes)
    with p have prep: "?prep = (Inr routes, (m1, (w1, t @ t1)))" by (metis prod.collapse)
    let ?rest = "and_then (mac_split (traced os) c iface)
      (\<lambda>_. verifyMacRoutes (traced os) routes iface)"
    have rest: "?rest (m1, (w1, t @ t1)) = (res, (m', (w', t')))"
      using assms prep by (simp add: mac_prepared and_then_def)
    have any: "emits (\<lambda>_. True) (mac_split (traced os) c iface)"
        "emits (\<lambda>_. True) (verifyMacRoutes (traced os) routes iface)"
      by (rule emits_mac_split, rule emits_verify)
    have "emits (\<lambda>_. True) ?rest" by (rule emits_and_then [OF any])
    then obtain m3 w3 t2 where "snd (?rest (m1, (w1, t @ t1))) = (m3, (w3, (t @ t1) @ t2))"
      unfolding emits_def by blast
    with rest have t2: "t' = (t @ t1) @ t2" by simp
    have "\<exists>ts outs. t2 = ts @ map2 (\<lambda>want out. (route_get (mr_ip want), Inr out)) routes outs \<and>
        list_all2 (\<lambda>want out. mr_iface (parse_route (mr_ip want) out) = mr_iface want \<and>
          mr_iface want \<noteq> iface) routes outs" if "res = Inr ()"
    proof -
      from rest that obtain s2 where s2: "mac_split (traced os) c iface (m1, (w1, t @ t1)) = (Inr (), s2)"
        and v: "verifyMacRoutes (traced os) routes iface s2 = (Inr (), (m', (w', t')))"
        by (auto simp: and_then_Inr)
      obtain m2 w2 ts where "s2 = (m2, (w2, (t @ t1) @ ts))"
        using any(1) s2 unfolding emits_def by (metis snd_conv)
      with verify_kept [of os routes iface m2 w2 "(t @ t1) @ ts" m' w' t'] v obtain outs where
        "t' = ((t @ t1) @ ts) @ map2 (\<lambda>want out. (route_get (mr_ip want), Inr out)) routes outs"
        "list_all2 (\<lambda>want out. route_kept iface want (parse_route (mr_ip want) out) = None) routes outs"
        by blast
      with t2 show ?thesis
        by (intro exI [of _ ts] exI [of _ outs])
          (auto simp: route_kept_def split: if_splits elim!: list_all2_mono)
    qed
    with ns t2 prep show ?thesis by (intro exI [of _ t1] exI [of _ t2]) auto
  qed
qed

definition client_config :: config where
  "client_config = sample_config\<lparr>c_endpoint := ''192.0.2.10:5060'',
    c_network := (c_network sample_config)\<lparr>n_auto := True, n_ipv4 := ''10.77.0.2/30'',
      n_peer4 := ''10.77.0.1''\<rparr>\<rparr>"

text \<open>A host where the pinned route stays in place.\<close>

definition steady_mac :: "bool os" where
  "steady_mac = mac_host\<lparr>run_cmd := (\<lambda>c w.
      if take 3 c = [''route'', ''-n'', ''get'']
      then (Inr (if w then pinned_output else cloned_output), w)
      else (Inr [], w \<or> take 3 c = [''route'', ''-n'', ''add'']))\<rparr>"

theorem underlay_before_split_witness:
  "\<exists>t1 t2. snd (snd (snd (mac (traced steady_mac) client_config ''utun9'' [] (idle_manager, (False, [])))))
      = t1 @ t2 \<and> list_all (\<lambda>(d, r). \<not> is_split d) t1 \<and>
    (\<exists>routes m1 w1. mac_prepare (traced steady_mac) client_config ''utun9'' [] (idle_manager, (False, [])) =
      (Inr routes, (m1, (w1, t1))))"
proof -
  obtain res m' w' t' where
    m: "mac (traced steady_mac) client_config ''utun9'' [] (idle_manager, (False, [])) = (res, (m', (w', t')))"
    by (metis prod.exhaust)
  have "fst (mac (traced steady_mac) client_config ''utun9'' [] (idle_manager, (False, []))) = Inr ()"
    by code_simp
  with m have "res = Inr ()" by simp
  with underlay_before_split [OF m] m show ?thesis by auto
qed

end
