(* ===== verification/SipMessage.thy ===== *)
theory SipMessage
  imports GoStrings Netconn
begin

text \<open>
  SIP messages of \<open>internal/transport/sip.go\<close>: \<open>readSIP\<close> on a \<open>bufio.Reader\<close> of 8192 bytes and
  the writing half, \<open>send\<close>. A header map is an association list; the order in which \<open>send\<close>
  ranges over it is the order of its argument, so statements hold for every order. \<open>uni\<close> is the
  part of \<open>strings.ToLower\<close> beyond ASCII.
\<close>

record sip_message =
  first :: string
  headers :: "(string \<times> string) list"
  body :: "byte list"

datatype sip_error =
    SipIO conn_error
  | BufferFull
  | BadHeaderLine
  | BadStartLine
  | BadHeader
  | DuplicateHeader
  | BadContentLength
  | MissingHeader string
  | HeaderInjection
  | ServerAuthFailed
  | SipRejected
  | BadHandshake
  | BadClientProof
  | KeyError string
  | PacketTooLarge
  | UnexpectedTransaction
  | TransactionTimeout

text \<open>\<open>m.headers[k]\<close>: a missing key gives the empty string.\<close>

definition header :: "sip_message \<Rightarrow> string \<Rightarrow> string" where
  "header m k = (case map_of (headers m) k of None \<Rightarrow> [] | Some v \<Rightarrow> v)"

subsection \<open>Reading\<close>

definition header_limit :: nat where
  "header_limit = 8192"

text \<open>\<open>bufio.Reader.ReadSlice('\n')\<close> with a buffer of 8192 bytes: a line that does not fit fails.\<close>

definition readSlice :: "netconn \<Rightarrow> (sip_error + byte list) \<times> netconn" where
  "readSlice c =
    (let line = takeWhile (\<lambda>b. b \<noteq> 10) (take header_limit (rd c));
         n = length line
     in if n < length (take header_limit (rd c)) then
          (Inr (take (n + 1) (rd c)), c\<lparr>rd := drop (n + 1) (rd c)\<rparr>)
        else if length (rd c) \<ge> header_limit then (Inl BufferFull, c\<lparr>rd := drop header_limit (rd c)\<rparr>)
        else (Inl (SipIO (rd_err c)), c\<lparr>rd := []\<rparr>))"

text \<open>The closure \<open>line\<close>, which counts the bytes of the header in \<open>total\<close>.\<close>

definition read_line :: "nat \<Rightarrow> netconn \<Rightarrow> (sip_error + string \<times> nat) \<times> netconn" where
  "read_line used c =
    (case readSlice c of
       (Inl e, c') \<Rightarrow> (Inl e, c')
     | (Inr b, c') \<Rightarrow>
         if used + length b > 8192 \<or> length b < 2 \<or> b ! (length b - 2) \<noteq> 13
         then (Inl BadHeaderLine, c')
         else (Inr (string_of (take (length b - 2) b), used + length b), c'))"

definition start_line_ok :: "string \<Rightarrow> bool" where
  "start_line_ok s \<longleftrightarrow> hasPrefix s ''SIP/2.0 '' \<or> hasSuffix s '' SIP/2.0''"

lemma readSlice_shrinks:
  "readSlice c = (Inr b, c') \<Longrightarrow> length (rd c') < length (rd c)"
  by (auto simp: readSlice_def Let_def header_limit_def split: if_splits)

lemma read_line_shrinks:
  "read_line used c = (Inr r, c') \<Longrightarrow> length (rd c') < length (rd c)"
  by (auto simp: read_line_def split: prod.splits sum.splits if_splits dest: readSlice_shrinks)

text \<open>The header loop, up to the empty line.\<close>

function read_headers ::
    "(string \<Rightarrow> string) \<Rightarrow> (string \<times> string) list \<Rightarrow> nat \<Rightarrow> netconn \<Rightarrow>
      (sip_error + (string \<times> string) list) \<times> netconn" where
  "read_headers uni hs used c =
    (case read_line used c of
       (Inl e, c') \<Rightarrow> (Inl e, c')
     | (Inr (s, used'), c') \<Rightarrow>
         if s = [] then (Inr hs, c')
         else
           case cut s CHR '':'' of (k0, v, ok) \<Rightarrow>
             let k = toLower uni (trimSpace k0)
             in if \<not> ok \<or> k = [] then (Inl BadHeader, c')
                else if map_of hs k \<noteq> None then (Inl DuplicateHeader, c')
                else read_headers uni (hs @ [(k, trimSpace v)]) used' c')"
  by pat_completeness auto
termination
  by (relation "measure (\<lambda>(uni, hs, used, c). length (rd c))")
    (auto dest!: read_line_shrinks [OF sym])

declare read_headers.simps [simp del]

definition required :: "string list" where
  "required = [''via'', ''from'', ''to'', ''call-id'', ''cseq'']"

definition readSIP :: "(string \<Rightarrow> string) \<Rightarrow> netconn \<Rightarrow> (sip_error + sip_message) \<times> netconn" where
  "readSIP uni c =
    (case read_line 0 c of
       (Inl e, c1) \<Rightarrow> (Inl e, c1)
     | (Inr (start, used), c1) \<Rightarrow>
         if \<not> start_line_ok start then (Inl BadStartLine, c1)
         else
           case read_headers uni [] used c1 of
             (Inl e, c2) \<Rightarrow> (Inl e, c2)
           | (Inr hs, c2) \<Rightarrow>
               let m = \<lparr>first = start, headers = hs, body = []\<rparr>
               in case atoi (header m ''content-length'') of
                    None \<Rightarrow> (Inl BadContentLength, c2)
                  | Some n \<Rightarrow>
                      if n < 0 \<or> n > 2048 then (Inl BadContentLength, c2)
                      else case find (\<lambda>k. header m k = []) required of
                          Some k \<Rightarrow> (Inl (MissingHeader k), c2)
                        | None \<Rightarrow>
                            (case readFull (nat n) c2 of
                               (Inl e, c3) \<Rightarrow> (Inl (SipIO e), c3)
                             | (Inr b, c3) \<Rightarrow> (Inr (m\<lparr>body := b\<rparr>), c3)))"

subsection \<open>Writing\<close>

abbreviation crlf :: string where
  "crlf \<equiv> [CHR 0x0D, CHR 0x0A]"

definition header_line :: "string \<times> string \<Rightarrow> string" where
  "header_line h = fst h @ '': '' @ snd h @ crlf"

definition sip_bytes :: "sip_message \<Rightarrow> byte list" where
  "sip_bytes m =
    bytes_of (first m @ crlf @ concat (map header_line (headers m)) @ ''Content-Length: '' @
      dec (length (body m)) @ crlf @ crlf) @ body m"

definition send :: "netconn \<Rightarrow> sip_message \<Rightarrow> sip_error option \<times> netconn" where
  "send c m =
    (if list_ex (\<lambda>(k, v). containsAny (k @ v) crlf) (headers m) then (Some HeaderInjection, c)
     else case writeAll conn_write c (sip_bytes m) of
         (Some e, c') \<Rightarrow> (Some (SipIO e), c')
       | (None, c') \<Rightarrow> (None, c'))"

subsection \<open>Reading back what was written\<close>

text \<open>What a reader makes of the headers of a written message.\<close>

definition seen_header :: "(string \<Rightarrow> string) \<Rightarrow> string \<times> string \<Rightarrow> string \<times> string" where
  "seen_header uni h = (toLower uni (trimSpace (fst h)), trimSpace (snd h))"

definition seen :: "(string \<Rightarrow> string) \<Rightarrow> sip_message \<Rightarrow> sip_message" where
  "seen uni m = m\<lparr>headers :=
    map (seen_header uni) (headers m) @ [(''content-length'', dec (length (body m)))]\<rparr>"

definition header_size :: "sip_message \<Rightarrow> nat" where
  "header_size m = length (sip_bytes m) - length (body m)"

definition one_line :: "string \<Rightarrow> bool" where
  "one_line s \<longleftrightarrow> CHR 0x0D \<notin> set s \<and> CHR 0x0A \<notin> set s"

text \<open>The messages a reader accepts.\<close>

definition sendable :: "(string \<Rightarrow> string) \<Rightarrow> sip_message \<Rightarrow> bool" where
  "sendable uni m \<longleftrightarrow>
    one_line (first m) \<and> start_line_ok (first m) \<and>
    list_all (\<lambda>(k, v). one_line k \<and> one_line v \<and> CHR '':'' \<notin> set k) (headers m) \<and>
    distinct (keys (headers (seen uni m))) \<and> [] \<notin> set (keys (headers (seen uni m))) \<and>
    list_all (\<lambda>k. header (seen uni m) k \<noteq> []) required \<and>
    header_size m \<le> header_limit \<and> length (body m) \<le> 2048"

lemma containsAny_crlf: "\<not> containsAny s crlf \<longleftrightarrow> one_line s"
  by (auto simp: containsAny_def one_line_def list_ex_iff)

lemma byte_of_lf: "byte_of_char c = 10 \<longleftrightarrow> c = CHR 0x0A"
proof -
  have "byte_of_char (CHR 0x0A) = 10" by (simp add: byte_of_char_def)
  then show ?thesis by (metis char_of_byte_of_char)
qed

lemma readSlice_line:
  assumes "CHR 0x0A \<notin> set s" and "rd c = bytes_of (s @ crlf) @ rest" and "length s + 2 \<le> header_limit"
  shows "readSlice c = (Inr (bytes_of (s @ crlf)), c\<lparr>rd := rest\<rparr>)"
proof -
  let ?t = "bytes_of (s @ [CHR 0x0D])"
  have rd: "rd c = ?t @ 10 # rest"
    using assms(2) by (simp add: bytes_of_def byte_of_char_def)
  have t: "\<forall>b \<in> set ?t. b \<noteq> 10"
    using assms(1) by (auto simp: bytes_of_def byte_of_lf)
  have "take header_limit (rd c) = ?t @ 10 # take (header_limit - length s - 2) rest"
    using assms(3) by (simp add: rd take_Cons' diff_diff_left)
  moreover from t have "takeWhile (\<lambda>b. b \<noteq> 10) (?t @ 10 # xs) = ?t" for xs
    by (simp add: takeWhile_append2)
  ultimately have "takeWhile (\<lambda>b. b \<noteq> 10) (take header_limit (rd c)) = ?t"
      "length ?t < length (take header_limit (rd c))" by simp_all
  moreover have "take (length ?t + 1) (rd c) = ?t @ [10]" "drop (length ?t + 1) (rd c) = rest"
    by (simp_all add: rd)
  moreover have "bytes_of (s @ crlf) = ?t @ [10]" by (simp add: bytes_of_def byte_of_char_def)
  ultimately show ?thesis by (simp add: readSlice_def Let_def)
qed

lemma read_line_line:
  assumes "CHR 0x0A \<notin> set s" and "rd c = bytes_of (s @ crlf) @ rest" and "used + length s + 2 \<le> header_limit"
  shows "read_line used c = (Inr (s, used + length s + 2), c\<lparr>rd := rest\<rparr>)"
proof -
  have "readSlice c = (Inr (bytes_of (s @ crlf)), c\<lparr>rd := rest\<rparr>)"
    using assms by (intro readSlice_line) auto
  moreover have "bytes_of (s @ crlf) ! length s = 13"
    by (simp add: bytes_of_def nth_append byte_of_char_def)
  moreover have "string_of (take (length s) (bytes_of (s @ crlf))) = s"
    by (simp add: bytes_of_append)
  ultimately show ?thesis using assms(3) by (simp add: read_line_def header_limit_def)
qed

lemma cut_first: "c \<notin> set k \<Longrightarrow> cut (k @ c # v) c = (k, v, True)"
  by (induction k) auto

lemma read_headers_lines:
  assumes "list_all (\<lambda>(k, v). one_line k \<and> one_line v \<and> CHR '':'' \<notin> set k) hs"
    and "distinct (keys (hs0 @ map (seen_header uni) hs))"
    and "[] \<notin> set (keys (map (seen_header uni) hs))"
    and "rd c = bytes_of (concat (map header_line hs) @ crlf) @ rest"
    and "used + length (concat (map header_line hs)) + 2 \<le> header_limit"
  shows "read_headers uni hs0 used c = (Inr (hs0 @ map (seen_header uni) hs), c\<lparr>rd := rest\<rparr>)"
  using assms
proof (induction hs arbitrary: hs0 used c)
  case Nil
  then have "read_line used c = (Inr ([], used + 2), c\<lparr>rd := rest\<rparr>)"
    using read_line_line [of "[]" c rest used] by simp
  then show ?case by (simp add: read_headers.simps [of uni hs0])
next
  case (Cons h hs)
  obtain k v where h: "h = (k, v)" by (cases h)
  let ?s = "k @ '': '' @ v"
  let ?c' = "c\<lparr>rd := bytes_of (concat (map header_line hs) @ crlf) @ rest\<rparr>"
  let ?used = "used + length ?s + 2"
  from Cons.prems(1) h have hd: "one_line k" "one_line v" "CHR '':'' \<notin> set k"
    and tl: "list_all (\<lambda>(k, v). one_line k \<and> one_line v \<and> CHR '':'' \<notin> set k) hs" by simp_all
  have line: "read_line used c = (Inr (?s, ?used), ?c')"
    using Cons.prems(4,5) hd h
    by (intro read_line_line) (auto simp: one_line_def header_line_def [of "(k, v)"] bytes_of_def)
  have cut: "cut ?s CHR '':'' = (k, CHR '' '' # v, True)" using cut_first [OF hd(3), of "CHR '' '' # v"] by simp
  have new: "toLower uni (trimSpace k) \<noteq> []" "map_of hs0 (toLower uni (trimSpace k)) = None"
    using Cons.prems(2,3) h by (auto simp: seen_header_def map_of_eq_None_iff)
  have "read_headers uni hs0 used c =
      read_headers uni (hs0 @ [(toLower uni (trimSpace k), trimSpace v)]) ?used ?c'"
    by (subst read_headers.simps) (simp add: line cut_first [OF hd(3)] new trimSpace_blank Let_def)
  also have "\<dots> = (Inr ((hs0 @ [(toLower uni (trimSpace k), trimSpace v)]) @ map (seen_header uni) hs),
      ?c'\<lparr>rd := rest\<rparr>)"
  proof (rule Cons.IH [OF tl])
    show "distinct (keys ((hs0 @ [(toLower uni (trimSpace k), trimSpace v)]) @ map (seen_header uni) hs))"
      using Cons.prems(2) by (simp add: h seen_header_def [of uni "(k, v)"])
    show "[] \<notin> set (keys (map (seen_header uni) hs))" using Cons.prems(3) by simp
    show "rd ?c' = bytes_of (concat (map header_line hs) @ crlf) @ rest" by simp
    show "?used + length (concat (map header_line hs)) + 2 \<le> header_limit"
      using Cons.prems(5) by (simp add: h header_line_def [of "(k, v)"])
  qed
  finally show ?case by (simp add: h seen_header_def [of uni "(k, v)"])
qed

lemma content_length_header: "seen_header uni (''Content-Length'', dec n) = (''content-length'', dec n)"
proof -
  have "tidy ''Content-Length''" by (simp add: tidy_def graphic_def)
  moreover have "toLower uni ''Content-Length'' = ''content-length''"
    by (simp add: toLower_def is_ascii_def ascii_lower_def Let_def) code_simp
  moreover have "tidy (dec n)" by (rule tidyI) (simp_all add: graphic_digits)
  ultimately show ?thesis by (simp add: seen_header_def trimSpace_tidy)
qed

text \<open>All header lines of a message, as written.\<close>

definition wire_headers :: "sip_message \<Rightarrow> (string \<times> string) list" where
  "wire_headers m = headers m @ [(''Content-Length'', dec (length (body m)))]"

lemma sip_bytes_lines:
  "sip_bytes m = bytes_of (first m @ crlf) @
    bytes_of (concat (map header_line (wire_headers m)) @ crlf) @ body m"
  by (simp add: sip_bytes_def wire_headers_def header_line_def bytes_of_def)

lemma headers_seen: "headers (seen uni m) = map (seen_header uni) (wire_headers m)"
  by (simp add: seen_def wire_headers_def content_length_header)

lemma header_seen_length:
  assumes "distinct (keys (headers (seen uni m)))"
  shows "header (seen uni m) ''content-length'' = dec (length (body m))"
proof -
  have "(''content-length'', dec (length (body m))) \<in> set (headers (seen uni m))"
    by (simp add: seen_def)
  with assms show ?thesis by (simp add: header_def map_of_eq_Some_iff [THEN iffD2])
qed

text \<open>The reader as a decoder of one message.\<close>

definition sip_dec :: "(string \<Rightarrow> string) \<Rightarrow> byte list \<Rightarrow> sip_error + sip_message \<times> byte list" where
  "sip_dec uni b =
    (case readSIP uni (conn_of b) of
       (Inl e, c) \<Rightarrow> Inl e
     | (Inr m, c) \<Rightarrow> Inr (m, rd c))"

lemma readSIP_sendable:
  assumes "sendable uni m" and "rd c = sip_bytes m @ rest"
  shows "readSIP uni c = (Inr (seen uni m), c\<lparr>rd := rest\<rparr>)"
proof -
  let ?hs = "wire_headers m"
  let ?lines = "concat (map header_line ?hs)"
  let ?c1 = "c\<lparr>rd := bytes_of (?lines @ crlf) @ body m @ rest\<rparr>"
  have len: "length (first m) + 2 + length ?lines + 2 \<le> header_limit"
    using assms(1) by (simp add: sendable_def header_size_def sip_bytes_lines)
  have one: "one_line (first m)" "start_line_ok (first m)"
    and dist: "distinct (keys (headers (seen uni m)))" using assms(1) by (simp_all add: sendable_def)
  have l1: "read_line 0 c = (Inr (first m, 0 + length (first m) + 2), ?c1)"
    using one len by (intro read_line_line) (auto simp: assms(2) sip_bytes_lines one_line_def)
  have digits: "one_line (dec n)" for n
    using dec_chars [of n] by (auto simp: one_line_def)
  have h: "read_headers uni [] (0 + length (first m) + 2) ?c1 =
      (Inr (headers (seen uni m)), c\<lparr>rd := body m @ rest\<rparr>)"
    using read_headers_lines [of ?hs "[]" uni ?c1 "body m @ rest" "0 + length (first m) + 2"]
      assms(1) len digits
    by (simp add: headers_seen [symmetric] sendable_def)
      (simp add: wire_headers_def one_line_def)
  define m0 where "m0 = \<lparr>first = first m, headers = headers (seen uni m), body = []\<rparr>"
  have same: "header m0 k = header (seen uni m) k" for k
    by (simp add: header_def m0_def)
  have "length (body m) < 2 ^ 63" using assms(1) by (simp add: sendable_def)
  then have "atoi (header m0 ''content-length'') = Some (int (length (body m)))"
    by (simp only: same header_seen_length [OF dist] atoi_dec)
  moreover have "find (\<lambda>k. header m0 k = []) required = None"
    using assms(1) by (simp add: sendable_def find_None_iff list_all_iff same)
  moreover have "readFull (length (body m)) (c\<lparr>rd := body m @ rest\<rparr>) = (Inr (body m), c\<lparr>rd := rest\<rparr>)"
    by (simp add: readFull_def)
  moreover have "m0\<lparr>body := body m\<rparr> = seen uni m" by (simp add: m0_def seen_def)
  moreover have "length (body m) \<le> 2048" using assms(1) by (simp add: sendable_def)
  ultimately show ?thesis
    using one(2) by (simp add: readSIP_def l1 [simplified] h [simplified] m0_def [symmetric] Let_def)
qed

interpretation sip_codec: frame_codec "sendable uni" sip_bytes "sip_dec uni" "seen uni" for uni
proof
  fix m rest
  assume "sendable uni m"
  from readSIP_sendable [OF this, of "conn_of (sip_bytes m @ rest)" rest]
  show "sip_dec uni (sip_bytes m @ rest) = Inr (seen uni m, rest)"
    by (simp add: sip_dec_def conn_of_def)
qed

subsection \<open>Bounds of what is read\<close>

lemma readSlice_consumes:
  "readSlice c = (Inr b, c') \<Longrightarrow> rd c = b @ rd c' \<and> c' = c\<lparr>rd := rd c'\<rparr>"
  by (auto simp: readSlice_def Let_def split: if_splits)

lemma read_line_consumes:
  assumes "read_line used c = (Inr (s, used'), c')"
  shows "\<exists>b. rd c = b @ rd c' \<and> used' = used + length b \<and> used' \<le> header_limit \<and> c' = c\<lparr>rd := rd c'\<rparr>"
proof -
  obtain b where b: "readSlice c = (Inr b, c')" "used' = used + length b" "used' \<le> header_limit"
    using assms by (auto simp: read_line_def header_limit_def split: prod.splits sum.splits if_splits)
  with readSlice_consumes [OF b(1)] show ?thesis by blast
qed

lemma read_headers_consumes:
  assumes "read_headers uni hs0 used c = (Inr hs, c')" and "distinct (keys hs0)" and "[] \<notin> set (keys hs0)"
  shows "(\<exists>b. rd c = b @ rd c' \<and> used + length b \<le> header_limit \<and> c' = c\<lparr>rd := rd c'\<rparr>) \<and>
    distinct (keys hs) \<and> [] \<notin> set (keys hs)"
  using assms
proof (induction uni hs0 used c rule: read_headers.induct)
  case (1 uni hs0 used c)
  obtain s used' c1 where l: "read_line used c = (Inr (s, used'), c1)"
    using "1.prems"(1) by (auto simp: read_headers.simps [of uni hs0] split: prod.splits sum.splits)
  then obtain b where b: "rd c = b @ rd c1" "used' = used + length b" "used' \<le> header_limit"
      "c1 = c\<lparr>rd := rd c1\<rparr>"
    using read_line_consumes by blast
  show ?case
  proof (cases "s = []")
    case True
    with l "1.prems" have "hs = hs0" "c' = c1" by (auto simp: read_headers.simps [of uni hs0])
    with b "1.prems"(2,3) show ?thesis by auto
  next
    case False
    obtain k0 v ok where k0: "cut s CHR '':'' = (k0, v, ok)" by (metis prod.exhaust)
    let ?k = "toLower uni (trimSpace k0)"
    from l k0 False "1.prems"(1) have ok: "ok" "?k \<noteq> []" "map_of hs0 ?k = None"
      and rest: "read_headers uni (hs0 @ [(?k, trimSpace v)]) used' c1 = (Inr hs, c')"
      by (auto simp: read_headers.simps [of uni hs0] Let_def split: if_splits)
    have "distinct (keys (hs0 @ [(?k, trimSpace v)]))" "[] \<notin> set (keys (hs0 @ [(?k, trimSpace v)]))"
      using ok "1.prems"(2,3) by (auto simp: map_of_eq_None_iff)
    with "1.IH" [OF l [symmetric] refl refl False k0 [symmetric] refl refl _ _ rest] ok obtain b' where
      b': "rd c1 = b' @ rd c'" "used' + length b' \<le> header_limit" "c' = c1\<lparr>rd := rd c'\<rparr>"
      and hs: "distinct (keys hs)" "[] \<notin> set (keys hs)"
      by auto
    have "c' = c\<lparr>rd := rd c'\<rparr>" using b(4) b'(3) by (metis netconn.surjective netconn.update_convs(1))
    with b b' hs show ?thesis by (intro conjI exI [of _ "b @ b'"]) simp_all
  qed
qed

text \<open>A sequence of \<open>send\<close> calls that stops at the first error.\<close>

fun send_all :: "netconn \<Rightarrow> sip_message list \<Rightarrow> sip_error option \<times> netconn" where
  "send_all c [] = (None, c)"
| "send_all c (m # ms) =
     (case send c m of
        (Some e, c') \<Rightarrow> (Some e, c')
      | (None, c') \<Rightarrow> send_all c' ms)"

lemma send_None:
  assumes "send c m = (None, c')"
  shows "wr c' = wr c @ sip_bytes m"
  using assms conn_writer.writeAll_complete [of c "sip_bytes m"]
  by (auto simp: send_def split: if_splits prod.splits option.splits)

lemma send_smooth:
  assumes "wsched c = []" and "sendable uni m"
  shows "send c m = (None, c\<lparr>wr := wr c @ sip_bytes m\<rparr>)"
proof -
  have "\<not> list_ex (\<lambda>(k, v). containsAny (k @ v) crlf) (headers m)"
    using assms(2) by (auto simp: sendable_def list_all_iff list_ex_iff containsAny_crlf one_line_def
        simp del: set_append) (auto simp: containsAny_def list_ex_iff)
  with assms(1) show ?thesis by (simp add: send_def writeAll_smooth)
qed

lemma send_all_None: "send_all c ms = (None, c') \<Longrightarrow> wr c' = wr c @ concat (map sip_bytes ms)"
proof (induction ms arbitrary: c)
  case (Cons m ms)
  then obtain c1 where c1: "send c m = (None, c1)" "send_all c1 ms = (None, c')"
    by (auto split: prod.splits option.splits)
  from send_None [OF c1(1)] Cons.IH [OF c1(2)] show ?case by simp
qed simp

subsection \<open>Properties\<close>

text \<open>C34: SIP messages survive the connection. When a sequence of acceptable messages has been
  sent, with any number of partial writes and the headers in any order, the receiver reads exactly
  these messages, header names lower-cased and values trimmed, bodies unchanged, one after the
  other, and stops exactly at the end of the last one.\<close>

theorem sip_stream_roundtrip:
  assumes "list_all (sendable uni) ms" and "send_all c ms = (None, c')"
  shows "\<exists>s. wr c' = wr c @ s \<and>
    read_frames (sip_dec uni) (length ms) (s @ rest) = Inr (map (seen uni) ms, rest)"
proof -
  have "read_frames (sip_dec uni) (length ms) (concat (map sip_bytes ms) @ rest) =
      Inr (map (seen uni) ms, rest)"
    using sip_codec.read_all [of ms uni rest] assms(1) by (simp add: list_all_iff)
  with send_all_None [OF assms(2)] show ?thesis by blast
qed

definition sample_message :: sip_message where
  "sample_message = \<lparr>first = ''MESSAGE sip:peer@tunnel.invalid SIP/2.0'',
    headers = [(''Via'', ''v''), (''To'', ''t''), (''CSeq'', ''1 MESSAGE''), (''From'', ''f''), (''Call-ID'', ''i'')],
    body = [13, 10, 0]\<rparr>"

lemma sample_sendable: "sendable (\<lambda>s. s) sample_message"
  by code_simp

theorem sip_stream_roundtrip_witness:
  "\<exists>s. read_frames (sip_dec (\<lambda>s. s)) 2 (s @ [7]) =
    Inr ([seen (\<lambda>s. s) sample_message, seen (\<lambda>s. s) sample_message], [7])"
proof -
  let ?c = "conn_of []\<lparr>wsched := [(5, None), (9, None)]\<rparr>"
  have "fst (send_all ?c [sample_message, sample_message]) = None" by code_simp
  then obtain c' where "send_all ?c [sample_message, sample_message] = (None, c')" by (metis prod.collapse)
  moreover have "list_all (sendable (\<lambda>s. s)) [sample_message, sample_message]"
    by (simp add: sample_sendable)
  ultimately show ?thesis
    using sip_stream_roundtrip [of "\<lambda>s. s" "[sample_message, sample_message]" ?c c' "[7]"]
    by (auto simp: numeral_2_eq_2 simp del: read_frames.simps)
qed

text \<open>C35: Hostile input is bounded. Whatever bytes arrive, a message \<open>readSIP\<close> returns took at most
  8192 bytes of header and 2048 bytes of body from the connection; its start line is a SIP one, no
  header name is empty or occurs twice, the five mandatory headers are present, and the body has
  exactly the announced length.\<close>

theorem readSIP_bounds:
  assumes "readSIP uni c = (Inr m, c')"
  shows "\<exists>head. rd c = head @ body m @ rd c' \<and> length head \<le> 8192 \<and> length (body m) \<le> 2048 \<and>
    start_line_ok (first m) \<and> distinct (keys (headers m)) \<and> [] \<notin> set (keys (headers m)) \<and>
    list_all (\<lambda>k. header m k \<noteq> []) [''via'', ''from'', ''to'', ''call-id'', ''cseq''] \<and>
    atoi (header m ''content-length'') = Some (int (length (body m)))"
proof -
  obtain start used c1 where l: "read_line 0 c = (Inr (start, used), c1)" and st: "start_line_ok start"
    using assms by (auto simp: readSIP_def split: prod.splits sum.splits if_splits)
  obtain hs c2 where h: "read_headers uni [] used c1 = (Inr hs, c2)"
    using assms l st by (auto simp: readSIP_def split: prod.splits sum.splits)
  define m0 where "m0 = \<lparr>first = start, headers = hs, body = []\<rparr>"
  obtain n where n: "atoi (header m0 ''content-length'') = Some n" "\<not> (n < 0 \<or> n > 2048)"
    using assms l st h by (auto simp: readSIP_def m0_def Let_def split: option.splits if_splits)
  have req: "find (\<lambda>k. header m0 k = []) required = None"
    using assms l st h n by (auto simp: readSIP_def m0_def Let_def split: option.splits)
  obtain b where b: "readFull (nat n) c2 = (Inr b, c')" "m = m0\<lparr>body := b\<rparr>"
    using assms l st h n req by (auto simp: readSIP_def m0_def Let_def split: prod.splits sum.splits)
  from b(1) have body: "rd c2 = b @ rd c'" "length b = nat n"
    by (auto simp: readFull_def split: if_splits)
  from read_line_consumes [OF l] obtain b1 where b1: "rd c = b1 @ rd c1" "used = length b1" by auto
  from read_headers_consumes [OF h] obtain b2 where b2: "rd c1 = b2 @ rd c2"
      "used + length b2 \<le> header_limit" and hs: "distinct (keys hs)" "[] \<notin> set (keys hs)" by auto
  have same: "header m k = header m0 k" "headers m = hs" "first m = start" for k
    by (simp_all add: b(2) m0_def header_def)
  have bm: "body m = b" by (simp add: b(2))
  have "nat n \<le> 2048" "int (nat n) = n" using n(2) by auto
  moreover have "list_all (\<lambda>k. header m k \<noteq> []) required"
    using req by (simp add: same find_None_iff list_all_iff)
  ultimately show ?thesis using b1 b2 body n(1) st hs
    by (intro exI [of _ "b1 @ b2"]) (simp add: bm same header_limit_def required_def)
qed

theorem readSIP_bounds_witness:
  "atoi (header (fst (projr (sip_dec (\<lambda>s. s) (sip_bytes sample_message @ [7])))) ''content-length'') = Some 3"
proof -
  have r: "readSIP (\<lambda>s. s) (conn_of (sip_bytes sample_message @ [7])) =
      (Inr (seen (\<lambda>s. s) sample_message), conn_of [7])"
    using readSIP_sendable [OF sample_sendable, of "conn_of (sip_bytes sample_message @ [7])" "[7]"]
    by (simp add: conn_of_def)
  have "length (body (seen (\<lambda>s. s) sample_message)) = 3" by (simp add: seen_def sample_message_def)
  with readSIP_bounds [OF r] r show ?thesis by (auto simp: sip_dec_def)
qed

end
