(* ===== verification/SipSession.thy ===== *)
theory SipSession
  imports SipMessage Transport "HOL-Library.Multiset"
begin

text \<open>
  The SIP connection of \<open>internal/transport/sip.go\<close>: the requests and replies it builds, the
  mutual authentication and the key derivation, the read loop with its replay and integrity
  checks, and the packet interface.

  Cryptography is a parameter: \<open>hmac\<close> is HMAC-SHA256, \<open>seal\<close> and \<open>unseal\<close> are AES-GCM under a
  key. The values of \<open>randomHex\<close> and of the nonce are arguments of the operations that draw
  them; \<open>ord\<close> is the order in which a \<open>range\<close> loop visits a header map; a boolean argument
  tells which of two ready cases a \<open>select\<close> takes.
\<close>

record crypto =
  hmac :: "byte list \<Rightarrow> byte list \<Rightarrow> byte list"
  sha256 :: "byte list \<Rightarrow> byte list"
  seal :: "byte list \<Rightarrow> byte list \<Rightarrow> byte list \<Rightarrow> byte list \<Rightarrow> byte list"
  unseal :: "byte list \<Rightarrow> byte list \<Rightarrow> byte list \<Rightarrow> byte list \<Rightarrow> byte list option"

text \<open>Sizes of GCM.\<close>

definition nonceSize :: nat where
  "nonceSize = 12"

definition overhead :: nat where
  "overhead = 16"

type_synonym headers = "(string \<times> string) list"

record sip_conn =
  net :: netconn
  tok :: string
  proto :: string
  sid :: string
  laddr :: string
  aead :: "byte list"
  receive_aead :: "byte list"
  seq :: "64 word"
  recv_seq :: "64 word"
  rx :: "packet list"
  ack :: "string list"
  responses :: "sip_message list"
  closed :: bool

text \<open>\<open>newSIP\<close>; the two keys are unset, which is the empty list.\<close>

definition newSIP :: "netconn \<Rightarrow> string \<Rightarrow> string \<Rightarrow> bool \<Rightarrow> string \<Rightarrow> sip_conn" where
  "newSIP n local token secure i =
    \<lparr>net = n, tok = token, proto = (if secure then ''TLS'' else ''TCP''), sid = i, laddr = local,
     aead = [], receive_aead = [], seq = 0, recv_seq = 0, rx = [], ack = [], responses = [],
     closed = False\<rparr>"

text \<open>\<open>Close\<close>, once.\<close>

definition sip_Close :: "sip_conn \<Rightarrow> sip_conn" where
  "sip_Close s = s\<lparr>closed := True\<rparr>"

subsection \<open>Requests and replies\<close>

definition set_headers :: "headers \<Rightarrow> headers \<Rightarrow> headers" where
  "set_headers extra h = foldl (\<lambda>h (k, v). AList.update k v h) h extra"

definition cseq_of :: "64 word \<Rightarrow> string \<Rightarrow> string" where
  "cseq_of n verb = dec (unat n) @ '' '' @ verb"

definition request_message ::
    "(headers \<Rightarrow> headers) \<Rightarrow> string \<Rightarrow> string \<Rightarrow> headers \<Rightarrow> byte list \<Rightarrow> sip_conn \<Rightarrow> sip_message" where
  "request_message ord branch verb extra b s =
    \<lparr>first = verb @ '' sip:peer@tunnel.invalid SIP/2.0'',
     headers = ord (set_headers extra
       [(''Via'', ''SIP/2.0/'' @ proto s @ '' '' @ laddr s @ '';branch=z9hG4bK'' @ branch),
        (''From'', ''<sip:peer@tunnel.invalid>;tag='' @ sid s),
        (''To'', ''<sip:peer@tunnel.invalid>''),
        (''Call-ID'', sid s),
        (''CSeq'', cseq_of (seq s) verb),
        (''Max-Forwards'', ''0''),
        (''Content-Type'', ''application/octet-stream'')]),
     body = b\<rparr>"

definition request ::
    "(headers \<Rightarrow> headers) \<Rightarrow> string \<Rightarrow> string \<Rightarrow> headers \<Rightarrow> byte list \<Rightarrow> sip_conn \<Rightarrow>
      (sip_error option \<times> string) \<times> sip_conn" where
  "request ord branch verb extra b s =
    (let s1 = s\<lparr>seq := seq s + 1\<rparr>
     in case send (net s1) (request_message ord branch verb extra b s1) of
          (e, n) \<Rightarrow> ((e, cseq_of (seq s1) verb), s1\<lparr>net := n\<rparr>))"

definition reply_message ::
    "(headers \<Rightarrow> headers) \<Rightarrow> string \<Rightarrow> headers \<Rightarrow> sip_message \<Rightarrow> sip_conn \<Rightarrow> sip_message" where
  "reply_message ord status extra m s =
    (let to' = header m ''to'' @ (if contains (header m ''to'') '';tag='' then [] else '';tag='' @ sid s)
     in \<lparr>first = ''SIP/2.0 '' @ status,
         headers = ord (set_headers extra
           [(''via'', header m ''via''), (''from'', header m ''from''), (''to'', to'),
            (''call-id'', header m ''call-id''), (''cseq'', header m ''cseq'')]),
         body = []\<rparr>)"

definition reply ::
    "(headers \<Rightarrow> headers) \<Rightarrow> string \<Rightarrow> headers \<Rightarrow> sip_message \<Rightarrow> sip_conn \<Rightarrow>
      sip_error option \<times> sip_conn" where
  "reply ord status extra m s =
    (case send (net s) (reply_message ord status extra m s) of (e, n) \<Rightarrow> (e, s\<lparr>net := n\<rparr>))"

subsection \<open>Proofs and keys\<close>

definition token_proof :: "crypto \<Rightarrow> string \<Rightarrow> string \<Rightarrow> string \<Rightarrow> string" where
  "token_proof cr token label challenge =
    hex_bytes (hmac cr (bytes_of token) (bytes_of (label @ challenge)))"

text \<open>\<open>makeKey\<close>: \<open>aes.NewCipher\<close> accepts keys of 16, 24 and 32 bytes.\<close>

definition make_key :: "crypto \<Rightarrow> string \<Rightarrow> string \<Rightarrow> string \<Rightarrow> sip_error + byte list" where
  "make_key cr token label challenge =
    (let k = sha256 cr (bytes_of (token_proof cr token label challenge))
     in if length k \<in> {16, 24, 32} then Inr k else Inl (KeyError ''aes: invalid key size''))"

definition setKey :: "crypto \<Rightarrow> string \<Rightarrow> bool \<Rightarrow> sip_conn \<Rightarrow> sip_error option \<times> sip_conn" where
  "setKey cr challenge server s =
    (let tx_label = (if server then ''server-key:'' else ''client-key:'');
         rx_label = (if server then ''client-key:'' else ''server-key:'')
     in case make_key cr (tok s) tx_label challenge of
          Inl e \<Rightarrow> (Some e, s\<lparr>aead := []\<rparr>)
        | Inr k \<Rightarrow>
            (case make_key cr (tok s) rx_label challenge of
               Inl e \<Rightarrow> (Some e, s\<lparr>aead := k, receive_aead := []\<rparr>)
             | Inr k' \<Rightarrow> (None, s\<lparr>aead := k, receive_aead := k'\<rparr>)))"

subsection \<open>Authentication\<close>

definition read_message ::
    "(string \<Rightarrow> string) \<Rightarrow> sip_conn \<Rightarrow> (sip_error + sip_message) \<times> sip_conn" where
  "read_message uni s = (case readSIP uni (net s) of (r, n) \<Rightarrow> (r, s\<lparr>net := n\<rparr>))"

text \<open>The random values of a client: its nonce and the branches of its two requests.\<close>

definition clientAuth ::
    "(string \<Rightarrow> string) \<Rightarrow> (headers \<Rightarrow> headers) \<Rightarrow> crypto \<Rightarrow> string \<times> string \<times> string \<Rightarrow> sip_conn \<Rightarrow>
      sip_error option \<times> sip_conn" where
  "clientAuth uni ord cr rnd s =
    (case rnd of (nonce, branch1, branch2) \<Rightarrow>
     case request ord branch1 ''OPTIONS'' [(''X-Tunnel-Version'', ''1''), (''X-Tunnel-Nonce'', nonce)] [] s of
       ((Some e, _), s1) \<Rightarrow> (Some e, s1)
     | ((None, cseq1), s1) \<Rightarrow>
     (case read_message uni s1 of
       (Inl e, s2) \<Rightarrow> (Some e, s2)
     | (Inr m, s2) \<Rightarrow>
         let challenge = header m ''x-tunnel-nonce''
         in if first m \<noteq> ''SIP/2.0 200 OK'' \<or> header m ''cseq'' \<noteq> cseq1 \<or> length challenge \<noteq> 64 \<or>
               \<not> go_equal (header m ''x-tunnel-proof'') (token_proof cr (tok s2) ''server:'' (nonce @ challenge))
            then (Some ServerAuthFailed, s2)
            else
              (case request ord branch2 ''OPTIONS''
                  [(''X-Tunnel-Proof'', token_proof cr (tok s2) ''client:'' (nonce @ challenge))] [] s2 of
                ((Some e, _), s3) \<Rightarrow> (Some e, s3)
              | ((None, cseq2), s3) \<Rightarrow>
                  (case read_message uni s3 of
                    (Inl e, s4) \<Rightarrow> (Some e, s4)
                  | (Inr m2, s4) \<Rightarrow>
                      if first m2 \<noteq> ''SIP/2.0 200 OK'' \<or> header m2 ''cseq'' \<noteq> cseq2
                      then (Some SipRejected, s4)
                      else setKey cr (nonce @ challenge) False s4))))"

definition serverAuth ::
    "(string \<Rightarrow> string) \<Rightarrow> (headers \<Rightarrow> headers) \<Rightarrow> crypto \<Rightarrow> string \<Rightarrow> sip_conn \<Rightarrow>
      sip_error option \<times> sip_conn" where
  "serverAuth uni ord cr challenge s =
    (case read_message uni s of
       (Inl e, s1) \<Rightarrow> (Some e, s1)
     | (Inr m, s1) \<Rightarrow>
         let nonce = header m ''x-tunnel-nonce''
         in if \<not> hasPrefix (first m) ''OPTIONS '' \<or> header m ''x-tunnel-version'' \<noteq> ''1'' \<or> length nonce \<noteq> 64
            then (Some BadHandshake, s1)
            else
              (case reply ord ''200 OK'' [(''X-Tunnel-Nonce'', challenge),
                  (''X-Tunnel-Proof'', token_proof cr (tok s1) ''server:'' (nonce @ challenge))] m s1 of
                (Some e, s2) \<Rightarrow> (Some e, s2)
              | (None, s2) \<Rightarrow>
                  (case read_message uni s2 of
                    (Inl e, s3) \<Rightarrow> (Some e, s3)
                  | (Inr m2, s3) \<Rightarrow>
                      if \<not> hasPrefix (first m2) ''OPTIONS '' \<or>
                          \<not> go_equal (header m2 ''x-tunnel-proof'')
                              (token_proof cr (tok s3) ''client:'' (nonce @ challenge))
                      then (Some BadClientProof, snd (reply ord ''403 Forbidden'' [] m2 s3))
                      else
                        (case reply ord ''200 OK'' [] m2 s3 of
                          (Some e, s4) \<Rightarrow> (Some e, s4)
                        | (None, s4) \<Rightarrow> setKey cr (nonce @ challenge) True s4))))"

subsection \<open>The read loop\<close>

text \<open>One iteration with the message it has read: \<open>None\<close> while it blocks, otherwise whether the
  loop goes on and the new state. \<open>d1\<close> and \<open>d2\<close> choose the \<open>done\<close> case of the two
  \<open>select\<close> statements when it is ready too.\<close>

definition ack_room :: nat where
  "ack_room = 8"

definition response_room :: nat where
  "response_room = 8"

definition rx_room :: nat where
  "rx_room = 256"

definition handle_response :: "bool \<Rightarrow> sip_message \<Rightarrow> sip_conn \<Rightarrow> (bool \<times> sip_conn) option" where
  "handle_response d1 m s =
    (if first m \<noteq> ''SIP/2.0 200 OK'' then Some (False, s)
     else if d1 \<and> closed s then Some (False, s)
     else if length (ack s) < ack_room then Some (True, s\<lparr>ack := ack s @ [header m ''cseq'']\<rparr>)
     else if closed s then Some (False, s)
     else None)"

text \<open>What a request must be: the sequence number and the packet in it.\<close>

definition open_request :: "crypto \<Rightarrow> sip_message \<Rightarrow> sip_conn \<Rightarrow> (64 word \<times> packet option) option" where
  "open_request cr m s =
    (let fs = GoStrings.fields (header m ''cseq'')
     in if length fs \<noteq> 2 \<or> fs ! 1 \<noteq> ''MESSAGE'' \<or> \<not> hasPrefix (first m) ''MESSAGE '' then None
        else case parseUint64 (fs ! 0) of
          None \<Rightarrow> None
        | Some n \<Rightarrow>
            if (of_nat n :: 64 word) \<le> recv_seq s then None
            else Some (of_nat n,
              if header m ''content-type'' \<noteq> ''application/octet-stream'' \<or>
                 length (body m) < nonceSize + overhead then None
              else case unseal cr (receive_aead s) (take nonceSize (body m)) (drop nonceSize (body m))
                         (bytes_of (header m ''cseq'')) of
                     None \<Rightarrow> None
                   | Some b \<Rightarrow> if length b = 0 \<or> length b > MTU then None else Some b))"

definition handle_message ::
    "crypto \<Rightarrow> bool \<times> bool \<Rightarrow> sip_message \<Rightarrow> sip_conn \<Rightarrow> (bool \<times> sip_conn) option" where
  "handle_message cr choice m s =
    (if hasPrefix (first m) ''SIP/2.0 '' then handle_response (fst choice) m s
     else case open_request cr m s of
       None \<Rightarrow> Some (False, s)
     | Some (n, None) \<Rightarrow> Some (False, s\<lparr>recv_seq := n\<rparr>)
     | Some (n, Some b) \<Rightarrow>
         let s1 = s\<lparr>recv_seq := n\<rparr>
         in if (fst choice \<and> closed s) \<or> \<not> length (responses s1) < response_room then Some (False, s1)
            else
              let s2 = s1\<lparr>responses := responses s1 @ [m]\<rparr>
              in if (snd choice \<and> closed s) \<or> \<not> length (rx s2) < rx_room then Some (False, s2)
                 else Some (True, s2\<lparr>rx := rx s2 @ [b]\<rparr>))"

subsection \<open>Packets\<close>

definition sip_ReadPacket :: "bool \<Rightarrow> sip_conn \<Rightarrow> ((sip_error + packet) \<times> sip_conn) option" where
  "sip_ReadPacket d s =
    (if d \<and> closed s then Some (Inl (SipIO EOF), s)
     else case rx s of
       b # bs \<Rightarrow> Some (Inr b, s\<lparr>rx := bs\<rparr>)
     | [] \<Rightarrow> if closed s then Some (Inl (SipIO EOF), s) else None)"

text \<open>\<open>WritePacket\<close> up to the wait: the sequence number is bound into the sealed body.\<close>

definition write_start ::
    "(headers \<Rightarrow> headers) \<Rightarrow> crypto \<Rightarrow> string \<Rightarrow> byte list \<Rightarrow> packet \<Rightarrow> sip_conn \<Rightarrow>
      (sip_error option \<times> string) \<times> sip_conn" where
  "write_start ord cr branch nonce b s =
    (let expected = cseq_of (seq s + 1) ''MESSAGE'';
         bd = nonce @ seal cr (aead s) nonce b (bytes_of expected)
     in request ord branch ''MESSAGE'' [] bd s)"

datatype waited = TakeAck | TakeDone | TakeTimer

text \<open>The final \<open>select\<close>; a case that is not ready is left for the timer.\<close>

definition write_wait :: "waited \<Rightarrow> string \<Rightarrow> sip_conn \<Rightarrow> sip_error option \<times> sip_conn" where
  "write_wait choice cseq s =
    (if choice = TakeAck \<and> ack s \<noteq> [] then
       (if hd (ack s) \<noteq> cseq then Some UnexpectedTransaction else None, s\<lparr>ack := tl (ack s)\<rparr>)
     else if choice = TakeDone \<and> closed s then (Some (SipIO EOF), s)
     else (Some TransactionTimeout, sip_Close s))"

text \<open>\<open>WritePacket\<close>; \<open>arrivals\<close> are the acknowledgements the read loop queues while it
  waits.\<close>

definition sip_WritePacket ::
    "(headers \<Rightarrow> headers) \<Rightarrow> crypto \<Rightarrow> (string \<times> byte list) \<times> string list \<times> waited \<Rightarrow> packet \<Rightarrow> sip_conn \<Rightarrow>
      sip_error option \<times> sip_conn" where
  "sip_WritePacket ord cr env b s =
    (case env of ((branch, nonce), arrivals, choice) \<Rightarrow>
       if length b = 0 \<or> length b > MTU then (Some PacketTooLarge, s)
       else case write_start ord cr branch nonce b s of
           ((Some e, _), s1) \<Rightarrow> (Some e, s1)
         | ((None, cseq), s1) \<Rightarrow> write_wait choice cseq (s1\<lparr>ack := ack s1 @ arrivals\<rparr>))"

definition rx_sized :: "sip_conn \<Rightarrow> bool" where
  "rx_sized s \<longleftrightarrow> list_all sized (rx s)"

lemma handle_message_sized:
  "handle_message cr choice m s = Some (go, s') \<Longrightarrow> rx_sized s \<Longrightarrow> rx_sized s'"
  by (auto simp: handle_message_def handle_response_def open_request_def rx_sized_def sized_alt Let_def
      split: if_splits option.splits)

interpretation sip_packets:
  packet_conn "\<lambda>env. sip_ReadPacket (snd (snd env) = TakeDone)"
    "\<lambda>env s b. sip_WritePacket ord cr env b s" rx_sized for ord cr
proof
  fix env :: "(string \<times> byte list) \<times> string list \<times> waited" and s b r s'
  show "rx_sized s'" if "rx_sized s" "sip_ReadPacket (snd (snd env) = TakeDone) s = Some (r, s')"
    using that by (auto simp: sip_ReadPacket_def rx_sized_def split: if_splits list.splits)
  show "sized b" if "rx_sized s" "sip_ReadPacket (snd (snd env) = TakeDone) s = Some (Inr b, s')"
    using that by (auto simp: sip_ReadPacket_def rx_sized_def split: if_splits list.splits)
  show "rx_sized (snd (sip_WritePacket ord cr env b s))" if "rx_sized s"
    using that by (auto simp: sip_WritePacket_def write_start_def request_def write_wait_def sip_Close_def
        rx_sized_def Let_def split: prod.splits option.splits)
  show "\<exists>e. sip_WritePacket ord cr env b s = (Some e, s)" if "\<not> sized b"
    using that by (cases env) (auto simp: sip_WritePacket_def sized_alt split: prod.splits)
qed

end
