(* ===== verification/SipExchange.thy ===== *)
theory SipExchange
  imports SipSession
begin

text \<open>
  What two SIP connections make of each other's messages: every request and reply the code builds
  is one the other side reads, whatever the order of its headers, with the fields the protocol
  relies on intact. From this follow the handshake, the packet transaction and, for arbitrary
  and hostile peers, the replay protection of a session.
\<close>

subsection \<open>Header names and values\<close>

text \<open>A value of the kind the code puts into a header: an address, a tag, a random hex string.\<close>

definition tame :: "string \<Rightarrow> bool" where
  "tame s \<longleftrightarrow> s \<noteq> [] \<and> list_all graphic s \<and> length s \<le> 512"

lemma seen_literal:
  assumes "is_ascii k" and "tidy k" and "map ascii_lower k = k'"
  shows "seen_header uni (k, v) = (k', trimSpace v)"
  using assms by (simp add: seen_header_def trimSpace_tidy toLower_def)

lemma lower_literals:
  "map ascii_lower ''Via'' = ''via''" "map ascii_lower ''From'' = ''from''"
  "map ascii_lower ''To'' = ''to''" "map ascii_lower ''Call-ID'' = ''call-id''"
  "map ascii_lower ''CSeq'' = ''cseq''" "map ascii_lower ''Max-Forwards'' = ''max-forwards''"
  "map ascii_lower ''Content-Type'' = ''content-type''"
  "map ascii_lower ''Content-Length'' = ''content-length''"
  "map ascii_lower ''X-Tunnel-Version'' = ''x-tunnel-version''"
  "map ascii_lower ''X-Tunnel-Nonce'' = ''x-tunnel-nonce''"
  "map ascii_lower ''X-Tunnel-Proof'' = ''x-tunnel-proof''"
  "map ascii_lower ''via'' = ''via''" "map ascii_lower ''from'' = ''from''"
  "map ascii_lower ''to'' = ''to''" "map ascii_lower ''call-id'' = ''call-id''"
  "map ascii_lower ''cseq'' = ''cseq''"
  by code_simp+

lemma seen_names:
  "seen_header uni (''Via'', v) = (''via'', trimSpace v)"
  "seen_header uni (''From'', v) = (''from'', trimSpace v)"
  "seen_header uni (''To'', v) = (''to'', trimSpace v)"
  "seen_header uni (''Call-ID'', v) = (''call-id'', trimSpace v)"
  "seen_header uni (''CSeq'', v) = (''cseq'', trimSpace v)"
  "seen_header uni (''Max-Forwards'', v) = (''max-forwards'', trimSpace v)"
  "seen_header uni (''Content-Type'', v) = (''content-type'', trimSpace v)"
  "seen_header uni (''X-Tunnel-Version'', v) = (''x-tunnel-version'', trimSpace v)"
  "seen_header uni (''X-Tunnel-Nonce'', v) = (''x-tunnel-nonce'', trimSpace v)"
  "seen_header uni (''X-Tunnel-Proof'', v) = (''x-tunnel-proof'', trimSpace v)"
  "seen_header uni (''via'', v) = (''via'', trimSpace v)"
  "seen_header uni (''from'', v) = (''from'', trimSpace v)"
  "seen_header uni (''to'', v) = (''to'', trimSpace v)"
  "seen_header uni (''call-id'', v) = (''call-id'', trimSpace v)"
  "seen_header uni (''cseq'', v) = (''cseq'', trimSpace v)"
  by (rule seen_literal, simp add: is_ascii_def, simp add: tidy_def graphic_def, rule lower_literals)+

lemma graphic_one_line: "list_all graphic s \<Longrightarrow> one_line s"
  by (auto simp: one_line_def list_all_iff graphic_def)

lemma tame_one_line: "tame s \<Longrightarrow> one_line s"
  by (simp add: tame_def graphic_one_line)

lemma one_line_append: "one_line (a @ b) \<longleftrightarrow> one_line a \<and> one_line b"
  by (auto simp: one_line_def)

lemma one_line_cons:
  "one_line (c # s) \<longleftrightarrow> c \<noteq> CHR 0x0D \<and> c \<noteq> CHR 0x0A \<and> one_line s" "one_line []"
  by (auto simp: one_line_def)

lemma one_line_dec: "one_line (dec n)"
  by (rule graphic_one_line [OF graphic_digits])

lemma tame_tidy: "tame s \<Longrightarrow> tidy s"
  by (simp add: tame_def tidyI)

lemma length_dec: "n < 10 ^ k \<Longrightarrow> 0 < k \<Longrightarrow> length (dec n) \<le> k"
proof (induction k arbitrary: n)
  case 0
  then show ?case by simp
next
  case (Suc k)
  show ?case
  proof (cases "n < 10")
    case True
    then show ?thesis by (simp add: dec.simps [of n])
  next
    case False
    then have "k \<noteq> 0" using Suc.prems(1) by (cases k) auto
    moreover have "n div 10 < 10 ^ k" using Suc.prems(1) by (simp add: less_mult_imp_div_less mult.commute)
    ultimately have "length (dec (n div 10)) \<le> k" using Suc.IH by simp
    with False show ?thesis by (simp add: dec.simps [of n])
  qed
qed

lemma length_dec_word: "length (dec (unat (w :: 64 word))) \<le> 20"
proof -
  have "unat w < 2 ^ 64" using unsigned_less [of w, where ?'a = nat] by simp
  also have "(2 :: nat) ^ 64 < 10 ^ 20" by simp
  finally show ?thesis by (intro length_dec) simp_all
qed

subsection \<open>The order of the headers does not matter\<close>

definition shuffles :: "(headers \<Rightarrow> headers) \<Rightarrow> bool" where
  "shuffles ord \<longleftrightarrow> (\<forall>h. mset (ord h) = mset h)"

lemma shuffles_set: "shuffles ord \<Longrightarrow> set (ord h) = set h"
  unfolding shuffles_def by (metis mset_eq_setD)

lemma map_of_perm:
  assumes "distinct (keys a)" and "mset a = mset b"
  shows "map_of a = map_of b"
proof
  fix k
  have "distinct (keys b)"
    using assms mset_eq_imp_distinct_iff [of "keys a" "keys b"] by (simp add: mset_map)
  moreover have "set a = set b" using assms(2) by (rule mset_eq_setD)
  ultimately show "map_of a k = map_of b k"
    using assms(1) by (metis map_of_eq_Some_iff option.exhaust)
qed

lemma sendable_perm:
  assumes "sendable uni m" and "mset hs = mset (headers m)"
  shows "sendable uni (m\<lparr>headers := hs\<rparr>)"
proof -
  let ?m = "m\<lparr>headers := hs\<rparr>"
  have set: "set hs = set (headers m)" using assms(2) by (rule mset_eq_setD)
  have ms: "mset (headers (seen uni ?m)) = mset (headers (seen uni m))"
    using assms(2) by (simp add: seen_def)
  have d: "distinct (keys (headers (seen uni m)))" using assms(1) by (simp add: sendable_def)
  have "mset (keys (headers (seen uni ?m))) = mset (keys (headers (seen uni m)))"
    using ms by (simp add: mset_map)
  then have d': "distinct (keys (headers (seen uni ?m)))" "set (keys (headers (seen uni ?m))) = set (keys (headers (seen uni m)))"
    using d mset_eq_imp_distinct_iff mset_eq_setD by blast+
  have "header (seen uni ?m) k = header (seen uni m) k" for k
    using map_of_perm [OF d'(1) ms] by (simp add: header_def)
  moreover have "sum_list (map (length \<circ> header_line) hs) = sum_list (map (length \<circ> header_line) (headers m))"
    using assms(2) by (metis mset_map sum_mset_sum_list)
  then have "length (concat (map header_line hs)) = length (concat (map header_line (headers m)))"
    by (simp add: length_concat comp_def)
  then have "header_size ?m = header_size m" by (simp add: header_size_def sip_bytes_def)
  ultimately show ?thesis using assms(1) d' set by (simp add: sendable_def list_all_iff)
qed

lemma header_seen:
  assumes "sendable uni m" and "(k, v) \<in> set (headers m)" and "seen_header uni (k, v) = (k', v')"
  shows "header (seen uni m) k' = v'"
proof -
  have "distinct (keys (headers (seen uni m)))" using assms(1) by (simp add: sendable_def)
  moreover have "(k', v') \<in> set (headers (seen uni m))"
    using assms(2,3) by (force simp: seen_def image_iff)
  ultimately show ?thesis by (simp add: header_def map_of_eq_Some_iff [THEN iffD2])
qed

subsection \<open>Requests and replies can be read\<close>

definition hello_headers :: "string \<Rightarrow> headers" where
  "hello_headers nonce = [(''X-Tunnel-Version'', ''1''), (''X-Tunnel-Nonce'', nonce)]"

definition proof_headers :: "string \<Rightarrow> headers" where
  "proof_headers p = [(''X-Tunnel-Proof'', p)]"

definition challenge_headers :: "string \<Rightarrow> string \<Rightarrow> headers" where
  "challenge_headers c p = [(''X-Tunnel-Nonce'', c), (''X-Tunnel-Proof'', p)]"

lemmas extra_defs = hello_headers_def proof_headers_def challenge_headers_def

definition well_named :: "sip_conn \<Rightarrow> bool" where
  "well_named s \<longleftrightarrow> (proto s = ''TCP'' \<or> proto s = ''TLS'') \<and> tame (laddr s) \<and> tame (sid s)"

lemma trim_values:
  "tame b \<Longrightarrow> trimSpace (''SIP/2.0/'' @ x @ b) = ''SIP/2.0/'' @ x @ b"
  "tame b \<Longrightarrow> trimSpace (''<sip:peer@tunnel.invalid>;tag='' @ b) = ''<sip:peer@tunnel.invalid>;tag='' @ b"
  "trimSpace ''<sip:peer@tunnel.invalid>'' = ''<sip:peer@tunnel.invalid>''"
  "trimSpace ''0'' = ''0''" "trimSpace ''1'' = ''1''"
  "trimSpace ''application/octet-stream'' = ''application/octet-stream''"
  by (rule trimSpace_tidy, auto simp: tame_def tidy_def graphic_def list_all_iff)+

lemma tidy_dec_append: "tidy b \<Longrightarrow> tidy (dec n @ b)"
  using graphic_digits [of n] by (cases "dec n") (auto simp: tidy_def)

lemma tidy_cseq: "verb = ''OPTIONS'' \<or> verb = ''MESSAGE'' \<Longrightarrow> tidy (cseq_of n verb)"
proof -
  assume "verb = ''OPTIONS'' \<or> verb = ''MESSAGE''"
  then have l: "verb \<noteq> []" "graphic (last verb)" by (auto simp: graphic_def)
  obtain c cs where c: "dec (unat n) = c # cs" by (cases "dec (unat n)") auto
  then have "graphic c" using graphic_digits [of "unat n"] by (simp add: list_all_iff)
  with c l show ?thesis by (simp add: cseq_of_def tidy_def)
qed

lemma start_lines:
  "start_line_ok ''OPTIONS sip:peer@tunnel.invalid SIP/2.0''"
  "start_line_ok ''MESSAGE sip:peer@tunnel.invalid SIP/2.0''"
  "start_line_ok ''SIP/2.0 200 OK''"
  by code_simp+

definition request_extra :: "headers \<Rightarrow> bool" where
  "request_extra extra \<longleftrightarrow> extra = [] \<or> (\<exists>n. tame n \<and> extra = hello_headers n) \<or>
    (\<exists>p. tame p \<and> extra = proof_headers p)"

definition base_headers :: "string \<Rightarrow> string \<Rightarrow> sip_conn \<Rightarrow> headers" where
  "base_headers branch verb s =
    [(''Via'', ''SIP/2.0/'' @ proto s @ '' '' @ laddr s @ '';branch=z9hG4bK'' @ branch),
     (''From'', ''<sip:peer@tunnel.invalid>;tag='' @ sid s),
     (''To'', ''<sip:peer@tunnel.invalid>''),
     (''Call-ID'', sid s),
     (''CSeq'', cseq_of (seq s) verb),
     (''Max-Forwards'', ''0''),
     (''Content-Type'', ''application/octet-stream'')]"

lemma set_headers_request:
  "request_extra extra \<Longrightarrow> set_headers extra (base_headers branch verb s) =
    base_headers branch verb s @ extra"
  by (auto simp: request_extra_def base_headers_def extra_defs set_headers_def)

lemma request_message_headers:
  assumes "request_extra extra"
  shows "request_message ord branch verb extra b s =
    \<lparr>first = verb @ '' sip:peer@tunnel.invalid SIP/2.0'',
     headers = ord (base_headers branch verb s @ extra), body = b\<rparr>"
  using set_headers_request [OF assms, of branch verb s]
  by (simp add: request_message_def base_headers_def)

lemma header_line_length: "length (header_line (k, v)) = length k + length v + 4"
  by (simp add: header_line_def)

lemma header_size_sum:
  "header_size m = length (first m) + sum_list (map (length \<circ> header_line) (headers m)) +
    length (dec (length (body m))) + 22"
  by (simp add: header_size_def sip_bytes_def length_concat comp_def)

lemma length_dec_body: "length b \<le> 2048 \<Longrightarrow> length (dec (length b)) \<le> 4"
  by (rule length_dec) simp_all

lemma base_headers_ok:
  assumes "well_named s" and "tame branch" and "verb = ''OPTIONS'' \<or> verb = ''MESSAGE''"
  shows "list_all (\<lambda>(k, v). one_line k \<and> one_line v \<and> CHR '':'' \<notin> set k) (base_headers branch verb s)"
    and "map (seen_header uni) (base_headers branch verb s) =
      [(''via'', ''SIP/2.0/'' @ proto s @ '' '' @ laddr s @ '';branch=z9hG4bK'' @ branch),
       (''from'', ''<sip:peer@tunnel.invalid>;tag='' @ sid s),
       (''to'', ''<sip:peer@tunnel.invalid>''),
       (''call-id'', sid s),
       (''cseq'', cseq_of (seq s) verb),
       (''max-forwards'', ''0''),
       (''content-type'', ''application/octet-stream'')]"
    and "sum_list (map (length \<circ> header_line) (base_headers branch verb s)) \<le> 2400"
proof -
  have one: "one_line (laddr s)" "one_line (sid s)" "one_line branch" "one_line (proto s)" "one_line verb"
    using assms by (auto simp: well_named_def tame_one_line, auto simp: one_line_def)
  show "list_all (\<lambda>(k, v). one_line k \<and> one_line v \<and> CHR '':'' \<notin> set k) (base_headers branch verb s)"
    using one by (simp add: base_headers_def one_line_append cseq_of_def one_line_dec) (simp add: one_line_def)
  have "trimSpace (sid s) = sid s" "trimSpace (cseq_of (seq s) verb) = cseq_of (seq s) verb"
    using assms by (simp_all add: well_named_def trimSpace_tidy tame_tidy tidy_cseq)
  moreover have "trimSpace (''SIP/2.0/'' @ proto s @ '' '' @ laddr s @ '';branch=z9hG4bK'' @ branch) =
      ''SIP/2.0/'' @ proto s @ '' '' @ laddr s @ '';branch=z9hG4bK'' @ branch"
    using trim_values(1) [OF assms(2), of "proto s @ '' '' @ laddr s @ '';branch=z9hG4bK''"] by simp
  moreover have "trimSpace (''<sip:peer@tunnel.invalid>;tag='' @ sid s) = ''<sip:peer@tunnel.invalid>;tag='' @ sid s"
    using assms(1) by (intro trim_values(2)) (simp add: well_named_def)
  ultimately show "map (seen_header uni) (base_headers branch verb s) =
      [(''via'', ''SIP/2.0/'' @ proto s @ '' '' @ laddr s @ '';branch=z9hG4bK'' @ branch),
       (''from'', ''<sip:peer@tunnel.invalid>;tag='' @ sid s),
       (''to'', ''<sip:peer@tunnel.invalid>''),
       (''call-id'', sid s),
       (''cseq'', cseq_of (seq s) verb),
       (''max-forwards'', ''0''),
       (''content-type'', ''application/octet-stream'')]"
    unfolding base_headers_def by (simp only: list.map seen_names trim_values)
  have "length (laddr s) \<le> 512" "length (sid s) \<le> 512" "length branch \<le> 512" "length (proto s) = 3"
      "length verb = 7"
    using assms by (auto simp: well_named_def tame_def)
  then show "sum_list (map (length \<circ> header_line) (base_headers branch verb s)) \<le> 2400"
    using length_dec_word [of "seq s"] by (simp add: base_headers_def header_line_length cseq_of_def)
qed

lemma request_extra_ok:
  assumes "request_extra extra"
  shows "list_all (\<lambda>(k, v). one_line k \<and> one_line v \<and> CHR '':'' \<notin> set k) extra"
    and "set (keys (map (seen_header uni) extra)) \<subseteq> {''x-tunnel-version'', ''x-tunnel-nonce'', ''x-tunnel-proof''}"
    and "distinct (keys (map (seen_header uni) extra))"
    and "sum_list (map (length \<circ> header_line) extra) \<le> 600"
  using assms
  by (auto simp: request_extra_def extra_defs seen_names tame_one_line header_line_length)
    (auto simp: one_line_def tame_def)

lemma sendableI:
  assumes "one_line (first m)" and "start_line_ok (first m)"
    and "list_all (\<lambda>(k, v). one_line k \<and> one_line v \<and> CHR '':'' \<notin> set k) (headers m)"
    and "distinct (keys (map (seen_header uni) (headers m)))"
    and "[] \<notin> set (keys (map (seen_header uni) (headers m)))"
    and "''content-length'' \<notin> set (keys (map (seen_header uni) (headers m)))"
    and "\<And>k. k \<in> set required \<Longrightarrow> \<exists>v. map_of (map (seen_header uni) (headers m)) k = Some v \<and> v \<noteq> []"
    and "header_size m \<le> header_limit" and "length (body m) \<le> 2048"
  shows "sendable uni m"
proof -
  have "header (seen uni m) k \<noteq> []" if "k \<in> set required" for k
    using assms(7) [OF that] by (auto simp: header_def seen_def map_add_Some_iff map_of_append)
  with assms show ?thesis by (simp add: sendable_def seen_def list_all_iff)
qed

lemma request_sendable:
  assumes "well_named s" and "tame branch" and "shuffles ord"
    and "verb = ''OPTIONS'' \<or> verb = ''MESSAGE''" and "request_extra extra" and "length b \<le> 2048"
  shows "sendable uni (request_message ord branch verb extra b s)"
proof -
  let ?hs = "base_headers branch verb s @ extra"
  let ?m = "\<lparr>first = verb @ '' sip:peer@tunnel.invalid SIP/2.0'', headers = ?hs, body = b\<rparr>"
  note base = base_headers_ok [OF assms(1,2,4)]
  note ext = request_extra_ok [OF assms(5)]
  have ne: "sid s \<noteq> []" "cseq_of (seq s) verb \<noteq> []"
    using assms(1) by (auto simp: well_named_def tame_def cseq_of_def)
  have "sendable uni ?m"
  proof (rule sendableI)
    show "one_line (first ?m)" "start_line_ok (first ?m)"
      using assms(4) start_lines by (auto simp: one_line_def)
    show "list_all (\<lambda>(k, v). one_line k \<and> one_line v \<and> CHR '':'' \<notin> set k) (headers ?m)"
      using base(1) ext(1) by simp
    show "distinct (keys (map (seen_header uni) (headers ?m)))"
      using ext(2,3) [of uni] by (auto simp add: base(2) simp del: map_map)
    show "[] \<notin> set (keys (map (seen_header uni) (headers ?m)))"
      using ext(2) [of uni] by (auto simp add: base(2) simp del: map_map)
    show "''content-length'' \<notin> set (keys (map (seen_header uni) (headers ?m)))"
      using ext(2) [of uni] by (auto simp add: base(2) simp del: map_map)
    show "\<exists>v. map_of (map (seen_header uni) (headers ?m)) k = Some v \<and> v \<noteq> []" if "k \<in> set required" for k
      using that ne by (auto simp add: base(2) required_def map_add_Some_iff map_of_append)
    have "length (first ?m) \<le> 50" using assms(4) by auto
    with base(3) ext(4) length_dec_body [OF assms(6)] show "header_size ?m \<le> header_limit"
      by (simp add: header_size_sum header_limit_def)
    show "length (body ?m) \<le> 2048" using assms(6) by simp
  qed
  from sendable_perm [OF this, of "ord ?hs"] assms(3) show ?thesis
    by (simp add: request_message_headers [OF assms(5)] shuffles_def)
qed

definition reply_extra :: "headers \<Rightarrow> bool" where
  "reply_extra extra \<longleftrightarrow> extra = [] \<or> (\<exists>c p. tame c \<and> tame p \<and> extra = challenge_headers c p)"

text \<open>A message a reply can be built from.\<close>

definition quotable :: "string \<Rightarrow> bool" where
  "quotable v \<longleftrightarrow> tidy v \<and> one_line v \<and> length v \<le> 1100"

definition repliable :: "sip_message \<Rightarrow> bool" where
  "repliable m \<longleftrightarrow> list_all (\<lambda>k. quotable (header m k)) required"

definition reply_to :: "sip_message \<Rightarrow> sip_conn \<Rightarrow> string" where
  "reply_to m s = header m ''to'' @ (if contains (header m ''to'') '';tag='' then [] else '';tag='' @ sid s)"

definition reply_headers :: "sip_message \<Rightarrow> sip_conn \<Rightarrow> headers" where
  "reply_headers m s = [(''via'', header m ''via''), (''from'', header m ''from''), (''to'', reply_to m s),
    (''call-id'', header m ''call-id''), (''cseq'', header m ''cseq'')]"

lemma reply_message_headers:
  assumes "reply_extra extra"
  shows "reply_message ord status extra m s =
    \<lparr>first = ''SIP/2.0 '' @ status, headers = ord (reply_headers m s @ extra), body = []\<rparr>"
  using assms
  by (auto simp: reply_message_def reply_headers_def reply_to_def reply_extra_def set_headers_def
      extra_defs Let_def)

lemma reply_to_tidy:
  assumes "tidy (header m ''to'')" and "tame (sid s)"
  shows "tidy (reply_to m s)"
  using tidy_append [OF assms(1) tame_tidy [OF assms(2)], of "'';tag=''"] assms(1)
  by (simp add: reply_to_def)

lemma reply_sendable:
  assumes "repliable m" and "tame (sid s)" and "shuffles ord" and "reply_extra extra"
  shows "sendable uni (reply_message ord ''200 OK'' extra m s)"
proof -
  let ?hs = "reply_headers m s @ extra"
  let ?m = "\<lparr>first = ''SIP/2.0 '' @ ''200 OK'', headers = ?hs, body = []\<rparr>"
  have req: "tidy (header m k) \<and> one_line (header m k) \<and> length (header m k) \<le> 1100"
    if "k \<in> set required" for k
    using assms(1) that by (simp add: repliable_def list_all_iff quotable_def)
  note r = req [of "''via''"] req [of "''from''"] req [of "''to''"] req [of "''call-id''"] req [of "''cseq''"]
  have to: "tidy (reply_to m s)" "one_line (reply_to m s)" "length (reply_to m s) \<le> 1700"
    using r assms(2) reply_to_tidy [of m s] tame_one_line [OF assms(2)]
    by (auto simp: required_def reply_to_def one_line_append tame_def) (auto simp: one_line_def)
  have seen: "map (seen_header uni) (reply_headers m s) =
      [(''via'', header m ''via''), (''from'', header m ''from''), (''to'', reply_to m s),
       (''call-id'', header m ''call-id''), (''cseq'', header m ''cseq'')]"
    using r to by (simp add: reply_headers_def seen_names trimSpace_tidy required_def)
  have ext: "list_all (\<lambda>(k, v). one_line k \<and> one_line v \<and> CHR '':'' \<notin> set k) extra"
    "set (keys (map (seen_header uni) extra)) \<subseteq> {''x-tunnel-nonce'', ''x-tunnel-proof''}"
    "distinct (keys (map (seen_header uni) extra))"
    "sum_list (map (length \<circ> header_line) extra) \<le> 1100"
    using assms(4)
    by (auto simp: reply_extra_def extra_defs seen_names tame_one_line header_line_length)
      (auto simp: one_line_def tame_def)
  have ne: "header m k \<noteq> []" if "k \<in> set required" for k using req [OF that] by (auto simp: tidy_def)
  have "sendable uni ?m"
  proof (rule sendableI)
    show "one_line (first ?m)" "start_line_ok (first ?m)"
      using start_lines(3) by (simp_all add: one_line_def)
    show "list_all (\<lambda>(k, v). one_line k \<and> one_line v \<and> CHR '':'' \<notin> set k) (headers ?m)"
      using r to ext(1) by (simp add: reply_headers_def required_def) (simp add: one_line_def)
    show "distinct (keys (map (seen_header uni) (headers ?m)))"
      using ext(2,3) by (auto simp add: seen simp del: map_map)
    show "[] \<notin> set (keys (map (seen_header uni) (headers ?m)))"
      using ext(2) by (auto simp add: seen simp del: map_map)
    show "''content-length'' \<notin> set (keys (map (seen_header uni) (headers ?m)))"
      using ext(2) by (auto simp add: seen simp del: map_map)
    show "\<exists>v. map_of (map (seen_header uni) (headers ?m)) k = Some v \<and> v \<noteq> []" if "k \<in> set required" for k
      using that ne to(1)
      by (auto simp add: seen required_def map_add_Some_iff map_of_append tidy_def)
    show "header_size ?m \<le> header_limit"
      using r to(3) ext(4) length_dec [of 0 1]
      by (simp add: header_size_sum header_limit_def reply_headers_def header_line_length required_def)
  qed simp
  from sendable_perm [OF this, of "ord ?hs"] assms(3) show ?thesis
    by (simp add: reply_message_headers [OF assms(4)] shuffles_def)
qed

text \<open>What the other side sees in them.\<close>

lemma request_seen:
  fixes uni :: "string \<Rightarrow> string"
  assumes "well_named s" and "tame branch" and "shuffles ord"
    and "verb = ''OPTIONS'' \<or> verb = ''MESSAGE''" and "request_extra extra" and "length b \<le> 2048"
  defines "m \<equiv> seen uni (request_message ord branch verb extra b s)"
  shows "first m = verb @ '' sip:peer@tunnel.invalid SIP/2.0''" and "body m = b"
    and "header m ''cseq'' = cseq_of (seq s) verb" and "header m ''content-type'' = ''application/octet-stream''"
    and "repliable m"
    and "extra = hello_headers n \<Longrightarrow> header m ''x-tunnel-version'' = ''1'' \<and> header m ''x-tunnel-nonce'' = trimSpace n"
    and "extra = proof_headers p \<Longrightarrow> header m ''x-tunnel-proof'' = trimSpace p"
proof -
  let ?m = "request_message ord branch verb extra b s"
  have send: "sendable uni ?m" by (rule request_sendable [OF assms(1-6)])
  have m: "first ?m = verb @ '' sip:peer@tunnel.invalid SIP/2.0''" "body ?m = b"
    and hs: "set (headers ?m) = set (base_headers branch verb s @ extra)"
    by (simp_all add: request_message_headers [OF assms(5)] shuffles_set [OF assms(3)])
  show "first m = verb @ '' sip:peer@tunnel.invalid SIP/2.0''" "body m = b"
    using m by (simp_all add: m_def seen_def)
  have h: "header m k' = v'" if "(k, v) \<in> set (base_headers branch verb s @ extra)"
      "seen_header uni (k, v) = (k', v')" for k v k' v'
    using header_seen [OF send, of k v k' v'] that hs by (simp add: m_def)
  have base: "header m (fst (seen_header uni h)) = snd (seen_header uni h)"
    if "h \<in> set (base_headers branch verb s)" for h
    using that by (cases h) (auto intro!: h [of "fst h" "snd h"])
  have all: "list_all (\<lambda>(k, v). header m k = v) (map (seen_header uni) (base_headers branch verb s))"
    using base by (auto simp: list_all_iff split_beta)
  note vals = all [unfolded base_headers_ok(2) [OF assms(1,2,4)], simplified]
  show "header m ''cseq'' = cseq_of (seq s) verb" "header m ''content-type'' = ''application/octet-stream''"
    using vals by simp_all
  show "extra = hello_headers n \<Longrightarrow> header m ''x-tunnel-version'' = ''1'' \<and> header m ''x-tunnel-nonce'' = trimSpace n"
    using h [of "''X-Tunnel-Version''" "''1''" "''x-tunnel-version''" "''1''"]
      h [of "''X-Tunnel-Nonce''" n "''x-tunnel-nonce''" "trimSpace n"]
    by (simp add: seen_names hello_headers_def trim_values)
  show "extra = proof_headers p \<Longrightarrow> header m ''x-tunnel-proof'' = trimSpace p"
    using h [of "''X-Tunnel-Proof''" p "''x-tunnel-proof''" "trimSpace p"]
    by (simp add: seen_names proof_headers_def)
  have tame: "tame (laddr s)" "tame (sid s)" "length (proto s) = 3" "one_line (proto s)"
    using assms(1) by (auto simp: well_named_def one_line_def)
  then have one: "one_line (laddr s)" "one_line (sid s)" "one_line branch"
    and len: "length (laddr s) \<le> 512" "length (sid s) \<le> 512" "length branch \<le> 512"
    using assms(2) by (simp_all add: tame_one_line) (simp_all add: tame_def)
  have lit: "one_line ''SIP/2.0/''" "one_line '' ''" "one_line '';branch=z9hG4bK''"
    "one_line ''<sip:peer@tunnel.invalid>;tag=''" "one_line ''<sip:peer@tunnel.invalid>''" "one_line verb"
    using assms(4) by (auto simp: one_line_def)
  have "quotable (header m ''via'')"
  proof -
    have "tidy (''SIP/2.0/'' @ (proto s @ '' '' @ laddr s @ '';branch=z9hG4bK'') @ branch)"
      by (rule tidy_append [OF _ tame_tidy [OF assms(2)]]) (simp add: tidy_def graphic_def)
    moreover have "one_line (header m ''via'')"
      using vals one tame(4) by (simp add: one_line_append one_line_cons)
    ultimately show ?thesis using vals len tame(3) by (simp add: quotable_def)
  qed
  moreover have "quotable (header m ''from'')"
  proof -
    have "tidy (''<sip:peer@tunnel.invalid>;tag='' @ [] @ sid s)"
      by (rule tidy_append [OF _ tame_tidy [OF tame(2)]]) (simp add: tidy_def graphic_def)
    moreover have "one_line (header m ''from'')"
      using vals one by (simp add: one_line_append one_line_cons)
    ultimately show ?thesis using vals len by (simp add: quotable_def)
  qed
  moreover have "quotable (header m ''to'')" using vals lit(5) by (simp add: quotable_def tidy_def graphic_def)
  moreover have "quotable (header m ''call-id'')"
    using vals tame_tidy [OF tame(2)] one(2) len(2) by (simp add: quotable_def)
  moreover have "quotable (header m ''cseq'')"
  proof -
    have "one_line (cseq_of (seq s) verb)"
      unfolding cseq_of_def one_line_append using lit(2,6) one_line_dec by blast
    moreover have "length (cseq_of (seq s) verb) \<le> 30"
      using length_dec_word [of "seq s"] assms(4) by (auto simp: cseq_of_def)
    ultimately show ?thesis using vals tidy_cseq [OF assms(4), of "seq s"] by (simp add: quotable_def)
  qed
  ultimately show "repliable m" by (simp add: repliable_def required_def)
qed

lemma reply_seen:
  fixes uni :: "string \<Rightarrow> string"
  assumes "repliable m" and "tame (sid s)" and "shuffles ord" and "reply_extra extra"
  defines "r \<equiv> seen uni (reply_message ord ''200 OK'' extra m s)"
  shows "first r = ''SIP/2.0 200 OK''" and "header r ''cseq'' = header m ''cseq''"
    and "extra = challenge_headers c p \<Longrightarrow> header r ''x-tunnel-nonce'' = trimSpace c \<and>
      header r ''x-tunnel-proof'' = trimSpace p"
proof -
  let ?m = "reply_message ord ''200 OK'' extra m s"
  have send: "sendable uni ?m" by (rule reply_sendable [OF assms(1-4)])
  have hs: "set (headers ?m) = set (reply_headers m s @ extra)"
    by (simp add: reply_message_headers [OF assms(4)] shuffles_set [OF assms(3)])
  show "first r = ''SIP/2.0 200 OK''"
    by (simp add: r_def seen_def reply_message_headers [OF assms(4)])
  have h: "header r k' = v'" if "(k, v) \<in> set (reply_headers m s @ extra)"
      "seen_header uni (k, v) = (k', v')" for k v k' v'
    using header_seen [OF send, of k v k' v'] that hs by (simp add: r_def)
  have "tidy (header m ''cseq'')" using assms(1) by (simp add: repliable_def required_def quotable_def)
  then show "header r ''cseq'' = header m ''cseq''"
    using h [of "''cseq''" "header m ''cseq''" "''cseq''" "header m ''cseq''"]
    by (simp add: reply_headers_def seen_names trimSpace_tidy)
  show "extra = challenge_headers c p \<Longrightarrow> header r ''x-tunnel-nonce'' = trimSpace c \<and>
      header r ''x-tunnel-proof'' = trimSpace p"
    using h [of "''X-Tunnel-Nonce''" c "''x-tunnel-nonce''" "trimSpace c"]
      h [of "''X-Tunnel-Proof''" p "''x-tunnel-proof''" "trimSpace p"]
    by (simp add: seen_names challenge_headers_def)
qed

end
