(* ===== verification/SipProtocol.thy ===== *)
theory SipProtocol
  imports SipExchange
begin

text \<open>
  What the SIP connection promises: the handshake completes between two ends with the same token
  and mirrors their keys, it succeeds against an arbitrary peer only with a proof of the token
  over a fresh challenge, a packet written at one end is the packet read at the other and is
  acknowledged, and a session never accepts a message twice, whatever arrives.
\<close>

text \<open>What the documentation of AES-GCM, HMAC-SHA256 and SHA-256 says of their results.\<close>

definition gcm :: "crypto \<Rightarrow> bool" where
  "gcm cr \<longleftrightarrow> (\<forall>k n p a. unseal cr k n (seal cr k n p a) a = Some p \<and>
    length (seal cr k n p a) = length p + overhead)"

definition digests :: "crypto \<Rightarrow> bool" where
  "digests cr \<longleftrightarrow> (\<forall>k d. length (hmac cr k d) = 32) \<and> (\<forall>d. length (sha256 cr d) = 32)"

lemma send_frame: "send n m = (e, n') \<Longrightarrow> rd n' = rd n \<and> rd_err n' = rd_err n"
  using writeAll_frame [of n "sip_bytes m"]
  by (auto simp: send_def split: if_splits prod.splits option.splits)

lemma read_message_sendable:
  assumes "sendable uni m" and "rd (net s) = sip_bytes m @ rest"
  shows "read_message uni s = (Inr (seen uni m), s\<lparr>net := (net s)\<lparr>rd := rest\<rparr>\<rparr>)"
  using readSIP_sendable [OF assms] by (simp add: read_message_def)

subsection \<open>The packet transaction\<close>

lemma cseq_fields: "GoStrings.fields (cseq_of n ''MESSAGE'') = [dec (unat n), ''MESSAGE'']"
  using fields_two [OF graphic_digits, of "unat n" "''MESSAGE''"]
  by (simp add: cseq_of_def graphic_def)

lemma parse_cseq: "parseUint64 (dec (unat (n :: 64 word))) = Some (unat n)"
  using unsigned_less [of n, where ?'a = nat] by (intro parseUint64_dec) simp

lemma open_request_written:
  assumes "gcm cr" and "length nonce = nonceSize" and "sized b" and "recv_seq r < n"
    and "header m ''cseq'' = cseq_of n ''MESSAGE''" and "hasPrefix (first m) ''MESSAGE ''"
    and "header m ''content-type'' = ''application/octet-stream''"
    and "body m = nonce @ seal cr (receive_aead r) nonce b (bytes_of (cseq_of n ''MESSAGE''))"
  shows "open_request cr m r = Some (n, Some b)"
proof -
  have "length (body m) \<ge> nonceSize + overhead" using assms(1,2,8) by (simp add: gcm_def)
  moreover have "unseal cr (receive_aead r) (take nonceSize (body m)) (drop nonceSize (body m))
      (bytes_of (header m ''cseq'')) = Some b"
    using assms(1,2,5,8) by (simp add: gcm_def)
  moreover have "length b \<noteq> 0" "\<not> length b > MTU" using assms(3) by (auto simp: sized_iff)
  ultimately show ?thesis
    using assms(4-7) by (simp add: open_request_def cseq_fields parse_cseq Let_def not_le)
qed

lemma write_start_bytes:
  assumes "write_start ord cr branch nonce b s = ((None, cseq), s1)"
  defines "s0 \<equiv> s\<lparr>seq := seq s + 1\<rparr>"
  shows "cseq = cseq_of (seq s + 1) ''MESSAGE''" and "seq s1 = seq s + 1"
    and "wr (net s1) = wr (net s) @ sip_bytes (request_message ord branch ''MESSAGE'' []
      (nonce @ seal cr (aead s) nonce b (bytes_of (cseq_of (seq s + 1) ''MESSAGE''))) s0)"
  using assms(1) unfolding s0_def
  by (auto simp: write_start_def request_def Let_def split: prod.splits dest: send_None)

text \<open>C13: A packet survives a SIP transaction. When a write has been sent, however its bytes were
  split and its headers ordered, the peer that holds the mirrored key and has not seen the
  sequence number reads exactly one message from it, accepts it, queues exactly the packet that
  was written, remembers the sequence number, and its reply is the \<open>200 OK\<close> whose CSeq the writer
  waits for.\<close>

theorem sip_packet_transaction:
  assumes "gcm cr" and "shuffles ord" and "shuffles ord'" and "well_named s" and "tame (sid r)"
    and "tame branch" and "length nonce = nonceSize" and "sized b"
    and "aead s = receive_aead r" and "recv_seq r < seq s + 1"
    and "length (responses r) < response_room" and "length (rx r) < rx_room"
    and "write_start ord cr branch nonce b s = ((None, cseq), s1)"
    and "wr (net s1) = wr (net s) @ q" and "rd (net r) = q @ rest"
  shows "\<exists>m r1 r2. read_message uni r = (Inr m, r1) \<and> rd (net r1) = rest \<and>
    handle_message cr (False, False) m r1 = Some (True, r2) \<and>
    rx r2 = rx r @ [b] \<and> recv_seq r2 = seq s1 \<and> responses r2 = responses r @ [m] \<and>
    (\<forall>r3. reply ord' ''200 OK'' [] m r2 = (None, r3) \<longrightarrow>
      (\<exists>a. wr (net r3) = wr (net r2) @ a \<and>
        (\<forall>w rest'. rd (net w) = a @ rest' \<longrightarrow> (\<exists>m' w'. read_message uni w = (Inr m', w') \<and>
          first m' = ''SIP/2.0 200 OK'' \<and> header m' ''cseq'' = cseq \<and> rd (net w') = rest'))))"
proof -
  define s0 where "s0 = s\<lparr>seq := seq s + 1\<rparr>"
  define bd where "bd = nonce @ seal cr (aead s) nonce b (bytes_of (cseq_of (seq s + 1) ''MESSAGE''))"
  define msg where "msg = request_message ord branch ''MESSAGE'' [] bd s0"
  define m where "m = seen uni msg"
  note w = write_start_bytes [OF assms(13), folded s0_def, folded bd_def, folded msg_def]
  have q: "q = sip_bytes msg" using w(3) assms(14) by simp
  have named: "well_named s0" using assms(4) by (simp add: well_named_def s0_def)
  have ext: "request_extra []" by (simp add: request_extra_def)
  have len: "length bd \<le> 2048"
    using assms(1,7,8) by (simp add: bd_def gcm_def nonceSize_def overhead_def sized_def MTU_def)
  have me: "''MESSAGE'' = ''OPTIONS'' \<or> ''MESSAGE'' = ''MESSAGE''" by simp
  have send: "sendable uni msg" unfolding msg_def
    by (rule request_sendable [OF named assms(6,2) me ext len])
  note seen = request_seen [OF named assms(6,2) me ext len, where uni = uni, folded msg_def, folded m_def]
  define r1 where "r1 = r\<lparr>net := (net r)\<lparr>rd := rest\<rparr>\<rparr>"
  have rd: "read_message uni r = (Inr m, r1)"
    unfolding m_def r1_def using assms(15) by (intro read_message_sendable [OF send]) (simp add: q)
  have pre: "hasPrefix (first m) ''MESSAGE ''" "\<not> hasPrefix (first m) ''SIP/2.0 ''"
    by (simp_all add: seen(1) hasPrefix_def)
  have "open_request cr m r1 = Some (seq s + 1, Some b)"
    by (rule open_request_written [OF assms(1,7,8) _ _ pre(1)])
      (use assms(10) seen in \<open>simp_all add: r1_def bd_def assms(9) s0_def\<close>)
  then have h: "handle_message cr (False, False) m r1 =
      Some (True, r1\<lparr>recv_seq := seq s + 1, responses := responses r @ [m], rx := rx r @ [b]\<rparr>)"
    using pre(2) assms(11,12) by (simp add: handle_message_def Let_def r1_def)
  let ?r2 = "r1\<lparr>recv_seq := seq s + 1, responses := responses r @ [m], rx := rx r @ [b]\<rparr>"
  have "\<exists>a. wr (net r3) = wr (net ?r2) @ a \<and>
      (\<forall>w rest'. rd (net w) = a @ rest' \<longrightarrow> (\<exists>m' w'. read_message uni w = (Inr m', w') \<and>
        first m' = ''SIP/2.0 200 OK'' \<and> header m' ''cseq'' = cseq \<and> rd (net w') = rest'))"
    if "reply ord' ''200 OK'' [] m ?r2 = (None, r3)" for r3
  proof (intro exI conjI allI impI)
    let ?rep = "reply_message ord' ''200 OK'' [] m ?r2"
    have rid: "tame (sid ?r2)" and rext: "reply_extra []"
      using assms(5) by (simp_all add: r1_def reply_extra_def)
    show "wr (net r3) = wr (net ?r2) @ sip_bytes ?rep"
      using that send_None [of "net ?r2" ?rep] by (auto simp: reply_def split: prod.splits)
    fix w :: sip_conn and rest'
    assume "rd (net w) = sip_bytes ?rep @ rest'"
    note rm = read_message_sendable [OF reply_sendable [OF seen(5) rid assms(3) rext], OF this]
    show "read_message uni w = (Inr (seen uni ?rep), w\<lparr>net := (net w)\<lparr>rd := rest'\<rparr>\<rparr>)" by (rule rm)
    show "first (seen uni ?rep) = ''SIP/2.0 200 OK''"
      by (rule reply_seen(1) [OF seen(5) rid assms(3) rext])
    show "header (seen uni ?rep) ''cseq'' = cseq"
      using reply_seen(2) [OF seen(5) rid assms(3) rext, where uni = uni] seen(3) w(1) by (simp add: s0_def)
  qed simp
  with rd h w(2) show ?thesis
    by (intro exI [of _ m] exI [of _ r1] exI [of _ ?r2]) (simp add: r1_def)
qed

text \<open>A cipher of the right shape, for examples.\<close>

definition plain_crypto :: crypto where
  "plain_crypto = \<lparr>hmac = (\<lambda>k d. take 32 (d @ k @ replicate 32 0)), sha256 = (\<lambda>d. take 32 (d @ replicate 32 0)),
    seal = (\<lambda>k n p a. replicate 16 0 @ p), unseal = (\<lambda>k n c a. Some (drop 16 c))\<rparr>"

lemma plain_crypto_ok: "gcm plain_crypto" "digests plain_crypto"
  by (auto simp: plain_crypto_def gcm_def digests_def overhead_def min_def)

definition sample_conn :: sip_conn where
  "sample_conn = newSIP (conn_of []) ''192.0.2.1:5060'' ''0123456789abcdef0123456789abcdef'' False ''5d0c''"

lemma sample_conn_named: "well_named sample_conn"
  by (simp add: well_named_def sample_conn_def newSIP_def tame_def graphic_def)

lemma shuffles_ident: "shuffles (\<lambda>h. h)"
  by (simp add: shuffles_def)

theorem sip_packet_transaction_witness:
  "\<exists>q. (\<exists>cseq s1. write_start (\<lambda>h. h) plain_crypto ''b1'' (replicate 12 0) [1, 2, 3] sample_conn =
      ((None, cseq), s1) \<and> wr (net s1) = q) \<and>
    (\<exists>m r1 r2. read_message (\<lambda>x. x) (sample_conn\<lparr>net := conn_of (q @ [9])\<rparr>) = (Inr m, r1) \<and>
      rd (net r1) = [9] \<and> handle_message plain_crypto (False, False) m r1 = Some (True, r2) \<and>
      rx r2 = [[1, 2, 3]])"
proof -
  let ?nonce = "replicate 12 0 :: byte list"
  have tb: "tame ''b1''" by (simp add: tame_def graphic_def)
  have e: "fst (fst (write_start (\<lambda>h. h) plain_crypto ''b1'' ?nonce [1, 2, 3] sample_conn)) = None"
    by code_simp
  obtain cseq s1 where w: "write_start (\<lambda>h. h) plain_crypto ''b1'' ?nonce [1, 2, 3] sample_conn = ((None, cseq), s1)"
    using e by (metis prod.collapse)
  define q where "q = wr (net s1)"
  define r where "r = sample_conn\<lparr>net := conn_of (q @ [9])\<rparr>"
  have c: "tame (sid r)" "length ?nonce = nonceSize" "sized [1, 2, 3]" "aead sample_conn = receive_aead r"
    "recv_seq r < seq sample_conn + 1" "length (responses r) < response_room" "length (rx r) < rx_room"
    "wr (net s1) = wr (net sample_conn) @ q" "rd (net r) = q @ [9]" "rx r = []"
    using sample_conn_named
    by (simp_all add: r_def q_def sample_conn_def newSIP_def conn_of_def nonceSize_def sized_def MTU_def
        response_room_def rx_room_def well_named_def)
  from sip_packet_transaction [OF plain_crypto_ok(1) shuffles_ident shuffles_ident sample_conn_named
      c(1) tb c(2-7) w c(8,9), of "\<lambda>x. x"]
  obtain m r1 r2 where "read_message (\<lambda>x. x) r = (Inr m, r1)" "rd (net r1) = [9]"
    "handle_message plain_crypto (False, False) m r1 = Some (True, r2)" "rx r2 = rx r @ [[1, 2, 3]]"
    by blast
  with w c(10) q_def r_def show ?thesis by auto
qed

subsection \<open>The session\<close>

text \<open>
  A session after the handshake, as what its goroutines do to the connection: the read loop
  handles one message after the other, whatever the peer or anyone else put on the wire; the
  responder sends a reply; packets are read and written; the connection is closed. \<open>acc\<close>
  collects the requests whose packet was queued, with their sequence numbers, \<open>out\<close> the packets
  handed to the application.
\<close>

inductive session ::
    "crypto \<Rightarrow> sip_conn \<Rightarrow> (64 word \<times> sip_message \<times> packet) list \<Rightarrow> packet list \<Rightarrow> sip_conn \<Rightarrow> bool"
  for cr :: crypto and s0 :: sip_conn where
  started: "session cr s0 [] [] s0"
| received: "session cr s0 acc out s \<Longrightarrow> read_message uni s = (Inr m, s1) \<Longrightarrow>
    handle_message cr choice m s1 = Some (go, s2) \<Longrightarrow>
    session cr s0
      (acc @ (case open_request cr m s1 of
         Some (n, Some b) \<Rightarrow> if rx s2 = rx s1 then [] else [(n, m, b)]
       | _ \<Rightarrow> [])) out s2"
| read_failed: "session cr s0 acc out s \<Longrightarrow> read_message uni s = (Inl e, s1) \<Longrightarrow> session cr s0 acc out s1"
| responded: "session cr s0 acc out s \<Longrightarrow> responses s = m # ms \<Longrightarrow>
    reply ord ''200 OK'' [] m (s\<lparr>responses := ms\<rparr>) = (e, s1) \<Longrightarrow> session cr s0 acc out s1"
| packet_read: "session cr s0 acc out s \<Longrightarrow> sip_ReadPacket d s = Some (Inr b, s1) \<Longrightarrow>
    session cr s0 acc (out @ [b]) s1"
| packet_written: "session cr s0 acc out s \<Longrightarrow> sip_WritePacket ord cr env b s = (e, s1) \<Longrightarrow>
    session cr s0 acc out s1"
| conn_closed: "session cr s0 acc out s \<Longrightarrow> session cr s0 acc out (sip_Close s)"

text \<open>What an accepted request proves: its number is fresh and the key authenticated its packet
  together with its CSeq header.\<close>

definition authentic :: "crypto \<Rightarrow> byte list \<Rightarrow> 64 word \<times> sip_message \<times> packet \<Rightarrow> bool" where
  "authentic cr k = (\<lambda>(n, m, b).
    sized b \<and> GoStrings.fields (header m ''cseq'') ! 1 = ''MESSAGE'' \<and>
    map_option of_nat (parseUint64 (GoStrings.fields (header m ''cseq'') ! 0)) = Some n \<and>
    unseal cr k (take nonceSize (body m)) (drop nonceSize (body m)) (bytes_of (header m ''cseq'')) = Some b)"

definition session_inv :: "crypto \<Rightarrow> sip_conn \<Rightarrow> (64 word \<times> sip_message \<times> packet) list \<Rightarrow> packet list \<Rightarrow> sip_conn \<Rightarrow> bool" where
  "session_inv cr s0 acc out s \<longleftrightarrow>
    receive_aead s = receive_aead s0 \<and>
    sorted_wrt (<) (map fst acc) \<and>
    list_all (\<lambda>(n, m, b). recv_seq s0 < n \<and> n \<le> recv_seq s) acc \<and> recv_seq s0 \<le> recv_seq s \<and>
    list_all (authentic cr (receive_aead s0)) acc \<and>
    rx s0 @ map (snd \<circ> snd) acc = out @ rx s"

text \<open>Operations that leave the receiving side of the connection alone.\<close>

definition same_receiver :: "sip_conn \<Rightarrow> sip_conn \<Rightarrow> bool" where
  "same_receiver s t \<longleftrightarrow> receive_aead t = receive_aead s \<and> recv_seq t = recv_seq s \<and> rx t = rx s"

lemma same_receiver_inv: "same_receiver s t \<Longrightarrow> session_inv cr s0 acc out s \<Longrightarrow> session_inv cr s0 acc out t"
  by (simp add: same_receiver_def session_inv_def)

lemma reply_receiver: "reply ord st ex m s = (e, s1) \<Longrightarrow> same_receiver s s1"
  by (auto simp: reply_def same_receiver_def split: prod.splits)

lemma read_message_receiver: "read_message uni s = (r, s1) \<Longrightarrow> same_receiver s s1"
  by (auto simp: read_message_def same_receiver_def split: prod.splits)

lemma write_receiver: "sip_WritePacket ord cr env b s = (e, s1) \<Longrightarrow> same_receiver s s1"
  by (auto simp: sip_WritePacket_def write_start_def request_def write_wait_def sip_Close_def
      same_receiver_def Let_def split: prod.splits option.splits if_splits)

lemma open_request_authentic:
  assumes "open_request cr m s = Some (n, Some b)"
  shows "recv_seq s < n \<and> authentic cr (receive_aead s) (n, m, b)"
  using assms by (auto simp: open_request_def authentic_def Let_def sized_alt not_le
      split: if_splits option.splits)

lemma open_request_fresh: "open_request cr m s = Some (n, p) \<Longrightarrow> recv_seq s < n"
  by (auto simp: open_request_def Let_def not_le split: if_splits option.splits)

lemma handle_message_effect:
  assumes "handle_message cr choice m s = Some (go, t)"
  shows "receive_aead t = receive_aead s \<and>
    ((recv_seq t = recv_seq s \<and> rx t = rx s) \<or>
     (\<exists>n p. open_request cr m s = Some (n, p) \<and> recv_seq t = n \<and>
       (rx t = rx s \<or> (\<exists>b. p = Some b \<and> rx t = rx s @ [b]))))"
  using assms
  by (auto simp: handle_message_def handle_response_def Let_def split: if_splits option.splits)

lemma handle_message_inv:
  assumes "session_inv cr s0 acc out s" and "handle_message cr choice m s = Some (go, t)"
  shows "session_inv cr s0
    (acc @ (case open_request cr m s of
       Some (n, Some b) \<Rightarrow> if rx t = rx s then [] else [(n, m, b)]
     | _ \<Rightarrow> [])) out t"
  using handle_message_effect [OF assms(2)]
proof (elim conjE disjE exE)
  assume "receive_aead t = receive_aead s" "recv_seq t = recv_seq s" "rx t = rx s"
  with assms(1) show ?thesis
    by (simp add: session_inv_def split: option.split)
next
  fix n p
  assume t: "receive_aead t = receive_aead s" "open_request cr m s = Some (n, p)" "recv_seq t = n"
    "rx t = rx s"
  with open_request_fresh [OF t(2)] assms(1) show ?thesis
    by (auto simp: session_inv_def list_all_iff split: option.split)
next
  fix n p b
  assume t: "receive_aead t = receive_aead s" "open_request cr m s = Some (n, p)" "recv_seq t = n"
    "p = Some b" "rx t = rx s @ [b]"
  with open_request_authentic [of cr m s n b] assms(1) show ?thesis
    by (auto simp: session_inv_def list_all_iff sorted_wrt_append)
qed

lemma session_invariant: "session cr s0 acc out s \<Longrightarrow> session_inv cr s0 acc out s"
proof (induction rule: session.induct)
  case started
  then show ?case by (simp add: session_inv_def)
next
  case (received acc out s uni m s1 choice go s2)
  from same_receiver_inv [OF read_message_receiver [OF received.hyps(2)] received.IH]
  show ?case by (rule handle_message_inv [OF _ received.hyps(3)])
next
  case (read_failed acc out s uni e s1)
  from same_receiver_inv [OF read_message_receiver [OF read_failed.hyps(2)] read_failed.IH]
  show ?case .
next
  case (responded acc out s m ms ord e s1)
  have "same_receiver s (s\<lparr>responses := ms\<rparr>)" by (simp add: same_receiver_def)
  from same_receiver_inv [OF reply_receiver [OF responded.hyps(3)] same_receiver_inv [OF this responded.IH]]
  show ?case .
next
  case (packet_read acc out s d b s1)
  then show ?case
    by (auto simp: session_inv_def sip_ReadPacket_def split: if_splits list.splits)
next
  case (packet_written acc out s ord env b e s1)
  from same_receiver_inv [OF write_receiver [OF packet_written.hyps(2)] packet_written.IH]
  show ?case .
next
  case (conn_closed acc out s)
  have "same_receiver s (sip_Close s)" by (simp add: same_receiver_def sip_Close_def)
  from same_receiver_inv [OF this conn_closed.IH] show ?case .
qed

text \<open>C11: A session accepts nothing twice and nothing forged. Whatever arrives on the wire, in
  whatever order and however often, and however the goroutines interleave: the sequence numbers of
  the accepted requests strictly increase from the one before the session, every accepted packet has a legal size and was
  authenticated under the receive key together with the very CSeq header that carries its number,
  and the application gets exactly the accepted packets, each once and in order of acceptance.\<close>

theorem sip_no_replay:
  assumes "session cr s0 acc out s" and "rx s0 = []"
  shows "sorted_wrt (<) (map fst acc) \<and> list_all (\<lambda>(n, m, b). recv_seq s0 < n) acc \<and>
    list_all (\<lambda>(n, m, b). sized b \<and>
      map_option of_nat (parseUint64 (GoStrings.fields (header m ''cseq'') ! 0)) = Some n \<and>
      unseal cr (receive_aead s0) (take nonceSize (body m)) (drop nonceSize (body m))
        (bytes_of (header m ''cseq'')) = Some b) acc \<and>
    map (\<lambda>(n, m, b). b) acc = out @ rx s"
proof -
  have inv: "session_inv cr s0 acc out s" by (rule session_invariant [OF assms(1)])
  have "(\<lambda>(n, m, b). b) = (snd \<circ> snd :: 64 word \<times> sip_message \<times> packet \<Rightarrow> packet)" by (simp add: fun_eq_iff)
  moreover have "map (snd \<circ> snd) acc = out @ rx s" using inv assms(2) by (simp add: session_inv_def)
  ultimately have "map (\<lambda>(n, m, b). b) acc = out @ rx s" by (simp only:)
  moreover have "list_all (\<lambda>(n, m, b). recv_seq s0 < n) acc"
    using inv by (auto simp: session_inv_def list_all_iff)
  moreover have "list_all (\<lambda>(n, m, b). sized b \<and>
      map_option of_nat (parseUint64 (GoStrings.fields (header m ''cseq'') ! 0)) = Some n \<and>
      unseal cr (receive_aead s0) (take nonceSize (body m)) (drop nonceSize (body m))
        (bytes_of (header m ''cseq'')) = Some b) acc"
    using inv by (auto simp: session_inv_def authentic_def list_all_iff)
  ultimately show ?thesis using inv by (simp add: session_inv_def)
qed

definition wire_message :: sip_message where
  "wire_message = \<lparr>first = ''MESSAGE sip:peer@tunnel.invalid SIP/2.0'',
    headers = [(''Via'', ''v''), (''To'', ''t''), (''CSeq'', ''1 MESSAGE''), (''From'', ''f''),
      (''Call-ID'', ''i''), (''Content-Type'', ''application/octet-stream'')],
    body = replicate 28 0 @ [1, 2, 3]\<rparr>"

definition sample_receiver :: sip_conn where
  "sample_receiver = sample_conn\<lparr>net := conn_of (sip_bytes wire_message @ sip_bytes wire_message)\<rparr>"

theorem sip_no_replay_witness:
  "\<exists>acc s. session plain_crypto sample_receiver acc [] s \<and> sorted_wrt (<) (map fst acc) \<and>
    map (\<lambda>(n, m, b). b) acc = [[1, 2, 3]] \<and> rx s = [[1, 2, 3]] \<and>
    handle_message plain_crypto (False, False) (seen (\<lambda>x. x) wire_message) s = Some (False, s)"
proof -
  let ?m = "seen (\<lambda>x. x) wire_message"
  let ?s1 = "sample_receiver\<lparr>net := (net sample_receiver)\<lparr>rd := sip_bytes wire_message\<rparr>\<rparr>"
  let ?s2 = "?s1\<lparr>recv_seq := 1, responses := [?m], rx := [[1, 2, 3]]\<rparr>"
  have "sendable (\<lambda>x. x) wire_message" by code_simp
  then have rd: "read_message (\<lambda>x. x) sample_receiver = (Inr ?m, ?s1)"
    by (rule read_message_sendable) (simp add: sample_receiver_def conn_of_def)
  have m: "header ?m ''cseq'' = cseq_of 1 ''MESSAGE''" "hasPrefix (first ?m) ''MESSAGE ''"
    "header ?m ''content-type'' = ''application/octet-stream''" "\<not> hasPrefix (first ?m) ''SIP/2.0 ''"
    by code_simp+
  have o: "open_request plain_crypto ?m ?s1 = Some (1, Some [1, 2, 3])"
    by (rule open_request_written [of _ "replicate 12 0", OF plain_crypto_ok(1) _ _ _ m(1-3)])
      (simp_all add: nonceSize_def sized_def MTU_def sample_receiver_def sample_conn_def newSIP_def
        seen_def wire_message_def plain_crypto_def flip: replicate_add)
  then have h: "handle_message plain_crypto (False, False) ?m ?s1 = Some (True, ?s2)"
    using m(4) by (simp add: handle_message_def response_room_def rx_room_def sample_receiver_def
        sample_conn_def newSIP_def)
  have "open_request plain_crypto ?m ?s2 = None"
    using parse_cseq [of 1] by (simp add: open_request_def m(1) cseq_fields Let_def)
  then have again: "handle_message plain_crypto (False, False) ?m ?s2 = Some (False, ?s2)"
    using m(4) by (simp add: handle_message_def)
  have "rx sample_receiver = []" by (simp add: sample_receiver_def sample_conn_def newSIP_def)
  moreover from session.received [OF session.started rd h] o this
  have "session plain_crypto sample_receiver [(1, ?m, [1, 2, 3])] [] ?s2" by simp
  ultimately show ?thesis
    using sip_no_replay [of plain_crypto sample_receiver "[(1, ?m, [1, 2, 3])]" "[]" ?s2] again
    by (intro exI [of _ "[(1, ?m, [1, 2, 3])]"] exI [of _ ?s2]) simp
qed

subsection \<open>The handshake\<close>

lemma request_smooth:
  assumes "wsched (net s) = []" and "well_named s" and "tame branch" and "shuffles ord"
    and "verb = ''OPTIONS'' \<or> verb = ''MESSAGE''" and "request_extra extra"
  shows "request ord branch verb extra [] s =
    ((None, cseq_of (seq s + 1) verb),
     s\<lparr>seq := seq s + 1, net := (net s)\<lparr>wr := wr (net s) @
       sip_bytes (request_message ord branch verb extra [] (s\<lparr>seq := seq s + 1\<rparr>))\<rparr>\<rparr>)"
proof -
  have "well_named (s\<lparr>seq := seq s + 1\<rparr>)" using assms(2) by (simp add: well_named_def)
  from send_smooth [OF assms(1) request_sendable [OF this assms(3-6), of "[]" "\<lambda>x. x"]]
  show ?thesis by (simp add: request_def Let_def)
qed

lemma reply_smooth:
  assumes "wsched (net s) = []" and "repliable m" and "tame (sid s)" and "shuffles ord" and "reply_extra extra"
  shows "reply ord ''200 OK'' extra m s =
    (None, s\<lparr>net := (net s)\<lparr>wr := wr (net s) @ sip_bytes (reply_message ord ''200 OK'' extra m s)\<rparr>\<rparr>)"
  using send_smooth [OF assms(1) reply_sendable [OF assms(2-5), of "\<lambda>x. x"]] by (simp add: reply_def)

lemma request_message_cong:
  "proto s = proto t \<Longrightarrow> laddr s = laddr t \<Longrightarrow> sid s = sid t \<Longrightarrow> seq s = seq t \<Longrightarrow>
    request_message ord branch verb extra b s = request_message ord branch verb extra b t"
  by (simp add: request_message_def)

lemma reply_message_cong: "sid s = sid t \<Longrightarrow> reply_message ord st extra m s = reply_message ord st extra m t"
  by (simp add: reply_message_def)

lemma token_proof_tame: "digests cr \<Longrightarrow> tame (token_proof cr token label challenge)"
proof -
  assume "digests cr"
  then have l: "length (token_proof cr token label challenge) = 64"
    by (simp add: token_proof_def digests_def)
  then have "token_proof cr token label challenge \<noteq> []" by (metis list.size(3) zero_neq_numeral)
  then show ?thesis using l hex_bytes_graphic by (simp add: tame_def token_proof_def)
qed

text \<open>The keys a connection has after \<open>setKey\<close>.\<close>

lemma setKey_digests:
  assumes "digests cr"
  shows "setKey cr ch server s =
    (None, s\<lparr>aead := sha256 cr (bytes_of (token_proof cr (tok s) (if server then ''server-key:'' else ''client-key:'') ch)),
      receive_aead := sha256 cr (bytes_of (token_proof cr (tok s) (if server then ''client-key:'' else ''server-key:'') ch))\<rparr>)"
  using assms by (simp add: setKey_def make_key_def digests_def Let_def)

lemma handshake_run:
  assumes "digests cr" and "shuffles ordc" and "shuffles ords"
    and "well_named c" and "well_named s" and "wsched (net c) = []" and "wsched (net s) = []"
    and "tok s = tok c" and "tame nonce" and "tame challenge" and "length nonce = 64"
    and "length challenge = 64" and "tame branch1" and "tame branch2"
  shows "\<exists>q a c' s'.
    clientAuth uni ordc cr (nonce, branch1, branch2) (c\<lparr>net := (net c)\<lparr>rd := a @ x\<rparr>\<rparr>) = (None, c') \<and>
    serverAuth uni ords cr challenge (s\<lparr>net := (net s)\<lparr>rd := q @ y\<rparr>\<rparr>) = (None, s') \<and>
    wr (net c') = wr (net c) @ q \<and> wr (net s') = wr (net s) @ a \<and>
    rd (net c') = x \<and> rd (net s') = y \<and>
    aead c' = receive_aead s' \<and> aead s' = receive_aead c' \<and> seq c' = seq c + 2 \<and> recv_seq s' = recv_seq s"
proof -
  let ?ch = "nonce @ challenge"
  define ps where "ps = token_proof cr (tok c) ''server:'' ?ch"
  define pc where "pc = token_proof cr (tok c) ''client:'' ?ch"
  have proofs: "tame ps" "tame pc" using token_proof_tame [OF assms(1)] by (simp_all add: ps_def pc_def)
  have ext1: "request_extra (hello_headers nonce)" and ext2: "request_extra (proof_headers pc)"
    and rext1: "reply_extra (challenge_headers challenge ps)" and rext2: "reply_extra []"
    using assms(9,10) proofs unfolding request_extra_def reply_extra_def by blast+
  have sid: "tame (sid s)" and oo: "''OPTIONS'' = ''OPTIONS'' \<or> ''OPTIONS'' = ''MESSAGE''"
    using assms(5) by (simp_all add: well_named_def)
  define q1 where "q1 = request_message ordc branch1 ''OPTIONS'' (hello_headers nonce) [] (c\<lparr>seq := seq c + 1\<rparr>)"
  define q2 where "q2 = request_message ordc branch2 ''OPTIONS'' (proof_headers pc) [] (c\<lparr>seq := seq c + 2\<rparr>)"
  have n1: "well_named (c\<lparr>seq := seq c + 1\<rparr>)" and n2: "well_named (c\<lparr>seq := seq c + 2\<rparr>)"
    using assms(4) by (simp_all add: well_named_def)
  have empty: "length ([] :: byte list) \<le> 2048" by simp
  note s1 = request_seen [OF n1 assms(13,2) oo ext1 empty, where uni = uni, folded q1_def]
  note s2 = request_seen [OF n2 assms(14,2) oo ext2 empty, where uni = uni, folded q2_def]
  have send1: "sendable uni q1" unfolding q1_def by (rule request_sendable [OF n1 assms(13,2) oo ext1 empty])
  have send2: "sendable uni q2" unfolding q2_def by (rule request_sendable [OF n2 assms(14,2) oo ext2 empty])
  define a1 where "a1 = reply_message ords ''200 OK'' (challenge_headers challenge ps) (seen uni q1) s"
  define a2 where "a2 = reply_message ords ''200 OK'' [] (seen uni q2) s"
  note r1 = reply_seen [OF s1(5) sid assms(3) rext1, where uni = uni, folded a1_def]
  note r2 = reply_seen [OF s2(5) sid assms(3) rext2, where uni = uni, folded a2_def]
  have rsend1: "sendable uni a1" unfolding a1_def by (rule reply_sendable [OF s1(5) sid assms(3) rext1])
  have rsend2: "sendable uni a2" unfolding a2_def by (rule reply_sendable [OF s2(5) sid assms(3) rext2])
  have trim: "trimSpace nonce = nonce" "trimSpace challenge = challenge" "trimSpace ps = ps" "trimSpace pc = pc"
    using assms(9,10) proofs by (simp_all add: trimSpace_tidy tame_tidy)
  let ?q = "sip_bytes q1 @ sip_bytes q2" and ?a = "sip_bytes a1 @ sip_bytes a2"
  \<comment> \<open>the client\<close>
  let ?c0 = "c\<lparr>net := (net c)\<lparr>rd := ?a @ x\<rparr>\<rparr>"
  let ?c1 = "c\<lparr>seq := seq c + 1, net := (net c)\<lparr>rd := ?a @ x, wr := wr (net c) @ sip_bytes q1\<rparr>\<rparr>"
  let ?c2 = "c\<lparr>seq := seq c + 1, net := (net c)\<lparr>rd := sip_bytes a2 @ x, wr := wr (net c) @ sip_bytes q1\<rparr>\<rparr>"
  let ?c3 = "c\<lparr>seq := seq c + 2, net := (net c)\<lparr>rd := sip_bytes a2 @ x, wr := wr (net c) @ ?q\<rparr>\<rparr>"
  let ?c4 = "c\<lparr>seq := seq c + 2, net := (net c)\<lparr>rd := x, wr := wr (net c) @ ?q\<rparr>\<rparr>"
  have cs1: "request ordc branch1 ''OPTIONS'' [(''X-Tunnel-Version'', ''1''), (''X-Tunnel-Nonce'', nonce)] [] ?c0 =
      ((None, cseq_of (seq c + 1) ''OPTIONS''), ?c1)"
    using request_smooth [of ?c0 branch1 ordc "''OPTIONS''" "hello_headers nonce"] assms(2,4,6,13) ext1
      request_message_cong [of "?c0\<lparr>seq := seq c + 1\<rparr>" "c\<lparr>seq := seq c + 1\<rparr>" ordc branch1 "''OPTIONS''" "hello_headers nonce" "[]"]
    by (simp add: well_named_def q1_def hello_headers_def)
  have cs2: "read_message uni ?c1 = (Inr (seen uni a1), ?c2)"
    using read_message_sendable [OF rsend1, of ?c1 "sip_bytes a2 @ x"] by simp
  have cs3: "request ordc branch2 ''OPTIONS'' [(''X-Tunnel-Proof'', pc)] [] ?c2 =
      ((None, cseq_of (seq c + 2) ''OPTIONS''), ?c3)"
    using request_smooth [of ?c2 branch2 ordc "''OPTIONS''" "proof_headers pc"] assms(2,4,6,14) ext2
      request_message_cong [of "?c2\<lparr>seq := seq c + 2\<rparr>" "c\<lparr>seq := seq c + 2\<rparr>" ordc branch2 "''OPTIONS''" "proof_headers pc" "[]"]
    by (simp add: well_named_def q2_def proof_headers_def add.commute)
  have cs4: "read_message uni ?c3 = (Inr (seen uni a2), ?c4)"
    using read_message_sendable [OF rsend2, of ?c3 x] by simp
  have client: "clientAuth uni ordc cr (nonce, branch1, branch2) ?c0 = setKey cr ?ch False ?c4"
    using cs1 cs2 cs3 cs4 r1 r2 s1(3) s2(3) trim assms(12)
    by (simp add: clientAuth_def go_equal_iff Let_def ps_def pc_def)
  \<comment> \<open>the server\<close>
  let ?s0 = "s\<lparr>net := (net s)\<lparr>rd := ?q @ y\<rparr>\<rparr>"
  let ?s1 = "s\<lparr>net := (net s)\<lparr>rd := sip_bytes q2 @ y\<rparr>\<rparr>"
  let ?s2 = "s\<lparr>net := (net s)\<lparr>rd := sip_bytes q2 @ y, wr := wr (net s) @ sip_bytes a1\<rparr>\<rparr>"
  let ?s3 = "s\<lparr>net := (net s)\<lparr>rd := y, wr := wr (net s) @ sip_bytes a1\<rparr>\<rparr>"
  let ?s4 = "s\<lparr>net := (net s)\<lparr>rd := y, wr := wr (net s) @ ?a\<rparr>\<rparr>"
  have ss1: "read_message uni ?s0 = (Inr (seen uni q1), ?s1)"
    using read_message_sendable [OF send1, of ?s0 "sip_bytes q2 @ y"] by simp
  have ss2: "reply ords ''200 OK'' [(''X-Tunnel-Nonce'', challenge), (''X-Tunnel-Proof'', ps)] (seen uni q1) ?s1 = (None, ?s2)"
    using reply_smooth [OF _ s1(5) _ assms(3) rext1, of ?s1] assms(7) sid
      reply_message_cong [of ?s1 s ords "''200 OK''" "challenge_headers challenge ps" "seen uni q1"]
    by (simp add: a1_def challenge_headers_def)
  have ss3: "read_message uni ?s2 = (Inr (seen uni q2), ?s3)"
    using read_message_sendable [OF send2, of ?s2 y] by simp
  have ss4: "reply ords ''200 OK'' [] (seen uni q2) ?s3 = (None, ?s4)"
    using reply_smooth [OF _ s2(5) _ assms(3) rext2, of ?s3] assms(7) sid
      reply_message_cong [of ?s3 s ords "''200 OK''" "[]" "seen uni q2"]
    by (simp add: a2_def)
  have pre: "hasPrefix (first (seen uni q1)) ''OPTIONS ''" "hasPrefix (first (seen uni q2)) ''OPTIONS ''"
    by (simp_all add: s1(1) s2(1) hasPrefix_def)
  have server: "serverAuth uni ords cr challenge ?s0 = setKey cr ?ch True ?s4"
    using ss1 ss2 ss3 ss4 pre s1(6) [of nonce] s2(7) [of pc] trim assms(8,11)
    by (simp add: serverAuth_def go_equal_iff Let_def ps_def pc_def)
  show ?thesis
    by (intro exI [of _ ?q] exI [of _ ?a] exI conjI, subst client, rule setKey_digests [OF assms(1)],
        subst server, rule setKey_digests [OF assms(1)]) (simp_all add: assms(8))
qed

text \<open>C12: The handshake completes. Two ends with the same token authenticate each other over a
  loss-free connection, whatever the order of their headers and whatever follows the handshake on the wire: each
  reads exactly the other's two messages, and what one end seals with is what the other
  opens with.\<close>

theorem sip_handshake_completes:
  assumes "digests cr" and "shuffles ordc" and "shuffles ords"
    and "well_named c" and "well_named s" and "wsched (net c) = []" and "wsched (net s) = []"
    and "tok s = tok c" and "tame nonce" and "tame challenge" and "length nonce = 64"
    and "length challenge = 64" and "tame branch1" and "tame branch2"
  shows "\<exists>q a c' s'.
    clientAuth uni ordc cr (nonce, branch1, branch2) (c\<lparr>net := (net c)\<lparr>rd := a @ x\<rparr>\<rparr>) = (None, c') \<and>
    serverAuth uni ords cr challenge (s\<lparr>net := (net s)\<lparr>rd := q @ y\<rparr>\<rparr>) = (None, s') \<and>
    wr (net c') = wr (net c) @ q \<and> wr (net s') = wr (net s) @ a \<and>
    rd (net c') = x \<and> rd (net s') = y \<and>
    aead c' = receive_aead s' \<and> aead s' = receive_aead c' \<and> seq c' = seq c + 2 \<and> recv_seq s' = recv_seq s"
  using assms by (rule handshake_run)

theorem sip_handshake_completes_witness:
  "\<exists>q a c' s'.
    clientAuth (\<lambda>x. x) rev plain_crypto (replicate 64 CHR ''a'', ''b1'', ''b2'')
      (sample_conn\<lparr>net := (net sample_conn)\<lparr>rd := a @ [7]\<rparr>\<rparr>) = (None, c') \<and>
    serverAuth (\<lambda>x. x) (\<lambda>h. h) plain_crypto (replicate 64 CHR ''c'')
      (sample_conn\<lparr>net := (net sample_conn)\<lparr>rd := q @ []\<rparr>\<rparr>) = (None, s') \<and>
    aead c' = receive_aead s' \<and> rd (net c') = [7]"
proof -
  have t: "tame (replicate 64 CHR ''a'')" "tame (replicate 64 CHR ''c'')" "tame ''b1''" "tame ''b2''"
    by (simp_all add: tame_def graphic_def list_all_iff)
  have l: "length (replicate 64 CHR ''a'') = 64" "length (replicate 64 CHR ''c'') = 64" by simp_all
  have w: "wsched (net sample_conn) = []" by (simp add: sample_conn_def newSIP_def conn_of_def)
  have sh: "shuffles rev" by (simp add: shuffles_def)
  from sip_handshake_completes [OF plain_crypto_ok(2) sh shuffles_ident sample_conn_named sample_conn_named
      w w refl t(1,2) l t(3,4), of "\<lambda>x. x" "[7]" "[]"]
  show ?thesis by blast
qed

text \<open>Failure sets no receive key on a connection; success sets both keys.\<close>

lemma setKey_Some:
  "setKey cr ch server s = (Some e, s') \<Longrightarrow> receive_aead s' = receive_aead s \<or> receive_aead s' = []"
  by (auto simp: setKey_def Let_def split: sum.splits)

lemma setKey_None:
  "setKey cr ch server s = (None, s') \<Longrightarrow>
    aead s' = sha256 cr (bytes_of (token_proof cr (tok s) (if server then ''server-key:'' else ''client-key:'') ch)) \<and>
    receive_aead s' = sha256 cr (bytes_of (token_proof cr (tok s) (if server then ''client-key:'' else ''server-key:'') ch))"
  by (auto simp: setKey_def make_key_def Let_def split: sum.splits if_splits)

definition keys_kept :: "sip_conn \<Rightarrow> sip_conn \<Rightarrow> bool" where
  "keys_kept s t \<longleftrightarrow> tok t = tok s \<and> receive_aead t = receive_aead s"

lemma keys_kept_ops:
  "request ord br me ex b s = (r, t) \<Longrightarrow> keys_kept s t"
  "reply ord st ex' m s = (r', t') \<Longrightarrow> keys_kept s t'"
  "read_message uni s = (r'', t'') \<Longrightarrow> keys_kept s t''"
  by (auto simp: request_def reply_def read_message_def keys_kept_def Let_def split: prod.splits)

lemma keys_kept_trans: "keys_kept s t \<Longrightarrow> keys_kept t u \<Longrightarrow> keys_kept s u"
  by (simp add: keys_kept_def)

text \<open>The HMAC inputs of the four labels never coincide, whatever follows them.\<close>

lemma labels_apart:
  "''client:'' @ x \<noteq> ''server:'' @ y" "''client-key:'' @ x \<noteq> ''server-key:'' @ y"
  "''client:'' @ x \<noteq> ''client-key:'' @ y" "''client:'' @ x \<noteq> ''server-key:'' @ y"
  "''server:'' @ x \<noteq> ''server-key:'' @ y" "''server:'' @ x \<noteq> ''client-key:'' @ y"
  by simp_all

text \<open>What a server that succeeds has done, and what one that fails leaves of its keys.\<close>

lemma serverAuth_accepts:
  assumes "serverAuth uni ord cr challenge s = (None, s')"
  obtains m1 s1 s2 m2 s3 s4 where "read_message uni s = (Inr m1, s1)" and "length (header m1 ''x-tunnel-nonce'') = 64"
    and "reply ord ''200 OK'' [(''X-Tunnel-Nonce'', challenge), (''X-Tunnel-Proof'',
      token_proof cr (tok s1) ''server:'' (header m1 ''x-tunnel-nonce'' @ challenge))] m1 s1 = (None, s2)"
    and "read_message uni s2 = (Inr m2, s3)"
    and "header m2 ''x-tunnel-proof'' = token_proof cr (tok s3) ''client:'' (header m1 ''x-tunnel-nonce'' @ challenge)"
    and "reply ord ''200 OK'' [] m2 s3 = (None, s4)"
    and "setKey cr (header m1 ''x-tunnel-nonce'' @ challenge) True s4 = (None, s')"
  using assms
  by (auto simp: serverAuth_def go_equal_iff Let_def split: prod.splits sum.splits option.splits if_splits)

lemma serverAuth_fails:
  assumes "serverAuth uni ord cr challenge s = (Some e, s')"
  shows "receive_aead s' = receive_aead s \<or> receive_aead s' = []"
proof -
  have read: "receive_aead s2 = receive_aead s1" if "read_message uni s1 = (x, s2)" for x s1 s2
    using keys_kept_ops(3) [OF that] by (simp add: keys_kept_def)
  have reply: "receive_aead s2 = receive_aead s1" if "reply ord st ex m s1 = (x, s2)" for st ex m x s1 s2
    using keys_kept_ops(2) [OF that] by (simp add: keys_kept_def)
  have key: "receive_aead s2 = receive_aead s1 \<or> receive_aead s2 = []" if "setKey cr c b s1 = (Some x, s2)" for c b x s1 s2
    using setKey_Some [OF that] .
  have reply_snd: "receive_aead (snd (reply ord st ex m s1)) = receive_aead s1" for st ex m s1
    using reply [of st ex m s1] by (metis prod.collapse)
  show ?thesis
    using assms
    by (auto simp: serverAuth_def Let_def reply_snd dest!: read reply key
        split: prod.splits sum.splits option.splits if_splits)
qed

text \<open>C3: Only the token opens a SIP session. Against an arbitrary peer, \<open>serverAuth\<close> succeeds only
  after two requests of which the second carries, as its proof, the HMAC under the server's token
  of the label \<open>client:\<close>, the nonce of the first and the server's fresh challenge; the keys are
  then derived from exactly these. No value the server itself computes has that
  input, so nothing it sent can be reflected to it. In every other case it fails and has no receive key.\<close>

theorem sip_server_needs_token:
  assumes "serverAuth uni ord cr challenge s = (r, s')"
  shows "(r \<noteq> None \<longrightarrow> receive_aead s' = receive_aead s \<or> receive_aead s' = []) \<and>
    (r = None \<longrightarrow> (\<exists>m1 m2 s1 s2 s3. read_message uni s = (Inr m1, s1) \<and> read_message uni s2 = (Inr m2, s3) \<and>
      rd (net s2) = rd (net s1) \<and> length (header m1 ''x-tunnel-nonce'') = 64 \<and>
      header m2 ''x-tunnel-proof'' =
        hex_bytes (hmac cr (bytes_of (tok s)) (bytes_of (''client:'' @ header m1 ''x-tunnel-nonce'' @ challenge))) \<and>
      aead s' = sha256 cr (bytes_of (token_proof cr (tok s) ''server-key:'' (header m1 ''x-tunnel-nonce'' @ challenge))) \<and>
      receive_aead s' = sha256 cr (bytes_of (token_proof cr (tok s) ''client-key:'' (header m1 ''x-tunnel-nonce'' @ challenge))) \<and>
      (\<forall>label data. label \<in> {''server:'', ''server-key:'', ''client-key:''} \<longrightarrow>
        label @ data \<noteq> ''client:'' @ header m1 ''x-tunnel-nonce'' @ challenge)))"
proof (cases r)
  case (Some e)
  with serverAuth_fails assms show ?thesis by auto
next
  case None
  obtain m1 s1 s2 m2 s3 s4 where a: "read_message uni s = (Inr m1, s1)" "length (header m1 ''x-tunnel-nonce'') = 64"
      "reply ord ''200 OK'' [(''X-Tunnel-Nonce'', challenge), (''X-Tunnel-Proof'',
        token_proof cr (tok s1) ''server:'' (header m1 ''x-tunnel-nonce'' @ challenge))] m1 s1 = (None, s2)"
      "read_message uni s2 = (Inr m2, s3)"
      "header m2 ''x-tunnel-proof'' = token_proof cr (tok s3) ''client:'' (header m1 ''x-tunnel-nonce'' @ challenge)"
      "reply ord ''200 OK'' [] m2 s3 = (None, s4)" "setKey cr (header m1 ''x-tunnel-nonce'' @ challenge) True s4 = (None, s')"
    using assms None serverAuth_accepts by blast
  have "keys_kept s s3" "keys_kept s3 s4"
    using keys_kept_trans [OF keys_kept_ops(3) [OF a(1)] keys_kept_trans [OF keys_kept_ops(2) [OF a(3)] keys_kept_ops(3) [OF a(4)]]]
      keys_kept_ops(2) [OF a(6)] by simp_all
  then have tok: "tok s3 = tok s" "tok s4 = tok s" by (simp_all add: keys_kept_def)
  have rd: "rd (net s2) = rd (net s1)" using a(3) send_frame by (auto simp: reply_def split: prod.splits)
  from setKey_None [OF a(7)] a(1,2,4,5) rd tok labels_apart None show ?thesis by (auto simp: token_proof_def)
qed

theorem sip_server_needs_token_witness:
  "\<exists>q n s'.
    serverAuth (\<lambda>x. x) (\<lambda>h. h) plain_crypto (replicate 64 CHR ''c'')
      (sample_conn\<lparr>net := (net sample_conn)\<lparr>rd := q @ []\<rparr>\<rparr>) = (None, s') \<and> length n = 64 \<and>
    receive_aead s' = sha256 plain_crypto (bytes_of
      (token_proof plain_crypto (tok sample_conn) ''client-key:'' (n @ replicate 64 CHR ''c'')))"
proof -
  have t: "tame (replicate 64 CHR ''a'')" "tame (replicate 64 CHR ''c'')" "tame ''b1''" "tame ''b2''"
    by (simp_all add: tame_def graphic_def list_all_iff)
  have l: "length (replicate 64 CHR ''a'') = 64" "length (replicate 64 CHR ''c'') = 64" by simp_all
  have w: "wsched (net sample_conn) = []" by (simp add: sample_conn_def newSIP_def conn_of_def)
  have sh: "shuffles rev" by (simp add: shuffles_def)
  from handshake_run [OF plain_crypto_ok(2) sh shuffles_ident sample_conn_named sample_conn_named
      w w refl t(1,2) l t(3,4), of "\<lambda>x. x" "[7]" "[]"]
  obtain q s' where s: "serverAuth (\<lambda>x. x) (\<lambda>h. h) plain_crypto (replicate 64 CHR ''c'')
      (sample_conn\<lparr>net := (net sample_conn)\<lparr>rd := q @ []\<rparr>\<rparr>) = (None, s')" by blast
  from sip_server_needs_token [OF s] obtain n where "length n = 64"
    "receive_aead s' = sha256 plain_crypto (bytes_of
      (token_proof plain_crypto (tok sample_conn) ''client-key:'' (n @ replicate 64 CHR ''c'')))"
    by auto
  with s show ?thesis by blast
qed

end
