(* ===== verification/Slot.thy ===== *)
theory Slot
  imports Prelude
begin

text \<open>
  The gate both servers put before a session: \<open>serveStream\<close> with a channel of capacity one,
  \<open>serveWebRTC\<close> with an atomic flag. The specification is a slot with at most one holder. The
  locale \<open>slot_gate\<close> is the simulation a server has to prove, step by step, and gives it the
  refinement of whole runs.
\<close>

text \<open>The specification: the slot is empty or held by one client.\<close>

inductive slot_step :: "'i option \<Rightarrow> 'i option \<Rightarrow> bool" where
  acquire: "slot_step None (Some i)"
| release: "slot_step (Some i) None"

inductive_simps slot_step_simps [simp]: "slot_step None h" "slot_step (Some i) h"

text \<open>What one step of a server does to its gate and to the set of clients it serves: nothing, or
  it admits one through the free gate, or one of them leaves and frees the gate.\<close>

definition slot_move :: "bool \<times> ('i \<Rightarrow> bool) \<Rightarrow> bool \<times> ('i \<Rightarrow> bool) \<Rightarrow> bool" where
  "slot_move x y \<longleftrightarrow>
    y = x \<or>
    (\<exists>i. \<not> fst x \<and> y = (True, (snd x)(i := True))) \<or>
    (\<exists>i. snd x i \<and> y = (False, (snd x)(i := False)))"

lemma slot_move_same [intro]: "slot_move x x"
  by (simp add: slot_move_def)

lemma slot_move_enter: "\<not> a \<Longrightarrow> K = H(i := True) \<Longrightarrow> slot_move (a, H) (True, K)"
  by (auto simp: slot_move_def)

lemma slot_move_leave: "H i \<Longrightarrow> K = H(i := False) \<Longrightarrow> slot_move (a, H) (False, K)"
  by (auto simp: slot_move_def)

text \<open>A gate and its clients show the slot \<open>h\<close>.\<close>

definition shows_slot :: "bool \<times> ('i \<Rightarrow> bool) \<Rightarrow> 'i option \<Rightarrow> bool" where
  "shows_slot x h \<longleftrightarrow> fst x = (h \<noteq> None) \<and> snd x = (\<lambda>i. h = Some i)"

lemma slot_move_simulates:
  assumes "slot_move x y" and "shows_slot x h"
  shows "\<exists>h'. slot_step\<^sup>=\<^sup>= h h' \<and> shows_slot y h'"
  using assms(1) unfolding slot_move_def
proof (elim disjE exE conjE)
  assume "y = x"
  then show ?thesis using assms(2) by auto
next
  fix i assume "\<not> fst x" and y: "y = (True, (snd x)(i := True))"
  then have "h = None" using assms(2) by (simp add: shows_slot_def)
  with y assms(2) show ?thesis
    by (intro exI [of _ "Some i"]) (auto simp: shows_slot_def fun_eq_iff)
next
  fix i assume "snd x i" and y: "y = (False, (snd x)(i := False))"
  then have "h = Some i" using assms(2) by (simp add: shows_slot_def)
  with y assms(2) show ?thesis
    by (intro exI [of _ None]) (auto simp: shows_slot_def fun_eq_iff)
qed

locale slot_gate =
  fixes step :: "'s \<Rightarrow> 's \<Rightarrow> bool"
    and init :: 's
    and inv :: "'s \<Rightarrow> bool"
    and taken :: "'s \<Rightarrow> bool"
    and serving :: "'s \<Rightarrow> 'i \<Rightarrow> bool"
  assumes init_inv: "inv init"
    and init_free: "shows_slot (taken init, serving init) None"
    and step_inv: "inv s \<Longrightarrow> step s t \<Longrightarrow> inv t"
    and step_slot: "inv s \<Longrightarrow> step s t \<Longrightarrow> slot_move (taken s, serving s) (taken t, serving t)"
begin

lemma reach_inv: "step\<^sup>*\<^sup>* init s \<Longrightarrow> inv s"
  by (induction rule: rtranclp_induct) (auto intro: init_inv step_inv)

theorem refines:
  assumes "step\<^sup>*\<^sup>* init s"
  shows "\<exists>h. slot_step\<^sup>*\<^sup>* None h \<and> shows_slot (taken s, serving s) h"
  using assms
proof (induction rule: rtranclp_induct)
  case base
  show ?case using init_free by blast
next
  case (step s t)
  from step.IH obtain h where h: "slot_step\<^sup>*\<^sup>* None h" "shows_slot (taken s, serving s) h" by blast
  from slot_move_simulates [OF step_slot [OF reach_inv [OF step.hyps(1)] step.hyps(2)] h(2)]
  obtain h' where "slot_step\<^sup>=\<^sup>= h h'" "shows_slot (taken t, serving t) h'" by blast
  with h(1) show ?case by (auto intro: rtranclp.rtrancl_into_rtrancl)
qed

lemma one_served: "step\<^sup>*\<^sup>* init s \<Longrightarrow> serving s i \<Longrightarrow> serving s j \<Longrightarrow> i = j"
  using refines [of s] by (auto simp: shows_slot_def)

lemma served_taken: "step\<^sup>*\<^sup>* init s \<Longrightarrow> serving s i \<Longrightarrow> taken s"
  using refines [of s] by (auto simp: shows_slot_def)

end

end
