(* ===== verification/Serve.thy ===== *)
theory Serve
  imports Slot
begin

text \<open>
  \<open>serveStream\<close> of \<open>internal/transport/transport.go\<close>: the accept loop of the SIP and REALITY
  servers, with the goroutine of every accepted connection. The listener, the connections, the
  authentication and the handler are the environment: they decide when a call returns and
  whether it fails. The steps are the statements that touch shared state, in the order of the
  code, the deferred calls last.
\<close>

subsection \<open>States\<close>

text \<open>A connection: not accepted yet; accepted, and then either refused or, past the gate, on its
  way through the goroutine.\<close>

datatype conn_pc =
    Untouched
  | Accepted
  | Refused
  | Entered
  | Authenticating
  | Handling
  | ClosingPacket
  | ClosingConn
  | LeavingGate
  | LeavingGroup
  | Gone

text \<open>The accept loop: in \<open>Accept\<close>, at the \<open>select\<close> with connection \<open>i\<close>, about to close it,
  about to start its goroutine; then the deferred calls.\<close>

datatype serve_main =
    Accepting
  | Selecting nat
  | Refusing nat
  | Spawning nat
  | Cancelling
  | Joining
  | ClosingListener
  | Returned

text \<open>\<open>gate\<close> is true when the channel of capacity one is full, \<open>group\<close> is the counter of the
  \<open>WaitGroup\<close>; \<open>result\<close> is what the loop returned.\<close>

record 'e serve =
  gate :: bool
  group :: nat
  conn :: "nat \<Rightarrow> conn_pc"
  conn_open :: "nat \<Rightarrow> bool"
  cancelled :: bool
  listening :: bool
  main :: serve_main
  result :: "'e option option"

definition serve_init :: "'e serve" where
  "serve_init = \<lparr>gate = False, group = 0, conn = (\<lambda>_. Untouched), conn_open = (\<lambda>_. False),
    cancelled = False, listening = True, main = Accepting, result = None\<rparr>"

definition goto_conn :: "nat \<Rightarrow> conn_pc \<Rightarrow> 'e serve \<Rightarrow> 'e serve" where
  "goto_conn i p s = s\<lparr>conn := (conn s)(i := p)\<rparr>"

definition close_conn :: "nat \<Rightarrow> 'e serve \<Rightarrow> 'e serve" where
  "close_conn i s = s\<lparr>conn_open := (conn_open s)(i := False)\<rparr>"

subsection \<open>Steps\<close>

text \<open>A connection's goroutine has been started and has not yet called \<open>wg.Done\<close>.\<close>

definition counted :: "conn_pc \<Rightarrow> bool" where
  "counted p \<longleftrightarrow> p \<in> {Authenticating, Handling, ClosingPacket, ClosingConn, LeavingGate, LeavingGroup}"

inductive serve_step :: "'e serve \<Rightarrow> 'e serve \<Rightarrow> bool" where
  accept: "main s = Accepting \<Longrightarrow> conn s i = Untouched \<Longrightarrow>
    serve_step s (goto_conn i Accepted s\<lparr>conn_open := (conn_open s)(i := True), main := Selecting i\<rparr>)"
| accept_fails: "main s = Accepting \<Longrightarrow>
    serve_step s (s\<lparr>main := Cancelling, result := Some (if cancelled s then None else Some e)\<rparr>)"
| enter: "main s = Selecting i \<Longrightarrow> \<not> gate s \<Longrightarrow>
    serve_step s (goto_conn i Entered s\<lparr>gate := True, main := Spawning i\<rparr>)"
| full: "main s = Selecting i \<Longrightarrow> gate s \<Longrightarrow> serve_step s (s\<lparr>main := Refusing i\<rparr>)"
| refuse: "main s = Refusing i \<Longrightarrow>
    serve_step s (close_conn i (goto_conn i Refused s)\<lparr>main := Accepting\<rparr>)"
| spawn: "main s = Spawning i \<Longrightarrow>
    serve_step s (goto_conn i Authenticating s\<lparr>group := group s + 1, main := Accepting\<rparr>)"
| auth_fails: "conn s i = Authenticating \<Longrightarrow> serve_step s (goto_conn i ClosingConn s)"
| auth_passes: "conn s i = Authenticating \<Longrightarrow> serve_step s (goto_conn i Handling s)"
| handler_returns: "conn s i = Handling \<Longrightarrow> serve_step s (goto_conn i ClosingPacket s)"
| close_packet: "conn s i = ClosingPacket \<Longrightarrow> serve_step s (goto_conn i ClosingConn s)"
| close_own: "conn s i = ClosingConn \<Longrightarrow> serve_step s (close_conn i (goto_conn i LeavingGate s))"
| leave_gate: "conn s i = LeavingGate \<Longrightarrow>
    serve_step s (goto_conn i LeavingGroup s\<lparr>gate := False\<rparr>)"
| leave_group: "conn s i = LeavingGroup \<Longrightarrow>
    serve_step s (goto_conn i Gone s\<lparr>group := group s - 1\<rparr>)"
| cancel: "serve_step s (s\<lparr>cancelled := True\<rparr>)"
| after_listener: "cancelled s \<Longrightarrow> serve_step s (s\<lparr>listening := False\<rparr>)"
| after_conn: "cancelled s \<Longrightarrow> counted (conn s i) \<or> conn s i = Gone \<Longrightarrow> serve_step s (close_conn i s)"
| main_cancel: "main s = Cancelling \<Longrightarrow> serve_step s (s\<lparr>cancelled := True, main := Joining\<rparr>)"
| main_join: "main s = Joining \<Longrightarrow> group s = 0 \<Longrightarrow> serve_step s (s\<lparr>main := ClosingListener\<rparr>)"
| main_close: "main s = ClosingListener \<Longrightarrow>
    serve_step s (s\<lparr>listening := False, main := Returned\<rparr>)"

abbreviation serve_reach :: "'e serve \<Rightarrow> bool" where
  "serve_reach \<equiv> serve_step\<^sup>*\<^sup>* serve_init"

subsection \<open>One session at a time\<close>

text \<open>A connection holds the gate.\<close>

definition in_service :: "conn_pc \<Rightarrow> bool" where
  "in_service p \<longleftrightarrow> p = Entered \<or> (counted p \<and> p \<noteq> LeavingGroup)"

lemmas pc_sets = in_service_def counted_def

text \<open>The connection the loop is about to dispose of.\<close>

definition main_conn :: "'e serve \<Rightarrow> bool" where
  "main_conn s \<longleftrightarrow>
    (case main s of Selecting i \<Rightarrow> conn s i = Accepted | Refusing i \<Rightarrow> conn s i = Accepted
      | Spawning i \<Rightarrow> conn s i = Entered | _ \<Rightarrow> True) \<and>
    (\<forall>i. conn s i \<in> {Accepted, Entered} \<longrightarrow> main s \<in> {Selecting i, Refusing i, Spawning i})"

text \<open>The connections are closed unless their goroutine or the loop still will close them.\<close>

definition conns_closed :: "'e serve \<Rightarrow> bool" where
  "conns_closed s \<longleftrightarrow> (\<forall>i. conn_open s i \<longrightarrow>
    conn s i \<in> {Accepted, Entered, Authenticating, Handling, ClosingPacket, ClosingConn})"

definition grouped :: "'e serve \<Rightarrow> bool" where
  "grouped s \<longleftrightarrow> finite {i. counted (conn s i)} \<and> group s = card {i. counted (conn s i)}"

definition leaves :: "'e serve \<Rightarrow> bool" where
  "leaves s \<longleftrightarrow>
    (main s \<in> {Cancelling, Joining, ClosingListener, Returned} \<longrightarrow> result s \<noteq> None) \<and>
    (main s \<in> {Joining, ClosingListener, Returned} \<longrightarrow> cancelled s) \<and>
    (main s \<in> {ClosingListener, Returned} \<longrightarrow> (\<forall>i. \<not> counted (conn s i))) \<and>
    (main s = Returned \<longrightarrow> \<not> listening s) \<and>
    (result s = Some None \<longrightarrow> cancelled s)"

definition serve_inv :: "'e serve \<Rightarrow> bool" where
  "serve_inv s \<longleftrightarrow> main_conn s \<and> conns_closed s \<and> grouped s \<and> leaves s"

lemmas serve_ops = goto_conn_def close_conn_def

lemma main_conn_own:
  "main_conn s \<Longrightarrow> main s = Selecting i \<Longrightarrow> conn s i = Accepted"
  "main_conn s \<Longrightarrow> main s = Refusing i \<Longrightarrow> conn s i = Accepted"
  "main_conn s \<Longrightarrow> main s = Spawning i \<Longrightarrow> conn s i = Entered"
  by (simp_all add: main_conn_def)

lemma main_conn_fields [simp]:
  "main_conn (s\<lparr>gate := g\<rparr>) = main_conn s" "main_conn (s\<lparr>group := n\<rparr>) = main_conn s"
  "main_conn (s\<lparr>conn_open := f\<rparr>) = main_conn s" "main_conn (s\<lparr>cancelled := c\<rparr>) = main_conn s"
  "main_conn (s\<lparr>listening := l\<rparr>) = main_conn s"
  by (simp_all add: main_conn_def cong: serve_main.case_cong)

lemma main_conn_goto:
  assumes "main_conn s" and "conn s i \<notin> {Accepted, Entered}" and "p \<notin> {Accepted, Entered}"
  shows "main_conn (goto_conn i p s)"
  using assms unfolding main_conn_def goto_conn_def by (auto split: serve_main.splits)

lemma main_conn_step: "serve_step s t \<Longrightarrow> main_conn s \<Longrightarrow> main_conn t"
proof (induction rule: serve_step.induct)
  case (accept s i)
  then show ?case unfolding main_conn_def serve_ops by auto
next
  case (accept_fails s e)
  then show ?case unfolding main_conn_def by auto
next
  case (enter s i)
  then show ?case unfolding main_conn_def serve_ops by auto
next
  case (full s i)
  then show ?case unfolding main_conn_def serve_ops by auto
next
  case (spawn s i)
  then show ?case unfolding main_conn_def serve_ops by auto
next
  case (refuse s i)
  then show ?case unfolding main_conn_def serve_ops by auto
next
  case (main_cancel s)
  then show ?case unfolding main_conn_def by auto
next
  case (main_join s)
  then show ?case unfolding main_conn_def by auto
next
  case (main_close s)
  then show ?case unfolding main_conn_def by auto
qed (simp_all add: main_conn_goto close_conn_def)

lemma conns_closed_gone: "conns_closed s \<Longrightarrow> conn s i \<in> {LeavingGate, LeavingGroup} \<Longrightarrow> \<not> conn_open s i"
  unfolding conns_closed_def by (elim allE [of _ i]) auto

lemma conns_closed_step: "serve_step s t \<Longrightarrow> main_conn s \<Longrightarrow> conns_closed s \<Longrightarrow> conns_closed t"
proof (induction rule: serve_step.induct)
  case (leave_gate s i)
  with conns_closed_gone [of s i] show ?case by (simp add: conns_closed_def serve_ops)
next
  case (leave_group s i)
  with conns_closed_gone [of s i] show ?case by (simp add: conns_closed_def serve_ops)
qed (simp_all add: conns_closed_def main_conn_own serve_ops)

lemma counted_upd:
  "{j. counted ((f(i := p)) j)} =
    (if counted p then insert i {j. counted (f j)} else {j. counted (f j)} - {i})"
  by auto

lemma grouped_fields [simp]:
  "grouped (s\<lparr>main := m\<rparr>) = grouped s" "grouped (s\<lparr>gate := g\<rparr>) = grouped s"
  "grouped (s\<lparr>result := r\<rparr>) = grouped s" "grouped (s\<lparr>cancelled := c\<rparr>) = grouped s"
  "grouped (s\<lparr>listening := l\<rparr>) = grouped s" "grouped (s\<lparr>conn_open := f\<rparr>) = grouped s"
  by (simp_all add: grouped_def)

lemma grouped_goto: "grouped s \<Longrightarrow> counted p = counted (conn s i) \<Longrightarrow> grouped (goto_conn i p s)"
  by (auto simp: grouped_def goto_conn_def counted_upd insert_absorb simp del: fun_upd_apply)

lemma grouped_enter:
  "grouped s \<Longrightarrow> counted p \<Longrightarrow> \<not> counted (conn s i) \<Longrightarrow> grouped (goto_conn i p s\<lparr>group := group s + 1\<rparr>)"
  by (simp add: grouped_def goto_conn_def counted_upd del: fun_upd_apply)

lemma grouped_leave:
  "grouped s \<Longrightarrow> \<not> counted p \<Longrightarrow> counted (conn s i) \<Longrightarrow> grouped (goto_conn i p s\<lparr>group := group s - 1\<rparr>)"
  by (simp add: grouped_def goto_conn_def counted_upd del: fun_upd_apply)

lemma grouped_step: "serve_step s t \<Longrightarrow> main_conn s \<Longrightarrow> grouped s \<Longrightarrow> grouped t"
proof (induction rule: serve_step.induct)
  case (spawn s i)
  then have "conn s i = Entered" by (simp add: main_conn_own)
  then have "\<not> counted (conn s i)" by (simp add: counted_def)
  from grouped_enter [OF spawn(3) _ this, of Authenticating] show ?case
    by (simp add: counted_def)
next
  case (leave_group s i)
  then show ?case by (intro grouped_leave) (simp_all add: counted_def)
qed (simp_all add: grouped_goto counted_def main_conn_own close_conn_def)

lemma grouped_zero: "grouped s \<Longrightarrow> group s = 0 \<Longrightarrow> \<not> counted (conn s i)"
  by (auto simp: grouped_def)

lemma leaves_goto [simp]:
  "leaves s \<Longrightarrow> counted (conn s i) \<Longrightarrow> leaves (goto_conn i p s)"
  unfolding leaves_def goto_conn_def by auto

lemma leaves_fields [simp]:
  "leaves (s\<lparr>gate := g\<rparr>) = leaves s" "leaves (s\<lparr>group := n\<rparr>) = leaves s"
  "leaves (s\<lparr>conn_open := f\<rparr>) = leaves s"
  by (simp_all add: leaves_def)

lemma leaves_step: "serve_step s t \<Longrightarrow> grouped s \<Longrightarrow> leaves s \<Longrightarrow> leaves t"
proof (induction rule: serve_step.induct)
  case (main_join s)
  with grouped_zero [of s] show ?case by (simp add: leaves_def)
next
  case (accept s i)
  then show ?case by (simp add: leaves_def serve_ops)
next
  case (accept_fails s e)
  show ?case by (simp add: leaves_def)
next
  case (enter s i)
  then show ?case by (simp add: leaves_def serve_ops)
next
  case (full s i)
  then show ?case by (simp add: leaves_def serve_ops)
next
  case (refuse s i)
  then show ?case by (simp add: leaves_def serve_ops)
next
  case (spawn s i)
  then show ?case by (simp add: leaves_def serve_ops)
next
  case (cancel s)
  then show ?case by (simp add: leaves_def)
next
  case (after_listener s)
  then show ?case by (simp add: leaves_def)
next
  case (main_cancel s)
  then show ?case by (simp add: leaves_def)
next
  case (main_close s)
  then show ?case by (simp add: leaves_def)
qed (simp_all add: counted_def close_conn_def)

lemma serve_inv_step: "serve_inv s \<Longrightarrow> serve_step s t \<Longrightarrow> serve_inv t"
  unfolding serve_inv_def
  using main_conn_step conns_closed_step grouped_step leaves_step by blast

lemma serve_slot:
  "serve_step s t \<Longrightarrow> main_conn s \<Longrightarrow>
    slot_move (gate s, in_service \<circ> conn s) (gate t, in_service \<circ> conn t)"
proof (induction rule: serve_step.induct)
  case (enter s i)
  with slot_move_enter [OF enter(2), of _ _ i] show ?case
    by (simp add: goto_conn_def fun_eq_iff in_service_def)
next
  case (leave_gate s i)
  have "(in_service \<circ> conn s) i" using leave_gate by (simp add: pc_sets)
  then show ?case unfolding goto_conn_def
    by (auto intro!: slot_move_leave simp: pc_sets fun_eq_iff)
qed (auto simp: slot_move_def serve_ops pc_sets main_conn_def fun_eq_iff)

lemma serve_inv_init: "serve_inv serve_init"
  by (simp add: serve_inv_def serve_init_def main_conn_def conns_closed_def grouped_def leaves_def counted_def)

interpretation stream_gate: slot_gate serve_step serve_init serve_inv gate "\<lambda>s i. in_service (conn s i)"
proof
  fix s t :: "'a serve"
  assume "serve_inv s" and "serve_step s t"
  then show "slot_move (gate s, \<lambda>i. in_service (conn s i)) (gate t, \<lambda>i. in_service (conn t i))"
    using serve_slot [of s t] by (simp add: serve_inv_def comp_def)
qed (fact serve_inv_init, simp add: shows_slot_def serve_init_def in_service_def counted_def, fact serve_inv_step)

subsection \<open>The loop can return\<close>

lemma serve_then: "serve_step s t \<Longrightarrow> \<exists>u. serve_step\<^sup>*\<^sup>* t u \<and> P u \<Longrightarrow> \<exists>u. serve_step\<^sup>*\<^sup>* s u \<and> P u"
  by (meson converse_rtranclp_into_rtranclp)

definition finishes :: "nat \<Rightarrow> 'e serve \<Rightarrow> 'e serve \<Rightarrow> bool" where
  "finishes i s u \<longleftrightarrow> conn u = (conn s)(i := Gone) \<and> main u = main s \<and> group u = group s - 1"

lemma finish_conn:
  assumes "counted (conn s i)"
  shows "\<exists>u. serve_step\<^sup>*\<^sup>* s u \<and> finishes i s u"
proof -
  have g: "\<exists>u. serve_step\<^sup>*\<^sup>* t u \<and> finishes i t u" if "conn t i = LeavingGroup" for t :: "'a serve"
    by (rule serve_then [OF serve_step.leave_group [OF that]])
      (auto simp: finishes_def goto_conn_def intro!: exI [of _ "goto_conn i Gone t\<lparr>group := group t - 1\<rparr>"])
  have l: "\<exists>u. serve_step\<^sup>*\<^sup>* t u \<and> finishes i t u" if "conn t i = LeavingGate" for t :: "'a serve"
    using g [of "goto_conn i LeavingGroup t\<lparr>gate := False\<rparr>"]
    by (intro serve_then [OF serve_step.leave_gate [OF that]]) (simp add: finishes_def goto_conn_def)
  have c: "\<exists>u. serve_step\<^sup>*\<^sup>* t u \<and> finishes i t u" if "conn t i = ClosingConn" for t :: "'a serve"
    using l [of "close_conn i (goto_conn i LeavingGate t)"]
    by (intro serve_then [OF serve_step.close_own [OF that]]) (simp add: finishes_def serve_ops)
  have p: "\<exists>u. serve_step\<^sup>*\<^sup>* t u \<and> finishes i t u" if "conn t i = ClosingPacket" for t :: "'a serve"
    using c [of "goto_conn i ClosingConn t"]
    by (intro serve_then [OF serve_step.close_packet [OF that]]) (simp add: finishes_def serve_ops)
  have h: "\<exists>u. serve_step\<^sup>*\<^sup>* t u \<and> finishes i t u" if "conn t i = Handling" for t :: "'a serve"
    using p [of "goto_conn i ClosingPacket t"]
    by (intro serve_then [OF serve_step.handler_returns [OF that]]) (simp add: finishes_def serve_ops)
  have a: "\<exists>u. serve_step\<^sup>*\<^sup>* t u \<and> finishes i t u" if "conn t i = Authenticating" for t :: "'a serve"
    using c [of "goto_conn i ClosingConn t"]
    by (intro serve_then [OF serve_step.auth_fails [OF that]]) (simp add: finishes_def serve_ops)
  from assms g l c p h a show ?thesis unfolding counted_def by blast
qed

lemma drain:
  assumes "grouped s" and "main s = Joining"
  shows "\<exists>u. serve_step\<^sup>*\<^sup>* s u \<and> main u = Joining \<and> group u = 0"
  using assms
proof (induction "group s" arbitrary: s)
  case 0
  then show ?case by auto
next
  case (Suc n)
  then obtain i where "counted (conn s i)"
    by (metis (mono_tags, lifting) Collect_empty_eq card.empty grouped_def nat.distinct(1))
  with finish_conn obtain t where t: "serve_step\<^sup>*\<^sup>* s t" "finishes i s t" by blast
  have "grouped t"
    using t(2) Suc.prems(1) \<open>counted (conn s i)\<close>
    by (simp add: grouped_def finishes_def counted_upd counted_def [of Gone] del: fun_upd_apply)
  with Suc.hyps t(2) Suc.prems(2) obtain u where
    "serve_step\<^sup>*\<^sup>* t u" "main u = Joining" "group u = 0"
    by (metis diff_Suc_1 finishes_def)
  with t(1) show ?case by (meson rtranclp_trans)
qed

lemma can_join:
  assumes "grouped s" and "main s \<in> {Cancelling, Joining, ClosingListener}"
  shows "\<exists>u. serve_step\<^sup>*\<^sup>* s u \<and> main u = Returned"
proof -
  have l: "\<exists>u. serve_step\<^sup>*\<^sup>* t u \<and> main u = Returned" if "main t = ClosingListener" for t :: "'a serve"
    using r_into_rtranclp [of serve_step, OF serve_step.main_close [OF that]] by fastforce
  have z: "\<exists>u. serve_step\<^sup>*\<^sup>* t u \<and> main u = Returned" if "main t = Joining" "group t = 0" for t :: "'a serve"
    by (rule serve_then [OF serve_step.main_join [OF that]]) (rule l, simp)
  have j: "\<exists>u. serve_step\<^sup>*\<^sup>* t u \<and> main u = Returned" if "grouped t" "main t = Joining" for t :: "'a serve"
    using drain [OF that] z by (meson rtranclp_trans)
  have "\<exists>u. serve_step\<^sup>*\<^sup>* s u \<and> main u = Returned" if "main s = Cancelling"
    by (rule serve_then [OF serve_step.main_cancel [OF that]]) (rule j, simp_all add: assms(1))
  with assms l j show ?thesis by blast
qed

subsection \<open>Properties\<close>

text \<open>C14: A stream server refines the one-slot gate. Every run of \<open>serveStream\<close>, whatever connects
  and however the goroutines interleave, is a run of the specification in which the slot is held
  by exactly the connection between its admission and the release of the gate; so at
  most one connection is ever being authenticated or handled.\<close>

theorem serve_refines_slot:
  assumes "serve_step\<^sup>*\<^sup>* serve_init s"
  shows "\<exists>h. slot_step\<^sup>*\<^sup>* None h \<and> gate s = (h \<noteq> None) \<and> (\<forall>i. in_service (conn s i) \<longleftrightarrow> h = Some i)"
  using stream_gate.refines [OF assms] unfolding shows_slot_def fst_conv snd_conv by metis

theorem serve_refines_slot_witness:
  "\<exists>s :: nat serve. serve_step\<^sup>*\<^sup>* serve_init s \<and> main s = Refusing 1 \<and> gate s \<and>
    (\<forall>i. in_service (conn s i) \<longleftrightarrow> i = 0)"
proof -
  obtain a :: "nat serve" where a: "serve_step serve_init a" "main a = Selecting 0" "\<not> gate a"
      "conn a = (\<lambda>_. Untouched)(0 := Accepted)"
    by (rule that, rule serve_step.accept [of _ 0]) (simp_all add: goto_conn_def serve_init_def)
  obtain b where b: "serve_step a b" "main b = Spawning 0" "gate b" "conn b = (\<lambda>_. Untouched)(0 := Entered)"
    by (rule that, rule serve_step.enter [OF a(2,3)]) (simp_all add: goto_conn_def a(4))
  obtain c where c: "serve_step b c" "main c = Accepting" "gate c" "conn c = (\<lambda>_. Untouched)(0 := Authenticating)"
    by (rule that, rule serve_step.spawn [OF b(2)]) (simp_all add: goto_conn_def b(3,4))
  obtain d where d: "serve_step c d" "main d = Selecting 1" "gate d"
      "conn d = (\<lambda>_. Untouched)(0 := Authenticating, 1 := Accepted)"
    by (rule that, rule serve_step.accept [OF c(2), of 1]) (simp_all add: goto_conn_def c(3,4))
  let ?s = "d\<lparr>main := Refusing 1\<rparr>"
  have run: "serve_step\<^sup>*\<^sup>* serve_init ?s"
    by (intro rtranclp.rtrancl_into_rtrancl [OF rtranclp.rtrancl_into_rtrancl [OF
          rtranclp.rtrancl_into_rtrancl [OF rtranclp.rtrancl_into_rtrancl [OF
          r_into_rtranclp [of serve_step, OF a(1)] b(1)] c(1)] d(1)] serve_step.full [OF d(2,3)]])
  from serve_refines_slot [OF run] obtain h where h: "\<forall>i. in_service (conn ?s i) \<longleftrightarrow> h = Some i" by blast
  have "in_service (conn ?s 0)" by (simp add: d(4) pc_sets)
  with h have "h = Some 0" by blast
  with h have "\<forall>i. in_service (conn ?s i) \<longleftrightarrow> i = 0" by auto
  with run d(3) show ?thesis by (intro exI [of _ ?s]) simp
qed

text \<open>C15: A stream server leaves nothing behind. When \<open>serveStream\<close> has returned, every goroutine it
  started has ended, every connection it accepted is closed, the listener is closed, its context
  is cancelled and the gate is free; it returns no error only if its context was done. Once the
  loop has been left the return is always still possible.\<close>

theorem serve_joins:
  assumes "serve_step\<^sup>*\<^sup>* serve_init s"
  shows "(main s = Returned \<longrightarrow> (\<forall>i. conn s i \<in> {Untouched, Refused, Gone} \<and> \<not> conn_open s i) \<and>
      \<not> gate s \<and> \<not> listening s \<and> cancelled s \<and> result s \<noteq> None) \<and>
    (result s = Some None \<longrightarrow> cancelled s) \<and>
    (main s \<in> {Cancelling, Joining, ClosingListener} \<longrightarrow> (\<exists>u. serve_step\<^sup>*\<^sup>* s u \<and> main u = Returned))"
proof -
  have inv: "main_conn s" "conns_closed s" "grouped s" "leaves s"
    using stream_gate.reach_inv [OF assms] by (simp_all add: serve_inv_def)
  have ended: "conn s i \<in> {Untouched, Refused, Gone}" if "main s = Returned" for i
    using inv(1,4) that by (cases "conn s i") (auto simp: main_conn_def leaves_def counted_def)
  then have "\<not> conn_open s i" if "main s = Returned" for i
    using inv(2) ended [OF that, of i] unfolding conns_closed_def by (elim allE [of _ i]) auto
  moreover have "\<not> gate s" if "main s = Returned"
  proof -
    have "\<not> in_service (conn s i)" for i using ended [OF that, of i] by (auto simp: pc_sets)
    then show ?thesis using stream_gate.refines [OF assms] by (auto simp: shows_slot_def fun_eq_iff)
  qed
  ultimately show ?thesis using ended inv(3,4) can_join [of s] by (auto simp: leaves_def)
qed

theorem serve_joins_witness:
  "\<exists>s :: nat serve. serve_step\<^sup>*\<^sup>* serve_init s \<and> result s = Some (Some 7) \<and>
    (\<exists>u. serve_step\<^sup>*\<^sup>* s u \<and> main u = Returned)"
proof -
  have "serve_step serve_init (serve_init\<lparr>main := Cancelling, result := Some (Some 7)\<rparr> :: nat serve)"
    using serve_step.accept_fails [of "serve_init :: nat serve" 7] by (simp add: serve_init_def)
  then have run: "serve_step\<^sup>*\<^sup>* serve_init (serve_init\<lparr>main := Cancelling, result := Some (Some 7)\<rparr> :: nat serve)"
    by (rule r_into_rtranclp)
  from serve_joins [OF this] run show ?thesis by fastforce
qed

end
