(* ===== verification/RtcConn.thy ===== *)
theory RtcConn
  imports Fragments Netconn GoStrings Netip "HOL-Library.Multiset" "HOL-Library.Sublist"
begin

text \<open>
  The packet connection of \<open>internal/transport/webrtc.go\<close>: \<open>rtcConn\<close> with its RTP numbering, the
  receive loop that \<open>newPeer\<close> installs for the remote track, and the heartbeat. The peer connection and the track of the WebRTC library are seen through
  what they do to the program: a track accepts an RTP packet or fails, as the schedule
  \<open>r_sched\<close> says, and delivers packets to the receive loop in any way it likes. Times since
  \<open>p.start\<close> are nanoseconds.
\<close>

subsection \<open>The connection\<close>

record rtp =
  rtp_version :: nat
  seqno :: "16 word"
  timestamp :: "32 word"
  marker :: bool
  payload :: packet

datatype rtc_error =
    RtcEOF
  | RtcTooLarge
  | TrackError string
  | RtcContext string
  | ConnectTimeout

text \<open>An entry of the schedule: whether the packet reached the network, and what \<open>WriteRTP\<close> returns.\<close>

record rtc =
  r_wire :: "rtp list"
  r_sched :: "(bool \<times> string option) list"
  r_rx :: "packet list"
  r_ready :: bool
  r_done :: bool
  r_seq :: "16 word"
  r_id :: "32 word"
  r_remotes :: "string list"
  r_dropped :: "64 word"

definition new_rtc :: "(bool \<times> string option) list \<Rightarrow> rtc" where
  "new_rtc sched = \<lparr>r_wire = [], r_sched = sched, r_rx = [], r_ready = False, r_done = False,
    r_seq = 0, r_id = 0, r_remotes = [], r_dropped = 0\<rparr>"

definition rx_capacity :: nat where
  "rx_capacity = 256"

text \<open>\<open>Close\<close>, once.\<close>

definition rtc_Close :: "rtc \<Rightarrow> rtc" where
  "rtc_Close p = p\<lparr>r_done := True\<rparr>"

text \<open>\<open>d\<close> tells whether a \<open>select\<close> whose other case is ready too takes \<open>done\<close>.\<close>

definition rtc_ReadPacket :: "bool \<Rightarrow> rtc \<Rightarrow> ((rtc_error + packet) \<times> rtc) option" where
  "rtc_ReadPacket d p =
    (if d \<and> r_done p then Some (Inl RtcEOF, p)
     else case r_rx p of
       b # bs \<Rightarrow> Some (Inr b, p\<lparr>r_rx := bs\<rparr>)
     | [] \<Rightarrow> if r_done p then Some (Inl RtcEOF, p) else None)"

subsection \<open>Sending\<close>

definition write_rtp :: "rtp \<Rightarrow> rtc \<Rightarrow> string option \<times> rtc" where
  "write_rtp x p =
    (case r_sched p of
       [] \<Rightarrow> (None, p\<lparr>r_wire := r_wire p @ [x]\<rparr>)
     | (sent, e) # rest \<Rightarrow>
         (e, p\<lparr>r_wire := r_wire p @ (if sent then [x] else []), r_sched := rest\<rparr>))"

text \<open>\<open>uint32(time.Since(p.start).Microseconds() * 90 / 1000)\<close>.\<close>

definition rtp_time :: "int \<Rightarrow> 32 word" where
  "rtp_time ns = of_int (ns div 1000 * 90 div 1000)"

fun send_parts :: "32 word \<Rightarrow> packet list \<Rightarrow> rtc \<Rightarrow> rtc_error option \<times> rtc" where
  "send_parts ts [] p = (None, p)"
| "send_parts ts (b # bs) p =
     (let p1 = p\<lparr>r_seq := r_seq p + 1\<rparr>
      in case write_rtp \<lparr>rtp_version = 2, seqno = r_seq p1, timestamp = ts, marker = (bs = []),
             payload = b\<rparr> p1 of
           (Some e, p2) \<Rightarrow> (Some (TrackError e), p2)
         | (None, p2) \<Rightarrow> send_parts ts bs p2)"

definition sendLocked :: "int \<Rightarrow> packet list \<Rightarrow> rtc \<Rightarrow> rtc_error option \<times> rtc" where
  "sendLocked now parts p = (if r_done p then (Some RtcEOF, p) else send_parts (rtp_time now) parts p)"

definition sendPayloads :: "int \<Rightarrow> packet list \<Rightarrow> rtc \<Rightarrow> rtc_error option \<times> rtc" where
  "sendPayloads now b p = sendLocked now b p"

definition rtc_WritePacket :: "int \<Rightarrow> rtc \<Rightarrow> packet \<Rightarrow> rtc_error option \<times> rtc" where
  "rtc_WritePacket now p b =
    (if length b = 0 \<or> length b > MTU then (Some RtcTooLarge, p)
     else let p1 = p\<lparr>r_id := r_id p + 1\<rparr> in sendLocked now (splitPacket (r_id p1) b) p1)"

definition keepalive :: packet where
  "keepalive = bytes_of ''TL00''"

text \<open>One round of the heartbeat goroutine; a failure closes the connection and ends it.\<close>

definition heartbeat :: "int \<Rightarrow> rtc \<Rightarrow> bool \<times> rtc" where
  "heartbeat now p =
    (case sendPayloads now [keepalive] p of
       (Some e, p1) \<Rightarrow> (False, rtc_Close p1)
     | (None, p1) \<Rightarrow> (True, p1))"

subsection \<open>Receiving\<close>

text \<open>How a round of the receive loop ends: it goes on, returns, or returns having started
  \<open>go p.Close()\<close>, which runs at some later time.\<close>

datatype rx_next = GoOn | Return | ReturnClosing

text \<open>A round with the payload read: \<open>pick\<close> is the runtime's choice in the assembler, \<open>d\<close> that of
  the \<open>select\<close>.\<close>

definition on_rtp :: "nat \<Rightarrow> bool \<Rightarrow> int \<Rightarrow> packet \<Rightarrow> rtc \<times> assembler \<Rightarrow> rx_next \<times> rtc \<times> assembler" where
  "on_rtp pick d now f = (\<lambda>(p, a).
    if f = keepalive then (GoOn, p, a)
    else case push pick a f now of
      (Inl e, a1) \<Rightarrow> (ReturnClosing, p, a1)
    | (Inr None, a1) \<Rightarrow> (GoOn, p, a1)
    | (Inr (Some b), a1) \<Rightarrow>
        if d \<and> r_done p then (Return, p, a1)
        else if length (r_rx p) < rx_capacity then (GoOn, p\<lparr>r_rx := r_rx p @ [b]\<rparr>, a1)
        else if r_done p then (Return, p, a1)
        else (GoOn, p\<lparr>r_dropped := r_dropped p + 1\<rparr>, a1))"

text \<open>The loop over the packets the track delivers, until the first round that does not go on.\<close>

type_synonym delivery = "nat \<times> bool \<times> int \<times> packet"

fun receive :: "delivery list \<Rightarrow> rtc \<times> assembler \<Rightarrow> rx_next \<times> rtc \<times> assembler" where
  "receive [] pa = (GoOn, pa)"
| "receive ((pick, d, now, f) # ds) pa =
     (case on_rtp pick d now f pa of
        (GoOn, pa') \<Rightarrow> receive ds pa'
      | (Return, pa') \<Rightarrow> (Return, pa')
      | (ReturnClosing, pa') \<Rightarrow> (ReturnClosing, pa'))"

subsection \<open>The packet interface\<close>

lemma write_rtp_frame:
  "write_rtp x p = (e, q) \<Longrightarrow> r_rx q = r_rx p \<and> r_done q = r_done p \<and> r_id q = r_id p \<and>
    r_dropped q = r_dropped p \<and> r_remotes q = r_remotes p"
  by (auto simp: write_rtp_def split: list.splits)

lemma send_parts_frame:
  "r_rx (snd (send_parts ts bs p)) = r_rx p \<and> r_done (snd (send_parts ts bs p)) = r_done p \<and>
    r_id (snd (send_parts ts bs p)) = r_id p \<and> r_dropped (snd (send_parts ts bs p)) = r_dropped p \<and>
    r_remotes (snd (send_parts ts bs p)) = r_remotes p"
proof (induction bs arbitrary: p)
  case (Cons b bs)
  let ?x = "\<lparr>rtp_version = 2, seqno = r_seq p + 1, timestamp = ts, marker = (bs = []), payload = b\<rparr>"
  obtain e q where w: "write_rtp ?x (p\<lparr>r_seq := r_seq p + 1\<rparr>) = (e, q)"
    by (cases "write_rtp ?x (p\<lparr>r_seq := r_seq p + 1\<rparr>)")
  from w write_rtp_frame [OF w] Cons.IH [of q] show ?case by (cases e) simp_all
qed simp

definition rtc_wf :: "rtc \<Rightarrow> bool" where
  "rtc_wf p \<longleftrightarrow> list_all sized (r_rx p) \<and> length (r_rx p) \<le> rx_capacity"

text \<open>The choice of a read is a case of \<open>select\<close>, that of a write the time.\<close>

interpretation rtc_packets:
  packet_conn "\<lambda>c. rtc_ReadPacket (fst c)" "\<lambda>c. rtc_WritePacket (snd c)" rtc_wf
proof
  fix c :: "bool \<times> int" and s s' :: rtc and r b
  show "rtc_wf s'" if "rtc_wf s" "rtc_ReadPacket (fst c) s = Some (r, s')"
    using that by (auto simp: rtc_wf_def rtc_ReadPacket_def split: if_splits list.splits)
  show "sized b" if "rtc_wf s" "rtc_ReadPacket (fst c) s = Some (Inr b, s')"
    using that by (auto simp: rtc_wf_def rtc_ReadPacket_def split: if_splits list.splits)
  show "rtc_wf (snd (rtc_WritePacket (snd c) s b))" if "rtc_wf s"
    using that send_parts_frame by (simp add: rtc_wf_def rtc_WritePacket_def sendLocked_def Let_def)
  show "\<exists>e. rtc_WritePacket (snd c) s b = (Some e, s)" if "\<not> sized b"
    using that by (auto simp: rtc_WritePacket_def sized_iff)
qed

subsection \<open>RTP numbering\<close>

text \<open>What the connection does over its life: a write, or a round of the heartbeat.\<close>

datatype rtc_op = Send int packet | Beat int

fun rtc_op_step :: "rtc_op \<Rightarrow> rtc \<Rightarrow> rtc" where
  "rtc_op_step (Send now b) p = snd (rtc_WritePacket now p b)"
| "rtc_op_step (Beat now) p = snd (heartbeat now p)"

definition rtc_run :: "rtc_op list \<Rightarrow> rtc \<Rightarrow> rtc" where
  "rtc_run ops p = fold rtc_op_step ops p"

text \<open>The packets handed to the track, with number \<open>s + 1\<close> the first; the marker is on the last.\<close>

fun rtp_packets :: "32 word \<Rightarrow> 16 word \<Rightarrow> packet list \<Rightarrow> rtp list" where
  "rtp_packets ts s [] = []"
| "rtp_packets ts s (b # bs) =
     \<lparr>rtp_version = 2, seqno = s + 1, timestamp = ts, marker = (bs = []), payload = b\<rparr> # rtp_packets ts (s + 1) bs"

lemma rtp_packets_simps [simp]:
  "length (rtp_packets ts s bs) = length bs" "map payload (rtp_packets ts s bs) = bs"
  by (induction bs arbitrary: s) simp_all

lemma rtp_packets_seqno: "i < length bs \<Longrightarrow> seqno (rtp_packets ts s bs ! i) = s + of_nat (Suc i)"
  by (induction bs arbitrary: s i) (auto simp: nth_Cons algebra_simps split: nat.splits)

text \<open>\<open>as\<close> were handed to the track, in order, and some of them reached the network.\<close>

definition handed :: "rtp list \<Rightarrow> rtc \<Rightarrow> rtc \<Rightarrow> bool" where
  "handed as p q \<longleftrightarrow> r_seq q = r_seq p + of_nat (length as) \<and>
    (\<forall>i < length as. seqno (as ! i) = r_seq p + of_nat (Suc i)) \<and>
    (\<exists>sent. r_wire q = r_wire p @ sent \<and> subseq sent as \<and> (r_sched p = [] \<longrightarrow> sent = as)) \<and>
    (r_sched p = [] \<longrightarrow> r_sched q = [])"

lemma handed_refl: "handed [] p p"
  by (simp add: handed_def)

lemma handed_trans:
  assumes "handed as p q" and "handed bs q r"
  shows "handed (as @ bs) p r"
proof -
  have "seqno ((as @ bs) ! i) = r_seq p + of_nat (Suc i)" if "i < length (as @ bs)" for i
  proof (cases "i < length as")
    case True
    with assms(1) show ?thesis by (simp add: handed_def nth_append)
  next
    case False
    with that have "i - length as < length bs" by simp
    then have "seqno (bs ! (i - length as)) = r_seq q + of_nat (Suc (i - length as))"
      using assms(2) by (simp add: handed_def)
    also have "\<dots> = r_seq p + of_nat (length as + Suc (i - length as))"
      using assms(1) by (simp add: handed_def)
    finally show ?thesis using False by (simp add: nth_append)
  qed
  with assms show ?thesis
    unfolding handed_def by (auto intro: list_emb_append_mono)
qed

lemma handed_fields:
  assumes "r_seq q' = r_seq q" and "r_wire q' = r_wire q" and "r_sched q' = r_sched q"
  shows "handed as p q' \<longleftrightarrow> handed as p q" "handed as q' r \<longleftrightarrow> handed as q r"
  using assms by (simp_all add: handed_def)

text \<open>A send hands over a prefix of its packets: all of them when it succeeds.\<close>

lemma send_parts_handed:
  "\<exists>k. handed (take k (rtp_packets ts (r_seq p) bs)) p (snd (send_parts ts bs p)) \<and>
    (fst (send_parts ts bs p) = None \<longrightarrow> k = length bs) \<and>
    (r_sched p = [] \<longrightarrow> fst (send_parts ts bs p) = None)"
proof (induction bs arbitrary: p)
  case Nil
  show ?case by (simp add: handed_refl)
next
  case (Cons b bs)
  let ?x = "\<lparr>rtp_version = 2, seqno = r_seq p + 1, timestamp = ts, marker = (bs = []), payload = b\<rparr>"
  let ?w = "write_rtp ?x (p\<lparr>r_seq := r_seq p + 1\<rparr>)"
  obtain e q where w: "?w = (e, q)" by (cases ?w)
  have one: "handed [?x] p q" and seq: "r_seq q = r_seq p + 1" and ok: "r_sched p = [] \<Longrightarrow> e = None"
    and sched: "r_sched p = [] \<Longrightarrow> r_sched q = []"
    using w by (auto simp: write_rtp_def handed_def split: list.splits prod.splits)
  show ?case
  proof (cases e)
    case (Some x)
    with ok have "r_sched p \<noteq> []" by auto
    with Some w one show ?thesis by (intro exI [of _ 1]) (simp add: Let_def)
  next
    case None
    obtain k where k: "handed (take k (rtp_packets ts (r_seq q) bs)) q (snd (send_parts ts bs q))"
      "fst (send_parts ts bs q) = None \<longrightarrow> k = length bs" "r_sched q = [] \<longrightarrow> fst (send_parts ts bs q) = None"
      using Cons.IH [of q] by (elim exE conjE) (rule that)
    have all: "rtp_packets ts (r_seq p) (b # bs) = ?x # rtp_packets ts (r_seq q) bs"
      by (simp add: seq)
    have rest: "send_parts ts (b # bs) p = send_parts ts bs q" using w None by (simp add: Let_def)
    show ?thesis
    proof (intro exI [of _ "Suc k"] conjI)
      show "handed (take (Suc k) (rtp_packets ts (r_seq p) (b # bs))) p (snd (send_parts ts (b # bs) p))"
        using handed_trans [OF one k(1)] unfolding all rest by simp
    qed (use k(2,3) sched rest in auto)
  qed
qed

end
