(* ===== verification/RtcDelivery.thy ===== *)
theory RtcDelivery
  imports RtcConn
begin

text \<open>
  What the WebRTC transport promises end to end: the numbering of the RTP packets over the life of
  a connection, the delivery of packets from one end's writes to the other end's receive queue
  over a network that loses, repeats and reorders, and the accounting of the receive queue.
\<close>

subsection \<open>The sender\<close>

text \<open>The payloads a list of operations hands to the track when nothing fails, each with its
  marker; \<open>i\<close> is the last packet id used.\<close>

fun marked :: "packet list \<Rightarrow> (packet \<times> bool) list" where
  "marked [] = []"
| "marked (b # bs) = (b, bs = []) # marked bs"

fun plan :: "32 word \<Rightarrow> rtc_op list \<Rightarrow> (packet \<times> bool) list" where
  "plan i [] = []"
| "plan i (Send now b # ops) =
     (if sized b then marked (splitPacket (i + 1) b) @ plan (i + 1) ops else plan i ops)"
| "plan i (Beat now # ops) = (keepalive, True) # plan i ops"

lemma marked_fst [simp]: "map fst (marked bs) = bs"
  by (induction bs) simp_all

lemma rtp_packets_marked: "map (\<lambda>r. (payload r, marker r)) (rtp_packets ts s bs) = marked bs"
  by (induction bs arbitrary: s) simp_all

text \<open>One operation: what it hands to the track is a prefix of its plan, and all of it when the
  track and the connection are in order.\<close>

definition op_ids :: "rtc_op \<Rightarrow> nat" where
  "op_ids op = (case op of Send now b \<Rightarrow> if sized b then 1 else 0 | Beat now \<Rightarrow> 0)"

lemma plan_single: "plan i [op] @ plan (i + of_nat (op_ids op)) ops = plan i (op # ops)"
  by (cases op) (simp_all add: op_ids_def)

definition hands_over :: "32 word \<Rightarrow> rtc_op list \<Rightarrow> rtp list \<Rightarrow> rtc \<Rightarrow> rtc \<Rightarrow> bool" where
  "hands_over i ops as p q \<longleftrightarrow> handed as p q \<and>
    list_all (\<lambda>r. rtp_version r = 2) as \<and> set (map (\<lambda>r. (payload r, marker r)) as) \<subseteq> set (plan i ops) \<and>
    (r_sched p = [] \<and> \<not> r_done p \<longrightarrow> map (\<lambda>r. (payload r, marker r)) as = plan i ops \<and> \<not> r_done q)"

lemma rtp_packets_version: "list_all (\<lambda>r. rtp_version r = 2) (rtp_packets ts s bs)"
  by (induction bs arbitrary: s) simp_all

lemma sendLocked_hands_over:
  assumes "plan i ops = marked bs"
  shows "\<exists>as. hands_over i ops as p (snd (sendLocked now bs p)) \<and>
    (r_sched p = [] \<and> \<not> r_done p \<longrightarrow> fst (sendLocked now bs p) = None)"
proof (cases "r_done p")
  case True
  then show ?thesis
    by (intro exI [of _ "[]"]) (simp add: sendLocked_def hands_over_def handed_refl)
next
  case False
  let ?as = "rtp_packets (rtp_time now) (r_seq p) bs"
  obtain k where k: "handed (take k ?as) p (snd (send_parts (rtp_time now) bs p))"
    "fst (send_parts (rtp_time now) bs p) = None \<longrightarrow> k = length bs"
    "r_sched p = [] \<longrightarrow> fst (send_parts (rtp_time now) bs p) = None"
    using send_parts_handed [of "rtp_time now" p bs] by (elim exE conjE) (rule that)
  have "list_all (\<lambda>r. rtp_version r = 2) (take k ?as)"
    using rtp_packets_version by (auto simp: list_all_iff dest: in_set_takeD)
  moreover have "set (map (\<lambda>r. (payload r, marker r)) (take k ?as)) \<subseteq> set (plan i ops)"
    unfolding assms rtp_packets_marked [of "rtp_time now" "r_seq p" bs, symmetric]
    by (auto dest: in_set_takeD)
  moreover have "map (\<lambda>r. (payload r, marker r)) (take k ?as) = plan i ops \<and>
      \<not> r_done (snd (send_parts (rtp_time now) bs p))" if "r_sched p = []"
    using k(2,3) that False send_parts_frame [of "rtp_time now" bs p] rtp_packets_marked [of "rtp_time now" "r_seq p" bs] assms
    by simp
  ultimately have "hands_over i ops (take k ?as) p (snd (sendLocked now bs p))"
    using k(1) False unfolding hands_over_def sendLocked_def by simp
  with k(3) False show ?thesis by (intro exI [of _ "take k ?as"]) (simp add: sendLocked_def)
qed

lemma sendLocked_id: "r_id (snd (sendLocked now bs p)) = r_id p"
  using send_parts_frame by (simp add: sendLocked_def)

lemma hands_over_id [simp]: "hands_over i ops as (p\<lparr>r_id := x\<rparr>) q = hands_over i ops as p q"
  by (simp add: hands_over_def handed_def)

lemma op_hands_over:
  "\<exists>as. hands_over (r_id p) [op] as p (rtc_op_step op p) \<and>
    r_id (rtc_op_step op p) = r_id p + of_nat (op_ids op)"
proof (cases op)
  case (Send now b)
  show ?thesis
  proof (cases "sized b")
    case True
    let ?p = "p\<lparr>r_id := r_id p + 1\<rparr>"
    obtain as where "hands_over (r_id p) [op] as ?p (snd (sendLocked now (splitPacket (r_id p + 1) b) ?p))"
      using sendLocked_hands_over [of "r_id p" "[op]" "splitPacket (r_id p + 1) b" ?p now] Send True by auto
    with Send True show ?thesis
      by (intro exI [of _ as]) (simp add: rtc_WritePacket_def Let_def op_ids_def sized_iff not_less sendLocked_id)
  next
    case False
    with Send show ?thesis
      by (intro exI [of _ "[]"])
        (auto simp: rtc_WritePacket_def op_ids_def hands_over_def handed_refl sized_iff)
  qed
next
  case (Beat now)
  obtain as where as: "hands_over (r_id p) [op] as p (snd (sendLocked now [keepalive] p))"
    and ok: "r_sched p = [] \<and> \<not> r_done p \<longrightarrow> fst (sendLocked now [keepalive] p) = None"
    using sendLocked_hands_over [of "r_id p" "[op]" "[keepalive]" p now] Beat by auto
  obtain e q where q: "sendLocked now [keepalive] p = (e, q)" by (cases "sendLocked now [keepalive] p")
  have qid: "r_id q = r_id p" using sendLocked_id [of now "[keepalive]" p] q by simp
  from as ok q qid Beat show ?thesis
    by (intro exI [of _ as], cases e)
      (auto simp: heartbeat_def sendPayloads_def rtc_Close_def op_ids_def hands_over_def handed_def)
qed

lemma hands_over_append:
  assumes "hands_over i [op] as p q" and "hands_over (i + of_nat (op_ids op)) ops bs q r"
  shows "hands_over i (op # ops) (as @ bs) p r"
proof -
  have sched: "r_sched p = [] \<Longrightarrow> r_sched q = []" using assms(1) by (simp add: hands_over_def handed_def)
  have "set (plan i (op # ops)) = set (plan i [op]) \<union> set (plan (i + of_nat (op_ids op)) ops)"
    unfolding plan_single [of i op ops, symmetric] by simp
  with assms sched show ?thesis
    unfolding hands_over_def plan_single [of i op ops, symmetric]
    by (auto intro: handed_trans)
qed

lemma run_hands_over: "\<exists>as. hands_over (r_id p) ops as p (rtc_run ops p)"
proof (induction ops arbitrary: p)
  case Nil
  show ?case by (intro exI [of _ "[]"]) (simp add: hands_over_def handed_refl rtc_run_def)
next
  case (Cons op ops)
  obtain as where as: "hands_over (r_id p) [op] as p (rtc_op_step op p)"
    "r_id (rtc_op_step op p) = r_id p + of_nat (op_ids op)" using op_hands_over by blast
  obtain bs where "hands_over (r_id (rtc_op_step op p)) ops bs (rtc_op_step op p) (rtc_run ops (rtc_op_step op p))"
    using Cons.IH by blast
  with hands_over_append [OF as(1)] as(2) show ?case by (auto simp: rtc_run_def)
qed

text \<open>The packets a list of operations sends, in order: the one at \<open>j\<close> has id \<open>i + 1 + j\<close>.\<close>

fun sends :: "rtc_op list \<Rightarrow> packet list" where
  "sends [] = []"
| "sends (Send now b # ops) = (if sized b then b # sends ops else sends ops)"
| "sends (Beat now # ops) = sends ops"

lemma sends_sized: "b \<in> set (sends ops) \<Longrightarrow> sized b"
  by (induction ops rule: sends.induct) (auto split: if_splits)

lemma plan_fragments:
  "f \<in> set (map fst (plan i ops)) \<Longrightarrow>
    f = keepalive \<or> (\<exists>j < length (sends ops). f \<in> set (splitPacket (i + 1 + of_nat j) (sends ops ! j)))"
proof (induction i ops rule: plan.induct)
  case (2 i now b ops)
  show ?case
  proof (cases "sized b")
    case True
    with 2(3) have "f \<in> set (splitPacket (i + 1) b) \<or> f \<in> set (map fst (plan (i + 1) ops))"
      using marked_fst by simp
    then show ?thesis
    proof
      assume "f \<in> set (splitPacket (i + 1) b)"
      then show ?thesis using True by (intro disjI2 exI [of _ 0]) simp
    next
      assume "f \<in> set (map fst (plan (i + 1) ops))"
      from 2(1) [OF True this] show ?thesis
      proof (elim disjE exE conjE)
        fix j assume "j < length (sends ops)" "f \<in> set (splitPacket (i + 1 + 1 + of_nat j) (sends ops ! j))"
        then show ?thesis using True by (intro disjI2 exI [of _ "Suc j"]) (simp add: algebra_simps)
      qed simp
    qed
  next
    case False
    with 2 show ?thesis by simp
  qed
qed auto

subsection \<open>The receiver\<close>

text \<open>What the receive loop passes to the assembler.\<close>

definition arrivals :: "delivery list \<Rightarrow> arrival list" where
  "arrivals ds = map (\<lambda>(pick, d, now, f). (pick, f, now)) (filter (\<lambda>(pick, d, now, f). f \<noteq> keepalive) ds)"

abbreviation assembled :: "assembler \<Rightarrow> delivery list \<Rightarrow> packet list" where
  "assembled a ds \<equiv> concat (map out_packets (outputs push_arrival a (arrivals ds)))"

lemma out_packets_simps [simp]:
  "out_packets (Inl e) = []" "out_packets (Inr None) = []" "out_packets (Inr (Some b)) = [b]"
  by (simp_all add: out_packets_def)

lemma receive_open:
  assumes "\<not> r_done p" and "\<forall>out \<in> set (outputs push_arrival a (arrivals ds)). \<exists>x. out = Inr x"
    and "length (r_rx p) + length (assembled a ds) \<le> rx_capacity"
  shows "receive ds (p, a) = (GoOn, p\<lparr>r_rx := r_rx p @ assembled a ds\<rparr>, final push_arrival a (arrivals ds))"
  using assms
proof (induction ds arbitrary: p a)
  case Nil
  show ?case by (simp add: arrivals_def)
next
  case (Cons x ds)
  obtain pick d now f where x: "x = (pick, d, now, f)" by (cases x)
  show ?case
  proof (cases "f = keepalive")
    case True
    then have "arrivals (x # ds) = arrivals ds" by (simp add: arrivals_def x)
    with Cons x True show ?thesis by (simp add: on_rtp_def)
  next
    case False
    then have arr: "arrivals (x # ds) = (pick, f, now) # arrivals ds" by (simp add: arrivals_def x)
    obtain out a1 where push: "push pick a f now = (out, a1)" by (cases "push pick a f now")
    with Cons.prems(2) arr obtain o1 where out: "out = Inr o1" by (auto simp: split_beta Let_def)
    have rest: "\<forall>out \<in> set (outputs push_arrival a1 (arrivals ds)). \<exists>x. out = Inr x"
      and asm: "assembled a (x # ds) = out_packets out @ assembled a1 ds"
      and fin: "final push_arrival a (arrivals (x # ds)) = final push_arrival a1 (arrivals ds)"
      using Cons.prems(2) arr push by (auto simp: split_beta Let_def)
    show ?thesis
    proof (cases o1)
      case None
      with Cons.IH [of p a1] Cons.prems rest asm fin push False out show ?thesis
        by (simp add: x on_rtp_def)
    next
      case (Some b)
      let ?p = "p\<lparr>r_rx := r_rx p @ [b]\<rparr>"
      have "receive ds (?p, a1) = (GoOn, ?p\<lparr>r_rx := r_rx ?p @ assembled a1 ds\<rparr>, final push_arrival a1 (arrivals ds))"
        using Cons.prems(1,3) rest asm out Some by (intro Cons.IH) simp_all
      with Cons.prems(1,3) asm fin push False out Some show ?thesis
        by (simp add: x on_rtp_def)
    qed
  qed
qed

subsection \<open>From the sender's packets to the receiver's queue\<close>

definition payloads :: "delivery list \<Rightarrow> packet set" where
  "payloads ds = (\<lambda>(pick, d, now, f). f) ` set ds"

definition delivered_within :: "int \<Rightarrow> packet set \<Rightarrow> delivery list \<Rightarrow> bool" where
  "delivered_within t0 fs ds \<longleftrightarrow> list_all (\<lambda>(pick, d, now, f). f \<in> fs \<and> t0 \<le> now \<and> now \<le> t0 + 2 * second) ds"

lemma keepalive_no_fragment:
  assumes "sized b" and "i < nfrags b"
  shows "splitPacket pid b ! i \<noteq> keepalive"
proof
  assume "splitPacket pid b ! i = keepalive"
  then have "length (splitPacket pid b ! i) = 4" by (simp add: keepalive_def)
  then show False using length_fragment_at [of pid b "nfrags b" i]
    by (simp add: nth_splitPacket [OF assms(2)] fragmentHeader_def)
qed

lemma splitPacket_inj:
  assumes "sized b" and "i < nfrags b" and "sized b'" and "i' < nfrags b'"
    and "splitPacket pid b ! i = splitPacket pid' b' ! i'"
  shows "pid = pid' \<and> i = i'"
  using assms decode_fragment_at [OF assms(1,2), of pid] decode_fragment_at [OF assms(3,4), of pid']
  by (simp add: nth_splitPacket)

lemma transits:
  assumes "delivered_within t0 fs ds"
    and "\<And>f. f \<in> fs \<Longrightarrow> f = keepalive \<or> (\<exists>pid \<in> I. f \<in> set (splitPacket pid (pk pid)))"
  shows "\<exists>xs. honest I pk t0 xs \<and> map (arrive pk) xs = arrivals ds"
  using assms(1)
proof (induction ds)
  case Nil
  show ?case by (intro exI [of _ "[]"]) (simp add: honest_def arrivals_def)
next
  case (Cons x ds)
  obtain pick d now f where x: "x = (pick, d, now, f)" by (cases x)
  from Cons obtain xs where xs: "honest I pk t0 xs" "map (arrive pk) xs = arrivals ds"
    by (auto simp: delivered_within_def)
  show ?case
  proof (cases "f = keepalive")
    case True
    with xs x show ?thesis by (intro exI [of _ xs]) (simp add: arrivals_def)
  next
    case False
    have now: "f \<in> fs" "t0 \<le> now" "now \<le> t0 + 2 * second"
      using Cons.prems x by (simp_all add: delivered_within_def)
    with assms(2) False obtain pid i where "pid \<in> I" "i < length (splitPacket pid (pk pid))"
      "f = splitPacket pid (pk pid) ! i" by (metis in_set_conv_nth)
    with xs x now False show ?thesis
      by (intro exI [of _ "(pick, pid, i, now) # xs"]) (simp add: honest_def arrivals_def arrive_def)
  qed
qed

lemma seen_iff:
  assumes sz: "\<And>pid. pid \<in> I \<Longrightarrow> sized (pk pid)" and h: "honest I pk t0 xs"
    and xs: "map (arrive pk) xs = arrivals ds" and pid: "pid \<in> I" and i: "i < nfrags (pk pid)"
  shows "i \<in> seen pid xs \<longleftrightarrow> splitPacket pid (pk pid) ! i \<in> payloads ds"
proof
  assume "i \<in> seen pid xs"
  then obtain pick t where "(pick, pid, i, t) \<in> set xs" by (auto simp: seen_def)
  then have "arrive pk (pick, pid, i, t) \<in> set (arrivals ds)" using xs by (metis image_eqI image_set)
  then show "splitPacket pid (pk pid) ! i \<in> payloads ds"
    by (force simp: arrive_def arrivals_def payloads_def)
next
  assume "splitPacket pid (pk pid) ! i \<in> payloads ds"
  then obtain pick now where "(pick, splitPacket pid (pk pid) ! i, now) \<in> set (arrivals ds)"
    using keepalive_no_fragment [OF sz [OF pid] i] by (force simp: arrivals_def payloads_def)
  then obtain pick' pid' i' t' where x: "(pick', pid', i', t') \<in> set xs"
    "splitPacket pid' (pk pid') ! i' = splitPacket pid (pk pid) ! i"
    unfolding xs [symmetric] by (auto simp: arrive_def)
  with h have "pid' \<in> I" "i' < nfrags (pk pid')"
    by (auto simp: honest_def list_all_iff length_splitPacket)
  with splitPacket_inj [OF sz _ sz i x(2)] pid have "pid' = pid \<and> i' = i" by simp
  with x(1) show "i \<in> seen pid xs" by (force simp: seen_def)
qed

lemma seen_all_iff:
  assumes sz: "\<And>pid. pid \<in> I \<Longrightarrow> sized (pk pid)" and h: "honest I pk t0 xs"
    and xs: "map (arrive pk) xs = arrivals ds" and pid: "pid \<in> I"
  shows "seen pid xs = {..<nfrags (pk pid)} \<longleftrightarrow> set (splitPacket pid (pk pid)) \<subseteq> payloads ds"
proof -
  have "seen pid xs \<subseteq> {..<nfrags (pk pid)}"
    using h by (auto simp: seen_def honest_def list_all_iff length_splitPacket)
  then have "seen pid xs = {..<nfrags (pk pid)} \<longleftrightarrow> (\<forall>i < nfrags (pk pid). i \<in> seen pid xs)" by auto
  also have "\<dots> \<longleftrightarrow> set (splitPacket pid (pk pid)) \<subseteq> payloads ds"
    using seen_iff [OF sz h xs pid] by (auto simp: set_conv_nth length_splitPacket)
  finally show ?thesis .
qed

lemma mset_assembled:
  assumes "finite I" and "honest I pk t0 xs"
  shows "mset (concat (map out_packets (outputs push_arrival empty_assembler (map (arrive pk) xs)))) =
    (\<Sum>pid \<in> I. mset (received pk pid xs))"
  using assms(2)
proof (induction xs rule: rev_induct)
  case Nil
  show ?case by (simp add: received_def)
next
  case (snoc y xs)
  obtain pick pid i t where y: "y = (pick, pid, i, t)" by (cases y)
  let ?o = "fst (push pick (reassembly pk xs) (splitPacket pid (pk pid) ! i) t)"
  have hx: "honest I pk t0 xs" and pid: "pid \<in> I" using snoc.prems y by (simp_all add: honest_def)
  have "mset (received pk p (xs @ [y])) = mset (received pk p xs) + (if p = pid then mset (out_packets ?o) else {#})" for p
    by (simp add: y received_snoc out_packets_def)
  then have "(\<Sum>p \<in> I. mset (received pk p (xs @ [y]))) = (\<Sum>p \<in> I. mset (received pk p xs)) + mset (out_packets ?o)"
    using assms(1) pid by (simp add: sum.distrib)
  with snoc.IH [OF hx] show ?case by (simp add: y outputs_snoc arrive_def)
qed

lemma mset_filter_upt:
  "mset (map g (filter P [0..<k])) = (\<Sum>j < k. if P j then {#g j#} else {#})"
  by (induction k) simp_all

lemma of_nat_small_inj:
  assumes "i < 65536" and "j < 65536" and "(of_nat i :: 16 word) = of_nat j"
  shows "i = j"
  using assms by (simp add: word_of_nat_eq_iff take_bit_nat_eq_self)

lemma distinct_consecutive:
  assumes "n \<le> 65536" and "\<And>i. i < length as \<Longrightarrow> seqno (as ! i) = s + of_nat (Suc i)" and "length as = n"
  shows "distinct (map seqno as)"
proof -
  have "map seqno as = map (\<lambda>i. s + 1 + of_nat i) [0..<n]"
    using assms(2,3) by (intro nth_equalityI) (simp_all add: add.assoc)
  moreover have "inj_on (\<lambda>i. s + 1 + of_nat i) {0..<n}"
    using of_nat_small_inj assms(1) by (auto intro!: inj_onI)
  ultimately show ?thesis by (simp add: distinct_map)
qed

subsection \<open>The receive queue\<close>

text \<open>A connection in use: \<open>c\<close> are the packets the assembler has completed, \<open>out\<close> those the reader
  has taken, \<open>live\<close> tells whether the receive loop still runs. Deliveries, reads, writes,
  heartbeats and \<open>Close\<close> interleave as they like.\<close>

inductive rtc_session :: "packet list \<Rightarrow> packet list \<Rightarrow> bool \<Rightarrow> rtc \<Rightarrow> assembler \<Rightarrow> bool" where
  opened: "r_rx p = [] \<Longrightarrow> r_dropped p = 0 \<Longrightarrow> rtc_session [] [] True p empty_assembler"
| delivered: "rtc_session c out True p a \<Longrightarrow> on_rtp pick d now f (p, a) = (v, p', a') \<Longrightarrow>
    rtc_session (c @ (if f = keepalive then [] else out_packets (fst (push pick a f now)))) out (v = GoOn) p' a'"
| packet_read: "rtc_session c out live p a \<Longrightarrow> rtc_ReadPacket d p = Some (Inr b, p') \<Longrightarrow>
    rtc_session c (out @ [b]) live p' a"
| operated: "rtc_session c out live p a \<Longrightarrow> rtc_session c out live (rtc_op_step op p) a"
| shut: "rtc_session c out live p a \<Longrightarrow> rtc_session c out live (rtc_Close p) a"

definition accounted :: "packet list \<Rightarrow> packet list \<Rightarrow> bool \<Rightarrow> rtc \<Rightarrow> bool" where
  "accounted c out live p \<longleftrightarrow> rtc_wf p \<and> list_all sized c \<and> subseq (out @ r_rx p) c \<and>
    (live \<longrightarrow> (\<exists>n. length c = length (out @ r_rx p) + n \<and> r_dropped p = of_nat n))"

lemma accounted_cong:
  "accounted c out live p \<Longrightarrow> r_rx q = r_rx p \<Longrightarrow> r_dropped q = r_dropped p \<Longrightarrow> accounted c out live q"
  by (simp add: accounted_def rtc_wf_def)

lemma op_step_rx: "r_rx (rtc_op_step op p) = r_rx p \<and> r_dropped (rtc_op_step op p) = r_dropped p"
proof (cases op)
  case (Send now b)
  then show ?thesis using send_parts_frame by (simp add: rtc_WritePacket_def sendLocked_def Let_def)
next
  case (Beat now)
  then show ?thesis using send_parts_frame [of "rtp_time now" "[keepalive]" p]
    by (auto simp: heartbeat_def sendPayloads_def sendLocked_def rtc_Close_def simp del: send_parts.simps
        split: prod.splits option.splits)
qed

text \<open>The four ways a round treats a completed packet.\<close>

lemma on_rtp_cases:
  assumes "on_rtp pick d now f (p, a) = (v, p', a')" and "f \<noteq> keepalive"
    and "fst (push pick a f now) = Inr (Some b)"
  shows "v = GoOn \<and> p' = p\<lparr>r_rx := r_rx p @ [b]\<rparr> \<and> length (r_rx p) < rx_capacity \<or>
    v = GoOn \<and> p' = p\<lparr>r_dropped := r_dropped p + 1\<rparr> \<or> v = Return \<and> p' = p"
  using assms by (cases "push pick a f now") (auto simp: on_rtp_def split: if_splits)

lemma on_rtp_quiet:
  assumes "on_rtp pick d now f (p, a) = (v, p', a')"
    and "f = keepalive \<or> out_packets (fst (push pick a f now)) = []"
  shows "p' = p"
  using assms by (cases "push pick a f now")
    (auto simp: on_rtp_def out_packets_def split: if_splits sum.splits option.splits)

lemma on_rtp_assembler:
  assumes "on_rtp pick d now f (p, a) = (v, p', a')"
  shows "a' = (if f = keepalive then a else snd (push pick a f now))"
  using assms by (cases "push pick a f now") (auto simp: on_rtp_def split: if_splits sum.splits option.splits)

lemma subseq_snoc:
  "subseq xs c \<Longrightarrow> subseq xs (c @ [b])" "subseq (xs @ ys) c \<Longrightarrow> subseq (xs @ ys @ [b]) (c @ [b])"
  using list_emb_append_mono [of "(=)" xs c "[]" "[b]"] list_emb_append_mono [of "(=)" "xs @ ys" c "[b]" "[b]"]
  by simp_all

lemma accounted_delivered:
  assumes acc: "accounted c out True p" and wf: "wf_assembler a"
    and on: "on_rtp pick d now f (p, a) = (v, p', a')"
  shows "accounted (c @ (if f = keepalive then [] else out_packets (fst (push pick a f now)))) out (v = GoOn) p'"
proof (cases "f = keepalive \<or> out_packets (fst (push pick a f now)) = []")
  case True
  with on_rtp_quiet [OF on] acc show ?thesis by (auto simp: accounted_def)
next
  case False
  then obtain b where b: "f \<noteq> keepalive" "fst (push pick a f now) = Inr (Some b)"
    by (auto simp: out_packets_def split: sum.splits option.splits)
  have "delivered_sized (fst (push_arrival a (pick, f, now)))" using assembler_run.step_guar [OF wf] by blast
  then have "sized b" using b(2) by (simp add: delivered_sized_def)
  with on_rtp_cases [OF on b] acc b show ?thesis
    by (auto simp: accounted_def rtc_wf_def subseq_snoc)
qed

lemma rtc_session_accounted: "rtc_session c out live p a \<Longrightarrow> wf_assembler a \<and> accounted c out live p"
proof (induction rule: rtc_session.induct)
  case (opened p)
  then show ?case by (simp add: wf_empty_assembler accounted_def rtc_wf_def)
next
  case (delivered c out p a pick d now f v p' a')
  have "wf_assembler (snd (push_arrival a (pick, f, now)))"
    using assembler_run.step_inv delivered.IH by blast
  with delivered accounted_delivered [OF _ _ delivered.hyps(2)] on_rtp_assembler [OF delivered.hyps(2)]
  show ?case by simp
next
  case (packet_read c out live p a d b p')
  then have "r_rx p = b # r_rx p'" "r_dropped p' = r_dropped p"
    by (auto simp: rtc_ReadPacket_def split: if_splits list.splits)
  with packet_read.IH show ?case by (auto simp: accounted_def rtc_wf_def)
next
  case (operated c out live p a op)
  with accounted_cong op_step_rx show ?case by blast
next
  case (shut c out live p a)
  with accounted_cong [of c out live p "rtc_Close p"] show ?case by (simp add: rtc_Close_def)
qed

subsection \<open>Properties\<close>

text \<open>C30: RTP numbering. Over any sequence of writes and heartbeats, whatever fails: the packets
  handed to the track carry consecutive 16-bit sequence numbers from the one after the last,
  wrapping around, and version 2; the network gets them in that order, and never two with the same number
  among 65536. When nothing fails it gets, in order, every fragment of every packet of legal
  size under the next packet id, the marker exactly on a packet's last fragment, and the heartbeats.\<close>

theorem rtc_numbering:
  "\<exists>as sent. r_wire (rtc_run ops p) = r_wire p @ sent \<and> subseq sent as \<and>
    (\<forall>i < length as. seqno (as ! i) = r_seq p + of_nat (Suc i) \<and> rtp_version (as ! i) = 2) \<and>
    r_seq (rtc_run ops p) = r_seq p + of_nat (length as) \<and>
    (length as \<le> 65536 \<longrightarrow> distinct (map seqno sent)) \<and>
    (r_sched p = [] \<and> \<not> r_done p \<longrightarrow>
      sent = as \<and> map (\<lambda>r. (payload r, marker r)) sent = plan (r_id p) ops)"
proof -
  obtain as where as: "hands_over (r_id p) ops as p (rtc_run ops p)" using run_hands_over by blast
  then obtain sent where sent: "r_wire (rtc_run ops p) = r_wire p @ sent" "subseq sent as"
    "r_sched p = [] \<longrightarrow> sent = as" by (auto simp: hands_over_def handed_def)
  have seq: "\<And>i. i < length as \<Longrightarrow> seqno (as ! i) = r_seq p + of_nat (Suc i)"
    using as by (simp add: hands_over_def handed_def)
  have "distinct (map seqno sent)" if "length as \<le> 65536"
    using distinct_consecutive [OF that seq refl] sent(2)
    by (auto simp: subseq_conv_nths nths_map [symmetric] intro: distinct_nthsI)
  with as sent seq show ?thesis
    by (intro exI [of _ as] exI [of _ sent]) (auto simp: hands_over_def handed_def list_all_length)
qed

theorem rtc_numbering_witness:
  "map (\<lambda>r. (payload r, marker r)) (r_wire (rtc_run [Send 0 (replicate 901 7), Beat 5] (new_rtc []))) =
    [(splitPacket 1 (replicate 901 7) ! 0, False), (splitPacket 1 (replicate 901 7) ! 1, True), (keepalive, True)]"
proof -
  have s: "sized (replicate 901 7)" by (simp add: sized_def MTU_def)
  have n: "nfrags (replicate 901 7) = 2" by (simp add: nfrags_def frag_consts)
  have "[0..<2] = [0, Suc 0]" by (simp add: numeral_2_eq_2)
  with n have two: "splitPacket 1 (replicate 901 7) =
      [splitPacket 1 (replicate 901 7) ! 0, splitPacket 1 (replicate 901 7) ! 1]"
    by (simp add: splitPacket_nfrags)
  from rtc_numbering [of "[Send 0 (replicate 901 7), Beat 5]" "new_rtc []"]
  have "map (\<lambda>r. (payload r, marker r)) (r_wire (rtc_run [Send 0 (replicate 901 7), Beat 5] (new_rtc []))) =
      marked (splitPacket 1 (replicate 901 7)) @ [(keepalive, True)]"
    using s by (auto simp: new_rtc_def)
  then show ?thesis by (subst (asm) two) simp
qed

text \<open>C6: Exactly-once delivery over WebRTC. One end writes up to 64 packets of legal size (and
  sends heartbeats) from any state and with any failures of its track; the network delivers any list of
  what was sent within a two second window: lost, repeated, reordered. The open
  other end, with an empty queue, never gives up, and finds in its queue
  exactly the packets of which every fragment arrived, each once, unchanged, and nothing else.\<close>

theorem rtc_delivery:
  assumes "length (sends ops) \<le> 64" and "r_wire (rtc_run ops p) = r_wire p @ sent"
    and "delivered_within t0 (payload ` set sent) ds" and "\<not> r_done q" and "r_rx q = []"
  shows "\<exists>out a. receive ds (q, empty_assembler) = (GoOn, q\<lparr>r_rx := out\<rparr>, a) \<and>
    mset out = mset (map ((!) (sends ops)) (filter
      (\<lambda>j. set (splitPacket (r_id p + 1 + of_nat j) (sends ops ! j)) \<subseteq> payloads ds) [0..<length (sends ops)]))"
proof -
  let ?k = "length (sends ops)" and ?id = "\<lambda>j. r_id p + 1 + of_nat j :: 32 word"
  define I where "I = ?id ` {..<?k}"
  define pk where "pk pid = sends ops ! unat (pid - (r_id p + 1))" for pid
  have idx: "unat (of_nat j :: 32 word) = j" if "j < ?k" for j
    using that assms(1) by (simp add: unsigned_of_nat take_bit_nat_eq_self)
  have pk: "pk (?id j) = sends ops ! j" if "j < ?k" for j
    using idx [OF that] by (simp add: pk_def)
  have inj: "inj_on ?id {..<?k}" using idx by (auto intro!: inj_onI) metis
  have I: "finite I" "card I \<le> 64" using assms(1) by (simp_all add: I_def card_image [OF inj])
  have sz: "sized (pk pid)" if "pid \<in> I" for pid
    using that pk sends_sized [OF nth_mem, of _ ops] by (auto simp: I_def)
  obtain as where as: "hands_over (r_id p) ops as p (rtc_run ops p)" using run_hands_over by blast
  then have "subseq sent as" using assms(2) by (auto simp: hands_over_def handed_def)
  then have "set sent \<subseteq> set as" by (auto simp: subseq_conv_nths dest: in_set_nthsD)
  then have "f = keepalive \<or> (\<exists>pid \<in> I. f \<in> set (splitPacket pid (pk pid)))" if "f \<in> payload ` set sent" for f
    using that as plan_fragments [of f "r_id p" ops] pk by (force simp: hands_over_def I_def)
  then obtain xs where xs: "honest I pk t0 xs" "map (arrive pk) xs = arrivals ds"
    using transits [OF assms(3)] by blast
  define out where "out = assembled empty_assembler ds"
  have "mset out = (\<Sum>pid \<in> I. mset (received pk pid xs))"
    using mset_assembled [OF I(1) xs(1)] by (simp add: out_def xs(2))
  also have "\<dots> = (\<Sum>pid \<in> I. if set (splitPacket pid (pk pid)) \<subseteq> payloads ds then {#pk pid#} else {#})"
  proof (rule sum.cong [OF refl])
    fix pid assume pid: "pid \<in> I"
    have "status (pk pid) (seen pid xs) (map_of (pending (reassembly pk xs)) pid)
        (map_of (completed (reassembly pk xs)) pid) (received pk pid xs)"
      using reassembly_run [OF sz I xs(1)] pid by blast
    from status_received [OF this sz [OF pid]] seen_all_iff [OF sz xs pid]
    show "mset (received pk pid xs) = (if set (splitPacket pid (pk pid)) \<subseteq> payloads ds then {#pk pid#} else {#})"
      by simp
  qed
  also have "\<dots> = mset (map ((!) (sends ops)) (filter
      (\<lambda>j. set (splitPacket (?id j) (sends ops ! j)) \<subseteq> payloads ds) [0..<?k]))"
    unfolding I_def sum.reindex [OF inj] mset_filter_upt by (intro sum.cong) (simp_all add: pk)
  finally have out: "mset out = \<dots>" .
  have "length out = size (mset out)" by simp
  also have "\<dots> \<le> ?k"
    unfolding out size_mset length_map by (rule order_trans [OF length_filter_le]) simp
  finally have "length out \<le> 64" using assms(1) by simp
  then have "receive ds (q, empty_assembler) = (GoOn, q\<lparr>r_rx := out\<rparr>, final push_arrival empty_assembler (arrivals ds))"
    using receive_open [of q empty_assembler ds] reassembly_accepts [OF sz I xs(1)] assms(4,5)
    by (simp add: xs(2) out_def rx_capacity_def)
  with out show ?thesis by blast
qed

theorem rtc_delivery_witness:
  "\<exists>a. receive [(0, False, 3, splitPacket 1 [7] ! 0), (0, False, 4, keepalive), (0, False, 5, splitPacket 1 [7] ! 0)]
    (new_rtc [], empty_assembler) = (GoOn, new_rtc []\<lparr>r_rx := [[7]]\<rparr>, a)"
proof -
  let ?ops = "[Send 0 [7], Beat 1]" and ?p = "new_rtc []"
  let ?f = "fragment_at 1 [7] 1 0"
  let ?ds = "[(0, False, 3, ?f), (0, False, 4, keepalive), (0, False, 5, ?f)]"
  have s: "sized [7]" "sends ?ops = [[7]]" by (simp_all add: sized_def MTU_def)
  have f: "splitPacket 1 [7] = [?f]" by (simp add: splitPacket_nfrags nfrags_def chunkSize_def)
  let ?a = "\<lparr>rtp_version = 2, seqno = 1, timestamp = rtp_time 0, marker = True, payload = ?f\<rparr>"
  let ?b = "\<lparr>rtp_version = 2, seqno = 2, timestamp = rtp_time 1, marker = True, payload = keepalive\<rparr>"
  have w: "r_wire (rtc_run ?ops ?p) = r_wire ?p @ [?a, ?b]"
    by (simp add: rtc_run_def rtc_WritePacket_def sendLocked_def heartbeat_def sendPayloads_def new_rtc_def
        write_rtp_def MTU_def Let_def f)
  have d: "delivered_within 0 (payload ` set [?a, ?b]) ?ds" by (simp add: delivered_within_def second_def)
  have "\<not> r_done ?p" "r_rx ?p = []" "length (sends ?ops) \<le> 64" by (simp_all add: new_rtc_def s)
  from rtc_delivery [OF this(3) w d this(1,2)] obtain out a where
    r: "receive ?ds (?p, empty_assembler) = (GoOn, ?p\<lparr>r_rx := out\<rparr>, a)" and
    m: "mset out = mset (map ((!) (sends ?ops)) (filter
      (\<lambda>j. set (splitPacket (r_id ?p + 1 + of_nat j) (sends ?ops ! j)) \<subseteq> payloads ?ds) [0..<length (sends ?ops)]))"
    by blast
  have "set (splitPacket (r_id ?p + 1 + of_nat 0) (sends ?ops ! 0)) \<subseteq> payloads ?ds"
    using f by (simp add: s new_rtc_def payloads_def)
  then have "mset out = {#[7]#}" using m by (simp add: s)
  then have "out = [[7]]" by simp
  with r f show ?thesis by simp
qed

text \<open>C31: The receive queue loses nothing silently. However deliveries, reads, writes and \<open>Close\<close>
  interleave, the reader gets packets of legal size, in the order the assembler completed them,
  none twice; the queue never exceeds 256; and as long as the receive loop runs, the packets
  completed but neither read nor queued are exactly those the drop counter counts.\<close>

theorem rtc_receive_accounts:
  assumes "rtc_session c out live p a"
  shows "subseq (out @ r_rx p) c \<and> length (r_rx p) \<le> 256 \<and> list_all sized out \<and>
    (live \<longrightarrow> r_dropped p = of_nat (length c - length (out @ r_rx p)))"
proof -
  have acc: "accounted c out live p" using rtc_session_accounted [OF assms] by simp
  then obtain N where "out @ r_rx p = nths c N" by (auto simp: accounted_def subseq_conv_nths)
  then have "set out \<subseteq> set c" using set_nths_subset [of c N] by (metis le_sup_iff set_append)
  with acc show ?thesis by (auto simp: accounted_def rtc_wf_def rx_capacity_def list_all_iff)
qed

theorem rtc_receive_accounts_witness:
  "\<exists>p a. rtc_session [[7]] [] True p a \<and> subseq (r_rx p) [[7]] \<and> r_dropped p = of_nat (1 - length (r_rx p))"
proof -
  let ?f = "splitPacket 1 [7] ! 0 :: packet"
  have "sized [7]" by (simp add: sized_def MTU_def)
  moreover have n: "nfrags [7] = 1" by (simp add: nfrags_def chunkSize_def)
  ultimately have dec: "decode_fragment ?f = Inr (1, 0, 1, [7])" and "?f \<noteq> keepalive"
    using decode_fragment_at [of "[7]" 0 1] keepalive_no_fragment [of "[7]" 0 1] chunk_whole [of "[7]"]
    by (simp_all add: nth_splitPacket)
  moreover have "fst (push 0 empty_assembler ?f 3) = Inr (Some [7])"
    by (simp add: push_def dec expire_def empty_assembler_def store_fragment_def part_data_def Let_def)
  moreover obtain v p' a' where on: "on_rtp 0 False 3 ?f (new_rtc [], empty_assembler) = (v, p', a')"
    by (cases "on_rtp 0 False 3 ?f (new_rtc [], empty_assembler)")
  moreover from this calculation have "v = GoOn"
    by (cases "push 0 empty_assembler ?f 3") (auto simp: on_rtp_def new_rtc_def rx_capacity_def)
  moreover have "rtc_session [] [] True (new_rtc []) empty_assembler"
    by (rule rtc_session.opened) (simp_all add: new_rtc_def)
  ultimately have "rtc_session [[7]] [] True p' a'"
    using rtc_session.delivered [OF _ on, of "[]" "[]"] by simp
  with rtc_receive_accounts [OF this] show ?thesis by auto
qed

end
