(* ===== verification/RtcPeer.thy ===== *)
theory RtcPeer
  imports RtcConn Config
begin

text \<open>
  Setting up the WebRTC peer of \<open>internal/transport/webrtc.go\<close>: the plan \<open>newPeer\<close> gives the
  WebRTC library, its error paths, the connection states, waiting for the connection, and the
  addresses taken from the other side's session description. The library's calls are a parameter,
  the record \<open>peer_api\<close>: each may fail. What is opened and closed on the way is a list of uses.
\<close>

subsection \<open>newPeer\<close>

record peer_plan =
  pp_mime :: string
  pp_payload_type :: nat
  pp_fmtp :: string
  pp_clock :: nat
  pp_loopback :: bool
  pp_networks :: "string list"
  pp_ice_seconds :: "nat \<times> nat \<times> nat"
  pp_ports :: "(16 word \<times> 16 word) option"
  pp_nat_ips :: "string list option"
  pp_ice :: "(string list \<times> string \<times> string) option"

text \<open>The interfaces the library may use: not those of the tunnel.\<close>

definition interface_allowed :: "string \<Rightarrow> bool" where
  "interface_allowed name \<longleftrightarrow> \<not> hasPrefix name ''utun'' \<and> \<not> hasPrefix name ''tlab''"

definition peer_plan_of :: "config \<Rightarrow> bool \<Rightarrow> peer_plan" where
  "peer_plan_of c loopback =
    (let w = c_webrtc c; h264 = (w_codec w = ''h264'')
     in \<lparr>pp_mime = (if h264 then ''video/H264'' else ''video/VP8''),
         pp_payload_type = (if h264 then 102 else 96),
         pp_fmtp = (if h264 then ''level-asymmetry-allowed=1;packetization-mode=1;profile-level-id=42e01f'' else []),
         pp_clock = 90000,
         pp_loopback = loopback,
         pp_networks = [''udp4'', ''udp6''],
         pp_ice_seconds = (5, 15, 2),
         pp_ports = (if w_udp_min w \<noteq> 0 then Some (w_udp_min w, w_udp_max w) else None),
         pp_nat_ips = (if length (w_nat_ips w) > 0 then Some (w_nat_ips w) else None),
         pp_ice = (if length (w_ice_urls w) > 0
           then Some (w_ice_urls w, w_ice_username w, w_ice_credential w) else None)\<rparr>)"

record peer_api =
  register_codec :: "string option"
  set_ports :: "16 word \<Rightarrow> 16 word \<Rightarrow> string option"
  new_connection :: "peer_plan \<Rightarrow> string option"
  new_track :: "string option"
  add_track :: "string option"
  track_sched :: "(bool \<times> string option) list"

definition ports_error :: "peer_api \<Rightarrow> peer_plan \<Rightarrow> string option" where
  "ports_error api pl = (case pp_ports pl of None \<Rightarrow> None | Some (lo, hi) \<Rightarrow> set_ports api lo hi)"

text \<open>The uses are those of the peer connection \<open>pc\<close>.\<close>

definition newPeer :: "peer_api \<Rightarrow> 'r \<Rightarrow> config \<Rightarrow> bool \<Rightarrow> (string + rtc) \<times> 'r use list" where
  "newPeer api pc c loopback =
    (let pl = peer_plan_of c loopback
     in case register_codec api of Some e \<Rightarrow> (Inl e, [])
      | None \<Rightarrow> (case ports_error api pl of Some e \<Rightarrow> (Inl e, [])
      | None \<Rightarrow> (case new_connection api pl of Some e \<Rightarrow> (Inl e, [])
      | None \<Rightarrow> (case new_track api of Some e \<Rightarrow> (Inl e, [Opens pc, Closes pc])
      | None \<Rightarrow> (case add_track api of Some e \<Rightarrow> (Inl e, [Opens pc, Closes pc])
      | None \<Rightarrow> (Inr (new_rtc (track_sched api)), [Opens pc]))))))"

lemma newPeer_uses:
  "case newPeer api pc c loopback of
     (Inl e, us) \<Rightarrow> open_after us = {}
   | (Inr p, us) \<Rightarrow> us = [Opens pc]"
  by (simp add: newPeer_def Let_def open_after_def use_step_def split: option.splits)

subsection \<open>Connection states and waiting\<close>

datatype peer_state = Connected | Failed | OtherState

text \<open>The callback: whether it starts \<open>go p.Close()\<close>, and the connection after it.\<close>

definition on_state :: "peer_state \<Rightarrow> rtc \<Rightarrow> bool \<times> rtc" where
  "on_state st p =
    (case st of Connected \<Rightarrow> (False, p\<lparr>r_ready := True\<rparr>) | Failed \<Rightarrow> (True, p) | OtherState \<Rightarrow> (False, p))"

datatype wait_case = WaitReady | WaitDone | WaitContext | WaitTimer

text \<open>\<open>wait\<close>: the case the \<open>select\<close> takes must be ready; without one the timer fires.\<close>

definition rtc_wait :: "wait_case \<Rightarrow> string option \<Rightarrow> rtc \<Rightarrow> rtc_error option" where
  "rtc_wait choice ctx p =
    (case choice of
       WaitReady \<Rightarrow> if r_ready p then None else Some ConnectTimeout
     | WaitDone \<Rightarrow> if r_done p then Some RtcEOF else Some ConnectTimeout
     | WaitContext \<Rightarrow> (case ctx of Some e \<Rightarrow> Some (RtcContext e) | None \<Rightarrow> Some ConnectTimeout)
     | WaitTimer \<Rightarrow> Some ConnectTimeout)"

subsection \<open>Remote addresses\<close>

text \<open>The address a line of a session description contributes.\<close>

definition candidate_ip :: "string \<Rightarrow> string option" where
  "candidate_ip line =
    (if hasPrefix line ''a=candidate:'' then
       let f = GoStrings.fields line
       in if length f > 4 \<and> parseIP (f ! 4) \<noteq> None then Some (f ! 4) else None
     else None)"

text \<open>\<open>remote\<close>; \<open>e\<close> is what \<open>SetRemoteDescription\<close> returns.\<close>

definition remote :: "string option \<Rightarrow> string \<Rightarrow> rtc \<Rightarrow> string option \<times> rtc" where
  "remote e sdp p =
    (e, p\<lparr>r_remotes := r_remotes p @ List.map_filter candidate_ip (split_on (CHR 0x0A) sdp)\<rparr>)"

definition UnderlayIPs :: "rtc \<Rightarrow> string list" where
  "UnderlayIPs p = r_remotes p"

subsection \<open>Session descriptions\<close>

text \<open>A line of a session description: a candidate, as the words after \<open>a=candidate:\<close>, or
  something else.\<close>

datatype sdp_line = Candidate "string list" | Other string

definition one_line_text :: "string \<Rightarrow> bool" where
  "one_line_text s \<longleftrightarrow> CHR 0x0A \<notin> set s"

fun sdp_text :: "sdp_line \<Rightarrow> string" where
  "sdp_text (Candidate ws) = ''a=candidate:'' @ join '' '' ws"
| "sdp_text (Other s) = s"

fun sdp_line_ok :: "sdp_line \<Rightarrow> bool" where
  "sdp_line_ok (Candidate ws) \<longleftrightarrow> length ws > 4 \<and> list_all (\<lambda>w. w \<noteq> [] \<and> list_all graphic w) ws"
| "sdp_line_ok (Other s) \<longleftrightarrow> one_line_text s \<and> \<not> hasPrefix s ''a=candidate:''"

definition sdp_of :: "sdp_line list \<Rightarrow> string" where
  "sdp_of ls = concat (map (\<lambda>l. sdp_text l @ [CHR 0x0D, CHR 0x0A]) ls)"

fun line_ip :: "sdp_line \<Rightarrow> string option" where
  "line_ip (Candidate ws) = (if parseIP (ws ! 4) \<noteq> None then Some (ws ! 4) else None)"
| "line_ip (Other s) = None"

lemma fields_from_blank: "fields_from [] (CHR '' '' # s) = fields_from [] s"
  by (simp add: fields_from.simps [of "[]" "CHR '' '' # s"] space_front_blank)

lemma fields_from_end:
  "w \<noteq> [] \<Longrightarrow> fields_from w (CHR '' '' # s) = w # fields_from [] s"
  "w \<noteq> [] \<Longrightarrow> fields_from w [CHR 0x0D] = [w]"
  by (simp_all add: fields_from.simps [of w] fields_from.simps [of "[]" "[]"] space_front_blank
      space_front_def space_encodings_def hasPrefix_def)

lemma fields_join:
  assumes "list_all (\<lambda>w. w \<noteq> [] \<and> list_all graphic w) ws" and "ws \<noteq> []"
  shows "fields_from [] (join '' '' ws @ [CHR 0x0D]) = ws"
  using assms
proof (induction ws rule: induct_list012)
  case (2 w)
  then show ?case using fields_from_graphic [of w "[]" "[CHR 0x0D]"] by (simp add: fields_from_end)
next
  case (3 v w ws)
  then show ?case
    using fields_from_graphic [of v "[]" "CHR '' '' # join '' '' (w # ws) @ [CHR 0x0D]"]
    by (simp add: fields_from_end)
qed simp

lemma split_on_line: "sep \<notin> set a \<Longrightarrow> split_on sep (a @ sep # b) = a # split_on sep b"
  by (induction a) auto

lemma join_chars: "set (join '' '' ws) \<subseteq> insert (CHR '' '') (\<Union>w \<in> set ws. set w)"
  by (induction ws rule: induct_list012) auto

lemma graphic_no_newline: "\<not> graphic (CHR 0x0A)" "\<not> graphic (CHR 0x0D)"
  by (simp_all add: graphic_def)

lemma sdp_text_one_line:
  assumes "sdp_line_ok l"
  shows "CHR 0x0A \<notin> set (sdp_text l @ [CHR 0x0D])"
proof (cases l)
  case (Candidate ws)
  with assms have "CHR 0x0A \<notin> (\<Union>w \<in> set ws. set w)"
    using graphic_no_newline(1) by (auto simp: list_all_iff)
  with join_chars [of ws] Candidate show ?thesis by auto
next
  case (Other s)
  with assms show ?thesis by (simp add: one_line_text_def)
qed

lemma hasPrefix_iff: "hasPrefix s p \<longleftrightarrow> (\<exists>r. s = p @ r)"
  unfolding hasPrefix_def by (metis append_eq_conv_conj append_take_drop_id)

lemma hasPrefix_snoc:
  assumes "hasPrefix (s @ [x]) p" and "x \<notin> set p"
  shows "hasPrefix s p"
proof -
  obtain r where r: "s @ [x] = p @ r" using assms(1) by (auto simp: hasPrefix_iff)
  show ?thesis
  proof (cases r rule: rev_cases)
    case Nil
    with r have "x \<in> set p" by (metis append_Nil2 in_set_conv_decomp)
    with assms(2) show ?thesis by simp
  next
    case (snoc r' y)
    with r show ?thesis by (auto simp: hasPrefix_iff)
  qed
qed

lemma candidate_ip_line:
  assumes "sdp_line_ok l"
  shows "candidate_ip (sdp_text l @ [CHR 0x0D]) = line_ip l"
proof (cases l)
  case (Candidate ws)
  with assms obtain w rest where ws: "ws = w # rest" "length rest > 3" by (cases ws) auto
  let ?ws = "(''a=candidate:'' @ w) # rest"
  have "sdp_text l @ [CHR 0x0D] = join '' '' ?ws @ [CHR 0x0D]"
    using ws Candidate by (cases rest) simp_all
  moreover have "list_all (\<lambda>w. w \<noteq> [] \<and> list_all graphic w) ?ws"
    using assms Candidate ws by (simp add: graphic_def)
  ultimately have "GoStrings.fields (sdp_text l @ [CHR 0x0D]) = ?ws"
    using fields_join [of ?ws] by (simp add: GoStrings.fields_def)
  moreover have "hasPrefix (sdp_text l @ [CHR 0x0D]) ''a=candidate:''"
    using Candidate by (simp add: hasPrefix_def)
  ultimately show ?thesis
    using Candidate ws by (simp add: candidate_ip_def nth_Cons')
next
  case (Other s)
  have "CHR 0x0D \<notin> set ''a=candidate:''" by simp
  then have "\<not> hasPrefix (s @ [CHR 0x0D]) ''a=candidate:''"
    using hasPrefix_snoc [of s "CHR 0x0D" "''a=candidate:''"] Other assms by auto
  with Other show ?thesis by (simp add: candidate_ip_def)
qed

lemma split_on_sdp:
  assumes "list_all sdp_line_ok ls"
  shows "split_on (CHR 0x0A) (sdp_of ls) = map (\<lambda>l. sdp_text l @ [CHR 0x0D]) ls @ [[]]"
  using assms
proof (induction ls)
  case Nil
  show ?case by (simp add: sdp_of_def)
next
  case (Cons l ls)
  then show ?case
    using split_on_line [OF sdp_text_one_line [of l], of "sdp_of ls"] by (simp add: sdp_of_def)
qed

subsection \<open>Properties\<close>

text \<open>Every advertised address is pinned. From a session description whose lines end in CRLF,
  \<open>remote\<close> keeps exactly the addresses of the candidate lines that are IP literals, in order and after those it
  had, whatever the other lines are and whether or not the library accepts the description; \<open>UnderlayIPs\<close> hands
  them out.\<close>

theorem candidates_pinned:
  assumes "list_all sdp_line_ok ls"
  shows "UnderlayIPs (snd (remote e (sdp_of ls) p)) = UnderlayIPs p @ List.map_filter line_ip ls"
proof -
  have "List.map_filter candidate_ip (map (\<lambda>l. sdp_text l @ [CHR 0x0D]) ls) = List.map_filter line_ip ls"
    using assms by (induction ls) (simp_all add: map_filter_simps candidate_ip_line split: option.splits)
  moreover have "candidate_ip [] = None" by (simp add: candidate_ip_def hasPrefix_def)
  ultimately show ?thesis
    using split_on_sdp [OF assms]
    by (simp add: UnderlayIPs_def remote_def map_filter_def)
qed

theorem candidates_pinned_witness:
  "UnderlayIPs (snd (remote None (sdp_of [Other ''v=0'', Candidate [''1'', ''1'', ''udp'', ''2130706431'',
     ''192.0.2.7'', ''40000'', ''typ'', ''host''], Candidate [''2'', ''1'', ''udp'', ''9'', ''x.local'', ''1'']])
     (new_rtc []))) = [''192.0.2.7'']"
proof -
  let ?ls = "[Other ''v=0'', Candidate [''1'', ''1'', ''udp'', ''2130706431'',
     ''192.0.2.7'', ''40000'', ''typ'', ''host''], Candidate [''2'', ''1'', ''udp'', ''9'', ''x.local'', ''1'']]"
  have ok: "list_all sdp_line_ok ?ls" by (simp add: one_line_text_def hasPrefix_def graphic_def)
  have "List.map_filter line_ip ?ls = [''192.0.2.7'']" by code_simp
  with candidates_pinned [OF ok, of None "new_rtc []"] show ?thesis
    by (simp add: UnderlayIPs_def new_rtc_def)
qed

end
