(* ===== verification/RtcOffer.thy ===== *)
theory RtcOffer
  imports Slot RtcPeer Transport
begin

text \<open>
  The signalling server of \<open>internal/transport/webrtc.go\<close>: the \<open>/offer\<close> handler of
  \<open>serveWebRTC\<close>, run concurrently for every request, the session goroutine it hands the connection to, and
  the shutdown. The HTTP server and the WebRTC library decide what arrives, which of their calls
  fail and when a call returns; a request comes with what decoding its body yields.
\<close>

subsection \<open>Requests\<close>

record session_description =
  sd_type :: string
  sd_sdp :: string

text \<open>\<open>q_body\<close> is \<open>None\<close> when the body exceeds 65536 bytes or does not decode.\<close>

record offer_request =
  q_method :: string
  q_authorization :: string
  q_body :: "session_description option"

text \<open>The checks before the gate: the status they answer with.\<close>

definition refusal :: "config \<Rightarrow> offer_request \<Rightarrow> nat option" where
  "refusal c r =
    (if q_method r \<noteq> ''POST'' then Some 405
     else if \<not> go_equal (q_authorization r) (''Bearer '' @ c_token c) then Some 401
     else None)"

text \<open>The offer in the body.\<close>

definition offered :: "offer_request \<Rightarrow> session_description option" where
  "offered r = (case q_body r of None \<Rightarrow> None | Some d \<Rightarrow> if sd_type d \<noteq> ''offer'' then None else Some d)"

subsection \<open>States\<close>

text \<open>A request's handler up to the hand-over, its deferred calls (with the status it answered),
  then the session goroutine and its deferred calls.\<close>

datatype offer_pc =
    NoRequest
  | Arrived
  | Decoding
  | Making
  | Describing
  | Gathering
  | Encoding
  | HandingOver
  | ClosingPeer nat
  | FreeingSlot nat
  | Answered nat
  | Connecting
  | Handling
  | SessionClosing
  | SessionFreeing
  | SessionLeaving
  | Ended

datatype offer_main = Serving | CancellingServer | AwaitingStop | AwaitingSessions | Returned

datatype shutdown = NotStarted | ShuttingDown | Stopped

text \<open>\<open>late\<close> tells that \<open>Shutdown\<close> gave up after its three seconds.\<close>

record 'e offers =
  busy :: bool
  group :: nat
  pc :: "nat \<Rightarrow> offer_pc"
  req :: "nat \<Rightarrow> offer_request option"
  peer_open :: "nat \<Rightarrow> bool"
  cancelled :: bool
  shut :: shutdown
  late :: bool
  main :: offer_main
  served :: "'e option"

definition offers_init :: "'e offers" where
  "offers_init = \<lparr>busy = False, group = 0, pc = (\<lambda>_. NoRequest), req = (\<lambda>_. None), peer_open = (\<lambda>_. False),
    cancelled = False, shut = NotStarted, late = False, main = Serving, served = None\<rparr>"

definition goto :: "nat \<Rightarrow> offer_pc \<Rightarrow> 'e offers \<Rightarrow> 'e offers" where
  "goto i p s = s\<lparr>pc := (pc s)(i := p)\<rparr>"

definition set_peer :: "nat \<Rightarrow> bool \<Rightarrow> 'e offers \<Rightarrow> 'e offers" where
  "set_peer i b s = s\<lparr>peer_open := (peer_open s)(i := b)\<rparr>"

text \<open>The handler has not returned; the session goroutine has not called \<open>wg.Done\<close>.\<close>

definition in_handler :: "offer_pc \<Rightarrow> bool" where
  "in_handler p \<longleftrightarrow> p \<in> {Arrived, Decoding, Making, Describing, Gathering, Encoding, HandingOver} \<or>
    (\<exists>n. p = ClosingPeer n \<or> p = FreeingSlot n)"

definition in_session :: "offer_pc \<Rightarrow> bool" where
  "in_session p \<longleftrightarrow> p \<in> {Connecting, Handling, SessionClosing, SessionFreeing, SessionLeaving}"

subsection \<open>Steps\<close>

inductive offer_step :: "config \<Rightarrow> 'e offers \<Rightarrow> 'e offers \<Rightarrow> bool" for c :: config where
  arrive: "pc s i = NoRequest \<Longrightarrow> shut s \<noteq> Stopped \<or> late s \<Longrightarrow>
    offer_step c s (goto i Arrived s\<lparr>req := (req s)(i := Some r)\<rparr>)"
| refuse: "pc s i = Arrived \<Longrightarrow> req s i = Some r \<Longrightarrow> refusal c r = Some n \<Longrightarrow>
    offer_step c s (goto i (Answered n) s)"
| taken: "pc s i = Arrived \<Longrightarrow> req s i = Some r \<Longrightarrow> refusal c r = None \<Longrightarrow> busy s \<Longrightarrow>
    offer_step c s (goto i (Answered 409) s)"
| take: "pc s i = Arrived \<Longrightarrow> req s i = Some r \<Longrightarrow> refusal c r = None \<Longrightarrow> \<not> busy s \<Longrightarrow>
    offer_step c s (goto i Decoding s\<lparr>busy := True\<rparr>)"
| bad_offer: "pc s i = Decoding \<Longrightarrow> req s i = Some r \<Longrightarrow> offered r = None \<Longrightarrow>
    offer_step c s (goto i (FreeingSlot 400) s)"
| good_offer: "pc s i = Decoding \<Longrightarrow> req s i = Some r \<Longrightarrow> offered r = Some d \<Longrightarrow>
    offer_step c s (goto i Making s)"
| no_peer: "pc s i = Making \<Longrightarrow> offer_step c s (goto i (FreeingSlot 500) s)"
| peer: "pc s i = Making \<Longrightarrow> offer_step c s (set_peer i True (goto i Describing s))"
| bad_sdp: "pc s i = Describing \<Longrightarrow> offer_step c s (goto i (ClosingPeer 400) s)"
| described: "pc s i = Describing \<Longrightarrow> offer_step c s (goto i Gathering s)"
| not_gathered: "pc s i = Gathering \<Longrightarrow> offer_step c s (goto i (ClosingPeer 500) s)"
| gathered: "pc s i = Gathering \<Longrightarrow> offer_step c s (goto i Encoding s)"
| not_encoded: "pc s i = Encoding \<Longrightarrow> offer_step c s (goto i (ClosingPeer 200) s)"
| hand_over: "pc s i = Encoding \<Longrightarrow> offer_step c s (goto i HandingOver s)"
| spawn: "pc s i = HandingOver \<Longrightarrow> offer_step c s (goto i Connecting s\<lparr>group := group s + 1\<rparr>)"
| close_peer: "pc s i = ClosingPeer n \<Longrightarrow> offer_step c s (set_peer i False (goto i (FreeingSlot n) s))"
| free_slot: "pc s i = FreeingSlot n \<Longrightarrow> offer_step c s (goto i (Answered n) s\<lparr>busy := False\<rparr>)"
| wait_fails: "pc s i = Connecting \<Longrightarrow> offer_step c s (goto i SessionClosing s)"
| wait_passes: "pc s i = Connecting \<Longrightarrow> offer_step c s (goto i Handling s)"
| handler_returns: "pc s i = Handling \<Longrightarrow> offer_step c s (goto i SessionClosing s)"
| session_close: "pc s i = SessionClosing \<Longrightarrow> offer_step c s (set_peer i False (goto i SessionFreeing s))"
| session_free: "pc s i = SessionFreeing \<Longrightarrow> offer_step c s (goto i SessionLeaving s\<lparr>busy := False\<rparr>)"
| session_leave: "pc s i = SessionLeaving \<Longrightarrow> offer_step c s (goto i Ended s\<lparr>group := group s - 1\<rparr>)"
| after_peer: "peer_open s i \<Longrightarrow> offer_step c s (set_peer i False s)"
| cancel: "offer_step c s (s\<lparr>cancelled := True\<rparr>)"
| begin_shutdown: "cancelled s \<Longrightarrow> shut s = NotStarted \<Longrightarrow> offer_step c s (s\<lparr>shut := ShuttingDown\<rparr>)"
| quiescent: "shut s = ShuttingDown \<Longrightarrow> (\<forall>i. \<not> in_handler (pc s i)) \<Longrightarrow> offer_step c s (s\<lparr>shut := Stopped\<rparr>)"
| timeout: "shut s = ShuttingDown \<Longrightarrow> offer_step c s (s\<lparr>shut := Stopped, late := True\<rparr>)"
| serve_fails: "main s = Serving \<Longrightarrow> offer_step c s (s\<lparr>main := CancellingServer, served := Some e\<rparr>)"
| server_closed: "main s = Serving \<Longrightarrow> shut s \<noteq> NotStarted \<Longrightarrow> offer_step c s (s\<lparr>main := CancellingServer\<rparr>)"
| main_cancel: "main s = CancellingServer \<Longrightarrow> offer_step c s (s\<lparr>cancelled := True, main := AwaitingStop\<rparr>)"
| main_stopped: "main s = AwaitingStop \<Longrightarrow> shut s = Stopped \<Longrightarrow> offer_step c s (s\<lparr>main := AwaitingSessions\<rparr>)"
| main_joined: "main s = AwaitingSessions \<Longrightarrow> group s = 0 \<Longrightarrow> offer_step c s (s\<lparr>main := Returned\<rparr>)"

abbreviation offer_reach :: "config \<Rightarrow> 'e offers \<Rightarrow> bool" where
  "offer_reach c \<equiv> (offer_step c)\<^sup>*\<^sup>* offers_init"

subsection \<open>Invariants\<close>

text \<open>A request holds the slot; a request has an open peer at most in these states.\<close>

definition holding :: "offer_pc \<Rightarrow> bool" where
  "holding p \<longleftrightarrow> (in_handler p \<and> p \<noteq> Arrived) \<or> (in_session p \<and> p \<noteq> SessionLeaving)"

definition with_peer :: "offer_pc \<Rightarrow> bool" where
  "with_peer p \<longleftrightarrow> p \<in> {Describing, Gathering, Encoding, HandingOver, Connecting, Handling, SessionClosing} \<or>
    (\<exists>n. p = ClosingPeer n)"

definition authorized :: "config \<Rightarrow> offer_request option \<Rightarrow> bool" where
  "authorized c r \<longleftrightarrow> (\<exists>q. r = Some q \<and> q_method q = ''POST'' \<and> q_authorization q = ''Bearer '' @ c_token c)"

definition offering :: "offer_request option \<Rightarrow> bool" where
  "offering r \<longleftrightarrow> (\<exists>q d. r = Some q \<and> q_body q = Some d \<and> sd_type d = ''offer'')"

definition request_ok :: "config \<Rightarrow> 'e offers \<Rightarrow> nat \<Rightarrow> bool" where
  "request_ok c s i \<longleftrightarrow>
    (pc s i \<noteq> NoRequest \<longrightarrow> req s i \<noteq> None) \<and>
    (holding (pc s i) \<or> pc s i = SessionLeaving \<or> pc s i = Ended \<longrightarrow> authorized c (req s i)) \<and>
    (pc s i = Making \<or> with_peer (pc s i) \<longrightarrow> offering (req s i)) \<and>
    (peer_open s i \<longrightarrow> with_peer (pc s i))"

lemmas offer_ops = goto_def set_peer_def
lemmas offer_sets = holding_def in_handler_def in_session_def with_peer_def

lemma refusal_None: "refusal c r = None \<longleftrightarrow> authorized c (Some r)"
  by (auto simp: refusal_def authorized_def go_equal_iff)

lemma offered_Some: "offered r = Some d \<Longrightarrow> offering (Some r)"
  by (auto simp: offered_def offering_def split: option.splits if_splits)

lemma pc_table [simp]:
  "\<not> holding NoRequest" "\<not> holding Arrived" "holding Decoding" "holding Making"
  "holding Describing" "holding Gathering" "holding Encoding" "holding HandingOver"
  "holding (ClosingPeer n)" "holding (FreeingSlot n)" "\<not> holding (Answered n)" "holding Connecting"
  "holding Handling" "holding SessionClosing" "holding SessionFreeing" "\<not> holding SessionLeaving"
  "\<not> holding Ended"
  "\<not> with_peer NoRequest" "\<not> with_peer Arrived" "\<not> with_peer Decoding"
  "\<not> with_peer Making" "with_peer Describing" "with_peer Gathering" "with_peer Encoding"
  "with_peer HandingOver" "with_peer (ClosingPeer n)" "\<not> with_peer (FreeingSlot n)"
  "\<not> with_peer (Answered n)" "with_peer Connecting" "with_peer Handling" "with_peer SessionClosing"
  "\<not> with_peer SessionFreeing" "\<not> with_peer SessionLeaving" "\<not> with_peer Ended"
  "\<not> in_session NoRequest" "\<not> in_session Arrived" "\<not> in_session Decoding"
  "\<not> in_session Making" "\<not> in_session Describing" "\<not> in_session Gathering"
  "\<not> in_session Encoding" "\<not> in_session HandingOver" "\<not> in_session (ClosingPeer n)"
  "\<not> in_session (FreeingSlot n)" "\<not> in_session (Answered n)" "in_session Connecting"
  "in_session Handling" "in_session SessionClosing" "in_session SessionFreeing"
  "in_session SessionLeaving" "\<not> in_session Ended"
  "\<not> in_handler NoRequest" "in_handler Arrived" "in_handler Decoding" "in_handler Making"
  "in_handler Describing" "in_handler Gathering" "in_handler Encoding" "in_handler HandingOver"
  "in_handler (ClosingPeer n)" "in_handler (FreeingSlot n)" "\<not> in_handler (Answered n)"
  "\<not> in_handler Connecting" "\<not> in_handler Handling" "\<not> in_handler SessionClosing"
  "\<not> in_handler SessionFreeing" "\<not> in_handler SessionLeaving" "\<not> in_handler Ended"
  by (simp_all add: offer_sets)

definition requests_ok :: "config \<Rightarrow> 'e offers \<Rightarrow> bool" where
  "requests_ok c s \<longleftrightarrow> (\<forall>i. request_ok c s i)"

lemma requests_okD: "requests_ok c s \<Longrightarrow> request_ok c s i"
  by (simp add: requests_ok_def)

lemma requests_ok_fields [simp]:
  "requests_ok c (s\<lparr>busy := b\<rparr>) = requests_ok c s" "requests_ok c (s\<lparr>group := n\<rparr>) = requests_ok c s"
  "requests_ok c (s\<lparr>cancelled := b\<rparr>) = requests_ok c s" "requests_ok c (s\<lparr>shut := h\<rparr>) = requests_ok c s"
  "requests_ok c (s\<lparr>late := b\<rparr>) = requests_ok c s" "requests_ok c (s\<lparr>main := m\<rparr>) = requests_ok c s"
  "requests_ok c (s\<lparr>served := e\<rparr>) = requests_ok c s"
  by (simp_all add: requests_ok_def request_ok_def)

lemma requests_ok_move:
  assumes "requests_ok c s"
    and "request_ok c s i \<Longrightarrow> (p \<noteq> NoRequest \<longrightarrow> req s i \<noteq> None) \<and>
      (holding p \<or> p = SessionLeaving \<or> p = Ended \<longrightarrow> authorized c (req s i)) \<and>
      (p = Making \<or> with_peer p \<longrightarrow> offering (req s i)) \<and> (peer_open s i \<longrightarrow> with_peer p)"
  shows "requests_ok c (goto i p s)"
  using assms by (auto simp: requests_ok_def request_ok_def goto_def)

lemma requests_ok_shut: "requests_ok c s \<Longrightarrow> requests_ok c (set_peer i False s)"
  by (auto simp: requests_ok_def request_ok_def set_peer_def)

lemma shut_goto: "set_peer i False (goto i p s) = goto i p (set_peer i False s)"
  by (simp add: offer_ops)

lemma requests_ok_step: "offer_step c s t \<Longrightarrow> requests_ok c s \<Longrightarrow> requests_ok c t"
proof (induction rule: offer_step.induct)
  case (arrive s i r)
  have "request_ok c (goto i Arrived s\<lparr>req := (req s)(i := Some r)\<rparr>) j" for j
    using requests_okD [OF arrive(3), of j] requests_okD [OF arrive(3), of i] arrive(1)
    by (simp add: request_ok_def goto_def)
  then show ?case by (simp add: requests_ok_def)
next
  case (peer s i)
  have "request_ok c (set_peer i True (goto i Describing s)) j" for j
    using requests_okD [OF peer(2), of j] requests_okD [OF peer(2), of i] peer(1)
    by (simp add: request_ok_def offer_ops)
  then show ?case by (simp add: requests_ok_def)
next
  case (close_peer s i n)
  show ?case unfolding shut_goto
    by (rule requests_ok_move [OF requests_ok_shut [OF close_peer(2)]])
      (use close_peer(1) in \<open>simp add: request_ok_def set_peer_def\<close>)
next
  case (session_close s i)
  show ?case unfolding shut_goto
    by (rule requests_ok_move [OF requests_ok_shut [OF session_close(2)]])
      (use session_close(1) in \<open>simp add: request_ok_def set_peer_def\<close>)
next
  case (take s i r)
  then show ?case using requests_ok_move [OF take(5), of i Decoding]
    by (simp add: request_ok_def refusal_None)
next
  case (good_offer s i r d)
  then show ?case using requests_ok_move [OF good_offer(4), of i Making] offered_Some
    by (simp add: request_ok_def)
next
  case (after_peer s i)
  then show ?case by (simp add: requests_ok_shut)
qed (simp_all, (rule requests_ok_move, assumption, simp add: request_ok_def)+)

subsection \<open>The session group and the shutdown\<close>

definition grouped :: "'e offers \<Rightarrow> bool" where
  "grouped s \<longleftrightarrow> finite {i. in_session (pc s i)} \<and> group s = card {i. in_session (pc s i)}"

definition quiet :: "'e offers \<Rightarrow> bool" where
  "quiet s \<longleftrightarrow>
    (shut s = Stopped \<and> \<not> late s \<longrightarrow> (\<forall>i. \<not> in_handler (pc s i))) \<and>
    (main s = AwaitingSessions \<or> main s = Returned \<longrightarrow> shut s = Stopped) \<and>
    (main s = Returned \<and> \<not> late s \<longrightarrow> (\<forall>i. \<not> in_session (pc s i)))"

definition offers_inv :: "config \<Rightarrow> 'e offers \<Rightarrow> bool" where
  "offers_inv c s \<longleftrightarrow> requests_ok c s \<and> grouped s \<and> quiet s"

lemma session_upd:
  "{j. in_session ((f(i := p)) j)} =
    (if in_session p then insert i {j. in_session (f j)} else {j. in_session (f j)} - {i})"
  by auto

lemma handlers_fields [simp]:
  "grouped (s\<lparr>busy := b\<rparr>) = grouped s" "grouped (s\<lparr>req := r\<rparr>) = grouped s" "grouped (set_peer i b s) = grouped s"
  "grouped (s\<lparr>cancelled := b\<rparr>) = grouped s" "grouped (s\<lparr>shut := h\<rparr>) = grouped s"
  "grouped (s\<lparr>late := b\<rparr>) = grouped s" "grouped (s\<lparr>main := m\<rparr>) = grouped s" "grouped (s\<lparr>served := e\<rparr>) = grouped s"
  by (simp_all add: grouped_def set_peer_def)

lemma handlers_goto: "grouped s \<Longrightarrow> in_session p = in_session (pc s i) \<Longrightarrow> grouped (goto i p s)"
  by (auto simp: grouped_def goto_def session_upd insert_absorb simp del: fun_upd_apply)

lemma handlers_enter:
  "grouped s \<Longrightarrow> in_session p \<Longrightarrow> \<not> in_session (pc s i) \<Longrightarrow> grouped (goto i p s\<lparr>group := group s + 1\<rparr>)"
  by (simp add: grouped_def goto_def session_upd del: fun_upd_apply)

lemma handlers_leave:
  "grouped s \<Longrightarrow> \<not> in_session p \<Longrightarrow> in_session (pc s i) \<Longrightarrow> grouped (goto i p s\<lparr>group := group s - 1\<rparr>)"
  by (simp add: grouped_def goto_def session_upd del: fun_upd_apply)

lemma handlers_step: "offer_step c s t \<Longrightarrow> grouped s \<Longrightarrow> grouped t"
proof (induction rule: offer_step.induct)
  case (spawn s i)
  then show ?case by (intro handlers_enter) simp_all
next
  case (session_leave s i)
  then show ?case by (intro handlers_leave) simp_all
qed (simp_all add: handlers_goto)

lemma handlers_zero: "grouped s \<Longrightarrow> group s = 0 \<Longrightarrow> \<not> in_session (pc s i)"
  by (auto simp: grouped_def)

lemma quiet_fields [simp]:
  "quiet (s\<lparr>busy := b\<rparr>) = quiet s" "quiet (s\<lparr>req := r\<rparr>) = quiet s" "quiet (set_peer i b s) = quiet s"
  "quiet (s\<lparr>cancelled := b\<rparr>) = quiet s" "quiet (s\<lparr>group := n\<rparr>) = quiet s" "quiet (s\<lparr>served := e\<rparr>) = quiet s"
  by (simp_all add: quiet_def set_peer_def)

text \<open>A move that starts from an active state or ends in one without the server having stopped.\<close>

lemma quiet_goto:
  assumes "quiet s" and "in_handler p \<longrightarrow> in_handler (pc s i) \<or> shut s \<noteq> Stopped \<or> late s"
    and "in_session p \<longrightarrow> in_handler (pc s i) \<or> in_session (pc s i)"
  shows "quiet (goto i p s)"
  using assms by (auto simp: quiet_def goto_def)

lemma quiet_step: "offer_step c s t \<Longrightarrow> grouped s \<Longrightarrow> quiet s \<Longrightarrow> quiet t"
proof (induction rule: offer_step.induct)
  case (main_joined s)
  with handlers_zero [of s] show ?case by (simp add: quiet_def)
next
  case (begin_shutdown s)
  then show ?case by (simp add: quiet_def)
next
  case (quiescent s)
  then show ?case by (simp add: quiet_def)
next
  case (timeout s)
  then show ?case by (simp add: quiet_def)
next
  case (serve_fails s e)
  then show ?case by (simp add: quiet_def)
next
  case (server_closed s)
  then show ?case by (simp add: quiet_def)
next
  case (main_cancel s)
  then show ?case by (simp add: quiet_def)
next
  case (main_stopped s)
  then show ?case by (simp add: quiet_def)
qed (simp_all add: quiet_goto)

lemma offers_inv_step: "offers_inv c s \<Longrightarrow> offer_step c s t \<Longrightarrow> offers_inv c t"
  unfolding offers_inv_def using requests_ok_step handlers_step quiet_step by blast

lemma offers_inv_init: "offers_inv c offers_init"
  by (simp add: offers_inv_def offers_init_def requests_ok_def request_ok_def grouped_def quiet_def)

lemma offer_slot:
  "offer_step c s t \<Longrightarrow> slot_move (busy s, \<lambda>i. holding (pc s i)) (busy t, \<lambda>i. holding (pc t i))"
proof (induction rule: offer_step.induct)
  case (take s i r)
  with slot_move_enter [of "busy s" _ "\<lambda>i. holding (pc s i)" i] show ?case
    by (simp add: goto_def fun_eq_iff)
next
  case (free_slot s i n)
  with slot_move_leave [of "\<lambda>i. holding (pc s i)" i] show ?case by (simp add: goto_def fun_eq_iff)
next
  case (session_free s i)
  with slot_move_leave [of "\<lambda>i. holding (pc s i)" i] show ?case by (simp add: goto_def fun_eq_iff)
qed (auto simp: slot_move_def offer_ops fun_eq_iff)

interpretation offer_gate: slot_gate "offer_step c" offers_init "offers_inv c" busy "\<lambda>s i. holding (pc s i)" for c
proof
  show "offers_inv c offers_init" by (rule offers_inv_init)
  show "shows_slot (busy offers_init, \<lambda>i. holding (pc offers_init i)) None"
    by (simp add: shows_slot_def offers_init_def)
qed (erule (1) offers_inv_step, erule offer_slot)

lemma peer_holding: "with_peer p \<Longrightarrow> holding p"
  by (cases p) simp_all

subsection \<open>A session that outlives the server\<close>

text \<open>The request of a client that knows the token.\<close>

definition good_request :: "config \<Rightarrow> offer_request" where
  "good_request c = \<lparr>q_method = ''POST'', q_authorization = ''Bearer '' @ c_token c,
    q_body = Some \<lparr>sd_type = ''offer'', sd_sdp = []\<rparr>\<rparr>"

lemma good_request_ok: "refusal c (good_request c) = None" "offered (good_request c) \<noteq> None"
  by (simp_all add: refusal_def good_request_def offered_def go_equal_iff)

text \<open>Request 0 at \<open>p\<close> while the server is at \<open>m\<close> and the shutdown at \<open>h\<close>; \<open>b\<close>: its peer is open.\<close>

definition stage :: "config \<Rightarrow> offer_pc \<Rightarrow> bool \<Rightarrow> offer_main \<Rightarrow> shutdown \<Rightarrow> 'e offers \<Rightarrow> bool" where
  "stage c p b m h s \<longleftrightarrow> (offer_step c)\<^sup>*\<^sup>* offers_init s \<and> pc s 0 = p \<and> req s 0 = Some (good_request c) \<and>
    peer_open s 0 = b \<and> main s = m \<and> shut s = h \<and> group s = (if p = Connecting then 1 else 0)"

lemma stage_step:
  assumes "stage c p b m h s" and "offer_step c s t" and "pc t 0 = q" and "req t 0 = req s 0"
    and "peer_open t 0 = b'" and "main t = m'" and "shut t = h'" and "group t = (if q = Connecting then 1 else 0)"
  shows "stage c q b' m' h' t"
  using assms by (auto simp: stage_def intro: rtranclp.rtrancl_into_rtrancl)

lemmas stage_simps = stage_def goto_def set_peer_def

lemma handed_over: "\<exists>s :: 'e offers. stage c HandingOver True Serving NotStarted s"
proof -
  let ?r = "good_request c"
  define a :: "'e offers" where "a = goto 0 Arrived offers_init\<lparr>req := (req (offers_init :: 'e offers))(0 := Some ?r)\<rparr>"
  have "offer_step c offers_init a"
    unfolding a_def by (rule offer_step.arrive) (simp_all add: offers_init_def)
  then have "(offer_step c)\<^sup>*\<^sup>* offers_init a" by (rule r_into_rtranclp)
  then have a: "stage c Arrived False Serving NotStarted a" "\<not> busy a"
    by (simp_all add: stage_simps a_def offers_init_def)
  obtain d where d: "offered ?r = Some d" using good_request_ok(2) by blast
  have "stage c Decoding False Serving NotStarted (goto 0 Decoding a\<lparr>busy := True\<rparr>)" (is "stage _ _ _ _ _ ?b")
    by (rule stage_step [OF a(1) offer_step.take [OF _ _ good_request_ok(1) a(2)]])
      (use a(1) in \<open>simp_all add: stage_simps\<close>)
  then have m: "stage c Making False Serving NotStarted (goto 0 Making ?b)" (is "stage _ _ _ _ _ ?m")
    by (rule stage_step [OF _ offer_step.good_offer [OF _ _ d]]) (use a(1) in \<open>simp_all add: stage_simps\<close>)
  then have p: "stage c Describing True Serving NotStarted (set_peer 0 True (goto 0 Describing ?m))"
      (is "stage _ _ _ _ _ ?p")
    by (rule stage_step [OF _ offer_step.peer]) (use m in \<open>simp_all add: stage_simps\<close>)
  then have g: "stage c Gathering True Serving NotStarted (goto 0 Gathering ?p)" (is "stage _ _ _ _ _ ?g")
    by (rule stage_step [OF _ offer_step.described]) (use p in \<open>simp_all add: stage_simps\<close>)
  then have e: "stage c Encoding True Serving NotStarted (goto 0 Encoding ?g)" (is "stage _ _ _ _ _ ?e")
    by (rule stage_step [OF _ offer_step.gathered]) (use g in \<open>simp_all add: stage_simps\<close>)
  then have "stage c HandingOver True Serving NotStarted (goto 0 HandingOver ?e)"
    by (rule stage_step [OF _ offer_step.hand_over]) (use e in \<open>simp_all add: stage_simps\<close>)
  then show ?thesis by blast
qed

text \<open>When \<open>Shutdown\<close> gives up after three seconds while a handler is about to hand over, the
  server waits for no session and returns; the handler then starts one.\<close>

lemma session_may_outlive_server:
  "\<exists>s :: 'e offers. (offer_step c)\<^sup>*\<^sup>* offers_init s \<and> main s = Returned \<and> pc s 0 = Connecting \<and> peer_open s 0"
proof -
  obtain s :: "'e offers" where s: "stage c HandingOver True Serving NotStarted s" using handed_over by blast
  have a: "stage c HandingOver True Serving NotStarted (s\<lparr>cancelled := True\<rparr>)" (is "stage _ _ _ _ _ ?a")
    by (rule stage_step [OF s offer_step.cancel]) (use s in \<open>simp_all add: stage_simps\<close>)
  have b: "stage c HandingOver True Serving ShuttingDown (?a\<lparr>shut := ShuttingDown\<rparr>)" (is "stage _ _ _ _ _ ?b")
    by (rule stage_step [OF a offer_step.begin_shutdown]) (use a in \<open>simp_all add: stage_simps\<close>)
  have d: "stage c HandingOver True Serving Stopped (?b\<lparr>shut := Stopped, late := True\<rparr>)" (is "stage _ _ _ _ _ ?d")
    by (rule stage_step [OF b offer_step.timeout]) (use b in \<open>simp_all add: stage_simps\<close>)
  have e: "stage c HandingOver True CancellingServer Stopped (?d\<lparr>main := CancellingServer\<rparr>)" (is "stage _ _ _ _ _ ?e")
    by (rule stage_step [OF d offer_step.server_closed]) (use d in \<open>simp_all add: stage_simps\<close>)
  have f: "stage c HandingOver True AwaitingStop Stopped (?e\<lparr>cancelled := True, main := AwaitingStop\<rparr>)" (is "stage _ _ _ _ _ ?f")
    by (rule stage_step [OF e offer_step.main_cancel]) (use e in \<open>simp_all add: stage_simps\<close>)
  have g: "stage c HandingOver True AwaitingSessions Stopped (?f\<lparr>main := AwaitingSessions\<rparr>)" (is "stage _ _ _ _ _ ?g")
    by (rule stage_step [OF f offer_step.main_stopped]) (use f in \<open>simp_all add: stage_simps\<close>)
  have h: "stage c HandingOver True Returned Stopped (?g\<lparr>main := Returned\<rparr>)" (is "stage _ _ _ _ _ ?h")
    by (rule stage_step [OF g offer_step.main_joined]) (use g in \<open>simp_all add: stage_simps\<close>)
  have "stage c Connecting True Returned Stopped (goto 0 Connecting ?h\<lparr>group := group ?h + 1\<rparr>)"
    by (rule stage_step [OF h offer_step.spawn]) (use h in \<open>simp_all add: stage_simps\<close>)
  then show ?thesis unfolding stage_def by blast
qed

subsection \<open>Properties\<close>

text \<open>C4: The signalling server refines the one-slot gate, for clients that know the token only. In
  every run, whatever requests arrive concurrently, the busy flag is the slot of the
  specification, held by exactly the request being answered with a peer or its session; every open peer belongs to
  the holder, and the holder sent a POST with the bearer token and, once it has a peer, an offer.\<close>

theorem offers_refine_slot:
  assumes "(offer_step c)\<^sup>*\<^sup>* offers_init s"
  shows "\<exists>h. slot_step\<^sup>*\<^sup>* None h \<and> busy s = (h \<noteq> None) \<and> (\<forall>i. holding (pc s i) \<longleftrightarrow> h = Some i) \<and>
    (\<forall>i. peer_open s i \<longrightarrow> h = Some i \<and> offering (req s i)) \<and>
    (\<forall>i. h = Some i \<longrightarrow> (\<exists>q. req s i = Some q \<and> q_method q = ''POST'' \<and>
      q_authorization q = ''Bearer '' @ c_token c))"
proof -
  from offer_gate.refines [OF assms] obtain h where h: "slot_step\<^sup>*\<^sup>* None h" "busy s = (h \<noteq> None)"
    "\<forall>i. holding (pc s i) \<longleftrightarrow> h = Some i" unfolding shows_slot_def fst_conv snd_conv by metis
  have ok: "request_ok c s i" for i
    using offer_gate.reach_inv [OF assms] by (simp add: offers_inv_def requests_ok_def)
  have "peer_open s i \<longrightarrow> h = Some i \<and> offering (req s i)" for i
    using ok [of i] h(3) peer_holding by (auto simp: request_ok_def)
  moreover have "h = Some i \<longrightarrow> authorized c (req s i)" for i
    using ok [of i] h(3) by (auto simp: request_ok_def)
  ultimately show ?thesis using h unfolding authorized_def by blast
qed

theorem offers_refine_slot_witness:
  "\<exists>s :: nat offers. (offer_step sample_config)\<^sup>*\<^sup>* offers_init s \<and> peer_open s 0 \<and> busy s \<and>
    (\<forall>i. holding (pc s i) \<longleftrightarrow> i = 0)"
proof -
  obtain s :: "nat offers" where s: "stage sample_config HandingOver True Serving NotStarted s"
    using handed_over by blast
  then have r: "(offer_step sample_config)\<^sup>*\<^sup>* offers_init s" "peer_open s 0" by (simp_all add: stage_def)
  from offers_refine_slot [OF r(1)] r(2) have "busy s \<and> (\<forall>i. holding (pc s i) \<longleftrightarrow> i = 0)" by auto
  with r show ?thesis by blast
qed

text \<open>C16: The signalling server joins its sessions when it shuts down in time. If \<open>serveWebRTC\<close>
  has returned and \<open>Shutdown\<close> did not give up, no handler and no session goroutine runs, every
  peer is closed and the slot is free.\<close>

theorem offers_joined:
  assumes "(offer_step c)\<^sup>*\<^sup>* offers_init s" and "main s = Returned" and "\<not> late s"
  shows "\<not> in_handler (pc s i) \<and> \<not> in_session (pc s i) \<and> \<not> peer_open s i \<and> \<not> busy s"
proof -
  have inv: "requests_ok c s" "quiet s" using offer_gate.reach_inv [OF assms(1)] by (simp_all add: offers_inv_def)
  have idle: "\<not> in_handler (pc s i) \<and> \<not> in_session (pc s i)" for i
    using inv(2) assms(2,3) by (simp add: quiet_def)
  then have "\<not> holding (pc s i)" for i by (simp add: holding_def)
  then have "\<not> busy s" "\<not> peer_open s i" for i
    using offer_gate.refines [OF assms(1)] requests_okD [OF inv(1), of i] peer_holding
    by (auto simp: shows_slot_def request_ok_def fun_eq_iff)
  with idle show ?thesis by blast
qed

theorem offers_joined_witness:
  "\<exists>s :: nat offers. (offer_step sample_config)\<^sup>*\<^sup>* offers_init s \<and> main s = Returned \<and> \<not> busy s"
proof -
  define s :: "nat offers" where "s = offers_init\<lparr>cancelled := True, shut := Stopped, main := Returned\<rparr>"
  note ops = offers_init_def in_handler_def
  let ?a = "offers_init\<lparr>cancelled := True\<rparr> :: nat offers"
  let ?b = "?a\<lparr>shut := ShuttingDown\<rparr>" let ?d = "?b\<lparr>shut := Stopped\<rparr>" let ?e = "?d\<lparr>main := CancellingServer\<rparr>"
  let ?f = "?e\<lparr>cancelled := True, main := AwaitingStop\<rparr>" let ?g = "?f\<lparr>main := AwaitingSessions\<rparr>"
  note r = rtranclp.rtrancl_into_rtrancl
  have "(offer_step sample_config)\<^sup>*\<^sup>* offers_init (?g\<lparr>main := Returned\<rparr>)"
    by (rule r [OF r [OF r [OF r [OF r [OF r [OF r_into_rtranclp]]]]]], rule offer_step.cancel,
        rule offer_step.begin_shutdown, simp, simp add: ops, rule offer_step.quiescent, simp, simp add: ops,
        rule offer_step.server_closed, simp add: ops, simp, rule offer_step.main_cancel, simp,
        rule offer_step.main_stopped, simp, simp, rule offer_step.main_joined, simp, simp add: ops)
  moreover have "?g\<lparr>main := Returned\<rparr> = s" by (simp add: s_def offers_init_def)
  ultimately have run: "(offer_step sample_config)\<^sup>*\<^sup>* offers_init s" by simp
  have "main s = Returned" "\<not> late s" by (simp_all add: s_def offers_init_def)
  from offers_joined [OF run this] run this show ?thesis by blast
qed

end
