(* ===== verification/Tun.thy ===== *)
theory Tun
  imports Packet "HOL-Library.Monad_Syntax"
begin

text \<open>
  The TUN device of \<open>internal/tun/device.go\<close>: opening, the read loop over the driver's batches,
  writing with headroom, and closing once. The driver (\<open>wireguard/tun\<close>) is a parameter: a record
  of what its calls do in a world \<open>'w\<close>. A read that blocks for ever is \<open>None\<close>; it fills
  the buffers and sizes it is given. An index or a slice out of range is the error \<open>TunPanic\<close>;
  \<open>well_behaved\<close> is what the driver documents, under which it never occurs.
\<close>

definition packetOffset :: nat where
  "packetOffset = 16"

text \<open>The buffers and the sizes of a batch.\<close>

type_synonym batch = "byte list list \<times> int list"

record 'w tun_driver =
  drv_create :: "string \<Rightarrow> nat \<Rightarrow> 'w \<Rightarrow> string option \<times> 'w"
  drv_name :: "'w \<Rightarrow> (string + string) \<times> 'w"
  drv_batch :: "'w \<Rightarrow> nat"
  drv_read :: "nat \<Rightarrow> batch \<Rightarrow> 'w \<Rightarrow> ((int \<times> string option) \<times> batch \<times> 'w) option"
  drv_write :: "byte list list \<Rightarrow> nat \<Rightarrow> 'w \<Rightarrow> (int \<times> string option) \<times> 'w"
  drv_close :: "'w \<Rightarrow> string option \<times> 'w"

record device =
  d_name :: string
  d_closed :: bool
  d_close_err :: "string option"
  d_batch :: batch
  d_pending :: "packet list"

datatype tun_error =
    Unsupported
  | DriverError string
  | ReadError string string
  | WriteError string string
  | InvalidPacketSize
  | TunPanic

subsection \<open>Open\<close>

text \<open>\<open>runtime.GOOS\<close> is \<open>goos\<close>.\<close>

definition tun_Open ::
    "'w tun_driver \<Rightarrow> string \<Rightarrow> string \<Rightarrow> 'w \<Rightarrow> (tun_error + device) \<times> 'w" where
  "tun_Open drv goos name w =
    (if goos \<noteq> ''darwin'' \<and> goos \<noteq> ''linux'' then (Inl Unsupported, w)
     else
       let name' = (if name = [] then (if goos = ''darwin'' then ''utun'' else ''tlab0'') else name)
       in case drv_create drv name' MTU w of
            (Some e, w1) \<Rightarrow> (Inl (DriverError e), w1)
          | (None, w1) \<Rightarrow>
              (case drv_name drv w1 of
                 (Inl e, w2) \<Rightarrow> (Inl (DriverError e), snd (drv_close drv w2))
               | (Inr actual, w2) \<Rightarrow>
                   (Inr \<lparr>d_name = actual, d_closed = False, d_close_err = None,
                      d_batch = (replicate (drv_batch drv w2) (replicate (65535 + packetOffset) 0),
                        replicate (drv_batch drv w2) 0),
                      d_pending = []\<rparr>, w2)))"

subsection \<open>ReadPacket\<close>

text \<open>The loop over a batch: the packets of legal size, copied; \<open>None\<close> is a panic.\<close>

fun collect :: "nat list \<Rightarrow> batch \<Rightarrow> packet list option" where
  "collect [] bt = Some []"
| "collect (i # is) (bufs, sizes) =
     (if i \<ge> length sizes then None
      else if sizes ! i < 1 \<or> sizes ! i > int MTU then collect is (bufs, sizes)
      else if i \<ge> length bufs \<or> packetOffset + nat (sizes ! i) > length (bufs ! i) then None
      else map_option (Cons (take (nat (sizes ! i)) (drop packetOffset (bufs ! i)))) (collect is (bufs, sizes)))"

text \<open>A round of the loop with nothing pending.\<close>

definition fill :: "'w tun_driver \<Rightarrow> device \<Rightarrow> 'w \<Rightarrow> (tun_error option \<times> device \<times> 'w) option" where
  "fill drv d w =
    (case drv_read drv packetOffset (d_batch d) w of
       None \<Rightarrow> None
     | Some ((n, Some e), bt, w') \<Rightarrow> Some (Some (ReadError (d_name d) e), d\<lparr>d_batch := bt\<rparr>, w')
     | Some ((n, None), bt, w') \<Rightarrow>
         (case collect [0..<nat n] bt of
            None \<Rightarrow> Some (Some TunPanic, d\<lparr>d_batch := bt\<rparr>, w')
          | Some ps \<Rightarrow> Some (None, d\<lparr>d_batch := bt, d_pending := d_pending d @ ps\<rparr>, w')))"

text \<open>The loop may never return: when every batch holds only packets of illegal sizes.\<close>

partial_function (option) tun_ReadPacket ::
    "'w tun_driver \<Rightarrow> device \<Rightarrow> 'w \<Rightarrow> ((tun_error + packet) \<times> device \<times> 'w) option" where
  "tun_ReadPacket drv d w =
    (case d_pending d of
       b # bs \<Rightarrow> Some (Inr b, d\<lparr>d_pending := bs\<rparr>, w)
     | [] \<Rightarrow> Option.bind (fill drv d w) (\<lambda>(e, d', w').
         case e of Some x \<Rightarrow> Some (Inl x, d', w') | None \<Rightarrow> tun_ReadPacket drv d' w'))"

declare tun_ReadPacket.simps [code]

subsection \<open>WritePacket and Close\<close>

definition tun_WritePacket ::
    "'w tun_driver \<Rightarrow> device \<Rightarrow> 'w \<Rightarrow> packet \<Rightarrow> tun_error option \<times> device \<times> 'w" where
  "tun_WritePacket drv d w b =
    (if length b = 0 \<or> length b > MTU then (Some InvalidPacketSize, d, w)
     else case drv_write drv [replicate packetOffset 0 @ b] packetOffset w of
            ((n, Some e), w') \<Rightarrow> (Some (WriteError (d_name d) e), d, w')
          | ((n, None), w') \<Rightarrow> (None, d, w'))"

definition tun_Close :: "'w tun_driver \<Rightarrow> device \<Rightarrow> 'w \<Rightarrow> string option \<times> device \<times> 'w" where
  "tun_Close drv d w =
    (if d_closed d then (d_close_err d, d, w)
     else case drv_close drv w of (e, w') \<Rightarrow> (e, d\<lparr>d_closed := True, d_close_err := e\<rparr>, w'))"

lemma tun_Close_once:
  assumes "tun_Close drv d w = (e, d', w')"
  shows "tun_Close drv d' v = (e, d', v)"
  using assms by (auto simp: tun_Close_def split: if_splits prod.splits)

subsection \<open>The packet interface\<close>

lemma collect_sized: "collect is bt = Some ps \<Longrightarrow> list_all sized ps"
  by (induction "is" bt arbitrary: ps rule: collect.induct)
    (auto simp: sized_def split: if_splits)

lemma fill_sized: "fill drv d w = Some (e, d', w') \<Longrightarrow> list_all sized (d_pending d) \<Longrightarrow> list_all sized (d_pending d')"
  by (auto simp: fill_def collect_sized split: option.splits prod.splits)

text \<open>The loop with at most \<open>k\<close> batches.\<close>

fun pull :: "'w tun_driver \<Rightarrow> nat \<Rightarrow> device \<Rightarrow> 'w \<Rightarrow> ((tun_error + packet) \<times> device \<times> 'w) option" where
  "pull drv k d w =
    (case d_pending d of
       b # bs \<Rightarrow> Some (Inr b, d\<lparr>d_pending := bs\<rparr>, w)
     | [] \<Rightarrow> (case k of 0 \<Rightarrow> None
         | Suc k' \<Rightarrow> (case fill drv d w of
             None \<Rightarrow> None
           | Some (Some x, d', w') \<Rightarrow> Some (Inl x, d', w')
           | Some (None, d', w') \<Rightarrow> pull drv k' d' w')))"

declare pull.simps [simp del]

lemma pull_reads: "pull drv k d w = Some r \<Longrightarrow> tun_ReadPacket drv d w = Some r"
proof (induction k arbitrary: d w)
  case 0
  then show ?case by (subst tun_ReadPacket.simps) (auto simp: pull.simps [of drv 0] split: list.splits)
next
  case (Suc k)
  then show ?case
    by (subst tun_ReadPacket.simps)
      (auto simp: pull.simps [of drv "Suc k"] split: list.splits option.splits)
qed

lemma reads_pull:
  assumes "tun_ReadPacket drv d w = Some r"
  shows "\<exists>k. pull drv k d w = Some r"
proof (rule tun_ReadPacket.raw_induct [where P = "\<lambda>drv d w r. \<exists>k. pull drv k d w = Some r", OF _ assms])
  fix rec :: "'a tun_driver \<Rightarrow> device \<Rightarrow> 'a \<Rightarrow> ((tun_error + packet) \<times> device \<times> 'a) option"
    and drv d w r
  assume rec: "\<And>drv d w r. rec drv d w = Some r \<Longrightarrow> \<exists>k. pull drv k d w = Some r"
    and r: "(case d_pending d of
      [] \<Rightarrow> Option.bind (fill drv d w) (\<lambda>(e, d', w').
        case e of None \<Rightarrow> rec drv d' w' | Some x \<Rightarrow> Some (Inl x, d', w'))
      | b # bs \<Rightarrow> Some (Inr b, d\<lparr>d_pending := bs\<rparr>, w)) = Some r"
  show "\<exists>k. pull drv k d w = Some r"
  proof (cases "d_pending d")
    case (Cons b bs)
    with r show ?thesis by (intro exI [of _ 0]) (simp add: pull.simps [of drv 0])
  next
    case Nil
    with r obtain e d' w' where f: "fill drv d w = Some (e, d', w')"
      by (cases "fill drv d w") auto
    show ?thesis
    proof (cases e)
      case (Some x)
      with r Nil f show ?thesis by (intro exI [of _ "Suc 0"]) (simp add: pull.simps [of drv "Suc 0"])
    next
      case None
      with r Nil f have "rec drv d' w' = Some r" by simp
      with rec obtain k where "pull drv k d' w' = Some r" by blast
      with Nil f None show ?thesis by (intro exI [of _ "Suc k"]) (simp add: pull.simps [of drv "Suc k"])
    qed
  qed
qed

lemma read_sized:
  assumes "tun_ReadPacket drv d w = Some (r, d', w')" and "list_all sized (d_pending d)"
  shows "list_all sized (d_pending d') \<and> (\<forall>b. r = Inr b \<longrightarrow> sized b)"
proof -
  obtain k where "pull drv k d w = Some (r, d', w')" using reads_pull [OF assms(1)] by blast
  then show ?thesis using assms(2)
  proof (induction k arbitrary: d w)
    case 0
    then show ?case by (auto simp: pull.simps [of drv 0] split: list.splits)
  next
    case (Suc k)
    then show ?case
      by (auto simp: pull.simps [of drv "Suc k"] dest: fill_sized split: list.splits option.splits)
  qed
qed

lemma write_keeps: "tun_WritePacket drv d w b = (e, d', w') \<Longrightarrow> d' = d"
  by (auto simp: tun_WritePacket_def split: if_splits prod.splits option.splits)

interpretation tun_packets:
  packet_conn "\<lambda>drv (d, w). tun_ReadPacket drv d w" "\<lambda>drv (d, w). tun_WritePacket drv d w"
    "\<lambda>(d, w). list_all sized (d_pending d)"
proof
  fix drv :: "'a tun_driver" and s s' :: "device \<times> 'a" and r b
  obtain d w d' w' where s: "s = (d, w)" "s' = (d', w')" by (cases s, cases s')
  show "case s' of (d, w) \<Rightarrow> list_all sized (d_pending d)"
    if "case s of (d, w) \<Rightarrow> list_all sized (d_pending d)" "(case s of (d, w) \<Rightarrow> tun_ReadPacket drv d w) = Some (r, s')"
    using that read_sized [of drv d w r d' w'] s by simp
  show "sized b"
    if "case s of (d, w) \<Rightarrow> list_all sized (d_pending d)" "(case s of (d, w) \<Rightarrow> tun_ReadPacket drv d w) = Some (Inr b, s')"
    using that read_sized [of drv d w "Inr b" d' w'] s by simp
  show "case snd ((case s of (d, w) \<Rightarrow> tun_WritePacket drv d w) b) of (d, w) \<Rightarrow> list_all sized (d_pending d)"
    if "case s of (d, w) \<Rightarrow> list_all sized (d_pending d)"
    using that s write_keeps [of drv d w b] by (cases "tun_WritePacket drv d w b") auto
  show "\<exists>e. (case s of (d, w) \<Rightarrow> tun_WritePacket drv d w) b = (Some e, s)" if "\<not> sized b"
    using that s by (auto simp: tun_WritePacket_def sized_alt)
qed

subsection \<open>The packets of a driver\<close>

text \<open>What the driver documents for a read: it keeps the buffers' lengths, reports at most as many
  packets as there are buffers, and every one lies within its buffer.\<close>

definition well_behaved :: "'w tun_driver \<Rightarrow> bool" where
  "well_behaved drv \<longleftrightarrow> (\<forall>off bufs sizes w n e bufs' sizes' w'.
    drv_read drv off (bufs, sizes) w = Some ((n, e), (bufs', sizes'), w') \<longrightarrow>
    length sizes = length bufs \<longrightarrow>
    map length bufs' = map length bufs \<and> length sizes' = length sizes \<and>
    (e = None \<longrightarrow> 0 \<le> n \<and> n \<le> int (length bufs) \<and>
      (\<forall>i < nat n. 0 \<le> sizes' ! i \<and> off + nat (sizes' ! i) \<le> length (bufs' ! i))))"

text \<open>The packets in a batch, of any size, and the batches a driver supplies before it fails.\<close>

fun raw_packets :: "nat \<Rightarrow> batch \<Rightarrow> packet list" where
  "raw_packets n (bufs, sizes) = map (\<lambda>i. take (nat (sizes ! i)) (drop packetOffset (bufs ! i))) [0..<n]"

inductive supplies :: "'w tun_driver \<Rightarrow> batch \<Rightarrow> 'w \<Rightarrow> packet list list \<Rightarrow> string \<Rightarrow> bool"
  for drv :: "'w tun_driver" where
  stops: "drv_read drv packetOffset bt w = Some ((n, Some e), bt', w') \<Longrightarrow> supplies drv bt w [] e"
| gives: "drv_read drv packetOffset bt w = Some ((n, None), bt', w') \<Longrightarrow> supplies drv bt' w' raws e \<Longrightarrow>
    supplies drv bt w (raw_packets (nat n) bt' # raws) e"

text \<open>Calls of \<open>ReadPacket\<close> until the first error, at most \<open>n\<close>; \<open>None\<close> when one does not return.\<close>

fun read_packets :: "'w tun_driver \<Rightarrow> nat \<Rightarrow> device \<Rightarrow> 'w \<Rightarrow> (tun_error + packet) list option" where
  "read_packets drv 0 d w = Some []"
| "read_packets drv (Suc n) d w =
     (case tun_ReadPacket drv d w of
        None \<Rightarrow> None
      | Some (Inl e, d', w') \<Rightarrow> Some [Inl e]
      | Some (Inr b, d', w') \<Rightarrow> map_option (Cons (Inr b)) (read_packets drv n d' w'))"

lemma collect_raw:
  assumes "\<forall>i \<in> set is. i < length sizes \<and> i < length bufs \<and> 0 \<le> sizes ! i \<and>
    packetOffset + nat (sizes ! i) \<le> length (bufs ! i)"
  shows "collect is (bufs, sizes) =
    Some (filter sized (map (\<lambda>i. take (nat (sizes ! i)) (drop packetOffset (bufs ! i))) is))"
  using assms
proof (induction "is")
  case (Cons i "is")
  then have "length (take (nat (sizes ! i)) (drop packetOffset (bufs ! i))) = nat (sizes ! i)" by (auto simp: min_def)
  moreover have "sized b \<longleftrightarrow> \<not> (int (length b) < 1 \<or> int (length b) > int MTU)" for b
    by (cases b) (auto simp: sized_def)
  ultimately show ?case using Cons by auto
qed simp

lemma read_pending:
  "d_pending d = b # bs \<Longrightarrow> tun_ReadPacket drv d w = Some (Inr b, d\<lparr>d_pending := bs\<rparr>, w)"
  by (subst tun_ReadPacket.simps) simp

lemma read_packets_pending:
  "read_packets drv (length (d_pending d) + n) d w =
    map_option ((@) (map Inr (d_pending d))) (read_packets drv n (d\<lparr>d_pending := []\<rparr>) w)"
proof (induction "d_pending d" arbitrary: d)
  case Nil
  then have e: "d\<lparr>d_pending := []\<rparr> = d" by simp
  show ?case unfolding e by (simp add: Nil [symmetric] option.map_ident_strong)
next
  case (Cons b bs)
  have "read_packets drv (length bs + n) (d\<lparr>d_pending := bs\<rparr>) w =
      map_option ((@) (map Inr bs)) (read_packets drv n (d\<lparr>d_pending := []\<rparr>) w)"
    using Cons.hyps(1) [of "d\<lparr>d_pending := bs\<rparr>"] by simp
  moreover have "(@) (Inr b # ys) = (\<lambda>x. Inr b # ys @ x)" for ys :: "(tun_error + packet) list"
    by (simp add: fun_eq_iff)
  ultimately show ?case
    using read_pending [OF Cons.hyps(2) [symmetric], of drv w] Cons.hyps(2) [symmetric]
    by (simp add: option.map_comp comp_def)
qed

subsection \<open>Properties\<close>

lemma fill_stops:
  "drv_read drv packetOffset (d_batch d) w = Some ((n, Some e), bt, w') \<Longrightarrow>
    fill drv d w = Some (Some (ReadError (d_name d) e), d\<lparr>d_batch := bt\<rparr>, w')"
  by (simp add: fill_def)

definition even_batch :: "batch \<Rightarrow> bool" where
  "even_batch bt \<longleftrightarrow> length (snd bt) = length (fst bt)"

lemma fill_gives:
  assumes "well_behaved drv" and "drv_read drv packetOffset (d_batch d) w = Some ((n, None), bt, w')"
    and "even_batch (d_batch d)"
  shows "fill drv d w = Some (None, d\<lparr>d_batch := bt, d_pending := d_pending d @ filter sized (raw_packets (nat n) bt)\<rparr>, w')
    \<and> even_batch bt"
proof -
  obtain bufs sizes bufs' sizes' where b: "d_batch d = (bufs, sizes)" "bt = (bufs', sizes')"
    by (cases "d_batch d"; cases bt)
  with assms have w: "map length bufs' = map length bufs" "length sizes' = length sizes" "length sizes = length bufs"
      "0 \<le> n" "n \<le> int (length bufs)"
      "\<forall>i < nat n. 0 \<le> sizes' ! i \<and> packetOffset + nat (sizes' ! i) \<le> length (bufs' ! i)"
    unfolding well_behaved_def even_batch_def by (metis fst_conv snd_conv)+
  then have l: "length bufs' = length bufs" by (metis length_map)
  have "i < length bufs" if "i < nat n" for i using that w(4,5) by linarith
  with l w have "collect [0..<nat n] (bufs', sizes') = Some (filter sized (raw_packets (nat n) (bufs', sizes')))"
    using collect_raw [of "[0..<nat n]" sizes' bufs'] by auto
  with assms(2) b l w(2,3) show ?thesis by (simp add: fill_def even_batch_def)
qed

lemma read_empty:
  "d_pending d = [] \<Longrightarrow> fill drv d w = Some (None, d', w') \<Longrightarrow> tun_ReadPacket drv d w = tun_ReadPacket drv d' w'"
  "d_pending d = [] \<Longrightarrow> fill drv d w = Some (Some x, d', w') \<Longrightarrow> tun_ReadPacket drv d w = Some (Inl x, d', w')"
  by (subst tun_ReadPacket.simps, simp)+

lemma read_packets_cong:
  "tun_ReadPacket drv d w = tun_ReadPacket drv d' w' \<Longrightarrow> read_packets drv (Suc n) d w = read_packets drv (Suc n) d' w'"
  by simp

lemma read_packets_supply:
  assumes "supplies drv bt w raws e" and "well_behaved drv" and "d_pending d = []" and "d_batch d = bt" and "even_batch bt"
  shows "read_packets drv (Suc (length (filter sized (concat raws)))) d w =
    Some (map Inr (filter sized (concat raws)) @ [Inl (ReadError (d_name d) e)])"
  using assms
proof (induction arbitrary: d)
  case (stops bt w n e bt' w')
  then show ?case by (simp add: read_empty(2) [OF _ fill_stops])
next
  case (gives bt w n bt' w' raws e)
  let ?ps = "filter sized (raw_packets (nat n) bt')" and ?qs = "filter sized (concat raws)"
  let ?d = "d\<lparr>d_batch := bt', d_pending := ?ps\<rparr>"
  have f: "fill drv d w = Some (None, ?d, w')" and ev: "even_batch bt'"
    using fill_gives [OF gives.prems(1), of d w n bt' w'] gives.hyps(1) gives.prems by auto
  have rest: "read_packets drv (Suc (length ?qs)) (?d\<lparr>d_pending := []\<rparr>) w' =
      Some (map Inr ?qs @ [Inl (ReadError (d_name d) e)])"
    using gives.IH [OF gives.prems(1) _ _ ev, of "?d\<lparr>d_pending := []\<rparr>"] by simp
  have "read_packets drv (Suc (length (?ps @ ?qs))) d w = read_packets drv (Suc (length (?ps @ ?qs))) ?d w'"
    by (rule read_packets_cong [OF read_empty(1) [OF gives.prems(2) f]])
  also have "\<dots> = Some (map Inr (?ps @ ?qs) @ [Inl (ReadError (d_name d) e)])"
    using read_packets_pending [of drv ?d "Suc (length ?qs)" w'] rest by simp
  finally show ?case by simp
qed

text \<open>C26: Reading a TUN device is filtering its packets. Whatever batches a driver that keeps its
  contract supplies before it fails, successive calls of \<open>ReadPacket\<close> return exactly the packets of
  legal size, unchanged, in order, each once, and then the driver's error; every call returns, and
  none panics.\<close>

theorem tun_reads_filter:
  assumes "well_behaved drv" and "supplies drv (d_batch d) w raws e" and "d_pending d = []"
    and "length (snd (d_batch d)) = length (fst (d_batch d))"
  shows "read_packets drv (Suc (length (filter sized (concat raws)))) d w =
    Some (map Inr (filter sized (concat raws)) @ [Inl (ReadError (d_name d) e)])"
  using read_packets_supply [OF assms(2,1,3) refl] assms(4) by (simp add: even_batch_def)

text \<open>Termination of the read loop. \<open>ReadPacket\<close> returns a result exactly when some number of
  batches suffices for it, and then with that result; with a packet pending it needs none. It is
  deterministic, so it runs for ever, or blocks, exactly when no number suffices.\<close>

theorem tun_read_terminates:
  "tun_ReadPacket drv d w = Some r \<longleftrightarrow> (\<exists>k. pull drv k d w = Some r)"
  by (rule iffI) (erule reads_pull, erule exE, erule pull_reads)

text \<open>A driver whose world is the list of batches still to come; it puts packet \<open>i\<close> of a batch into
  buffer \<open>i\<close>, behind the headroom.\<close>

definition put_packet :: "nat \<Rightarrow> byte list \<Rightarrow> packet \<Rightarrow> byte list" where
  "put_packet off buf b = take (length buf) (take off buf @ b @ drop (off + length b) buf)"

definition list_driver :: "(packet list list) tun_driver" where
  "list_driver = \<lparr>drv_create = (\<lambda>name mtu w. (None, w)), drv_name = (\<lambda>w. (Inr ''utun9'', w)), drv_batch = (\<lambda>w. 2),
    drv_read = (\<lambda>off (bufs, sizes) w. case w of
        [] \<Rightarrow> Some ((0, Some ''closed''), (bufs, sizes), [])
      | ps # w' \<Rightarrow>
          if length ps \<le> length bufs \<and> (\<forall>i \<in> {..<length ps}. off + length (ps ! i) \<le> length (bufs ! i))
          then Some ((int (length ps), None),
            (map (\<lambda>i. if i < length ps then put_packet off (bufs ! i) (ps ! i) else bufs ! i) [0..<length bufs],
             map (\<lambda>i. if i < length ps then int (length (ps ! i)) else sizes ! i) [0..<length sizes]), w')
          else Some ((0, Some ''too large''), (bufs, sizes), w')),
    drv_write = (\<lambda>bufs off w. ((0, None), w)), drv_close = (\<lambda>w. (None, w))\<rparr>"

lemma length_put_packet: "length (put_packet off buf b) = length buf"
  by (simp add: put_packet_def)

lemma list_driver_behaves: "well_behaved list_driver"
  unfolding well_behaved_def
proof (intro allI impI)
  fix off bufs sizes w n e bufs' sizes' w'
  assume r: "drv_read list_driver off (bufs, sizes) w = Some ((n, e), (bufs', sizes'), w')"
    and l: "length sizes = length bufs"
  show "map length bufs' = map length bufs \<and> length sizes' = length sizes \<and>
    (e = None \<longrightarrow> 0 \<le> n \<and> n \<le> int (length bufs) \<and>
      (\<forall>i < nat n. 0 \<le> sizes' ! i \<and> off + nat (sizes' ! i) \<le> length (bufs' ! i)))"
    using r l by (auto simp: list_driver_def length_put_packet intro!: nth_equalityI split: list.splits if_splits)
qed

lemma put_packet_content:
  "off + length b \<le> length buf \<Longrightarrow> take (length b) (drop off (put_packet off buf b)) = b"
  by (simp add: put_packet_def)

text \<open>Buffers that all have \<open>L\<close> bytes.\<close>

definition buffers :: "nat \<Rightarrow> nat \<Rightarrow> batch \<Rightarrow> bool" where
  "buffers k L bt \<longleftrightarrow> length (snd bt) = k \<and> map length (fst bt) = replicate k L"

lemma list_driver_gives:
  assumes "buffers k L bt" and "length ps \<le> k" and "\<forall>b \<in> set ps. packetOffset + length b \<le> L"
  shows "\<exists>bt'. drv_read list_driver packetOffset bt (ps # w) = Some ((int (length ps), None), bt', w) \<and>
    raw_packets (length ps) bt' = ps \<and> buffers k L bt'"
proof -
  obtain bufs sizes where bt: "bt = (bufs, sizes)" by (cases bt)
  have len: "length bufs = k" "length sizes = k" "\<And>i. i < k \<Longrightarrow> length (bufs ! i) = L"
    using assms(1) unfolding bt buffers_def fst_conv snd_conv
    by (metis length_map length_replicate, simp, metis length_map length_replicate nth_map nth_replicate)
  have fits: "packetOffset + length (ps ! i) \<le> length (bufs ! i)" if "i < length ps" for i
    using that assms(2,3) len(3) [of i] by simp
  let ?bt = "(map (\<lambda>i. if i < length ps then put_packet packetOffset (bufs ! i) (ps ! i) else bufs ! i) [0..<length bufs],
    map (\<lambda>i. if i < length ps then int (length (ps ! i)) else sizes ! i) [0..<length sizes])"
  have "drv_read list_driver packetOffset bt (ps # w) = Some ((int (length ps), None), ?bt, w)"
    using assms(2) len(1) fits by (simp add: list_driver_def bt)
  moreover have "raw_packets (length ps) ?bt = ps"
    using assms(2) len fits by (auto intro!: nth_equalityI simp: put_packet_content)
  moreover have "buffers k L ?bt"
    using len by (auto simp: buffers_def length_put_packet intro!: nth_equalityI)
  ultimately show ?thesis by blast
qed

lemma list_driver_ends: "drv_read list_driver packetOffset bt [] = Some ((0, Some ''closed''), bt, [])"
  by (simp add: list_driver_def split_beta)

theorem tun_reads_filter_witness:
  "\<exists>d w. tun_Open list_driver ''darwin'' [] [[[1, 2], []], [[3]]] = (Inr d, w) \<and>
    read_packets list_driver 3 d w = Some [Inr [1, 2], Inr [3], Inl (ReadError ''utun9'' ''closed'')]"
proof -
  let ?L = "65535 + packetOffset"
  obtain d where o: "tun_Open list_driver ''darwin'' [] [[[1, 2], []], [[3]]] = (Inr d, [[[1, 2], []], [[3]]])"
    and d: "d_name d = ''utun9''" "d_pending d = []" "d_batch d = (replicate 2 (replicate ?L 0), replicate 2 0)"
    by (simp add: tun_Open_def list_driver_def)
  have b: "buffers 2 ?L (d_batch d)" by (simp add: d buffers_def)
  let ?ps = "[[1, 2], []] :: packet list" and ?qs = "[[3]] :: packet list"
  have ps: "length ?ps \<le> 2" "\<forall>x \<in> set ?ps. packetOffset + length x \<le> ?L"
    and qs: "length ?qs \<le> 2" "\<forall>x \<in> set ?qs. packetOffset + length x \<le> ?L" by simp_all
  obtain bt1 where r1: "drv_read list_driver packetOffset (d_batch d) [?ps, ?qs] = Some ((int (length ?ps), None), bt1, [?qs])"
    "raw_packets (length ?ps) bt1 = ?ps" "buffers 2 ?L bt1"
    using list_driver_gives [OF b ps] by blast
  obtain bt2 where r2: "drv_read list_driver packetOffset bt1 [?qs] = Some ((int (length ?qs), None), bt2, [])"
    "raw_packets (length ?qs) bt2 = ?qs"
    using list_driver_gives [OF r1(3) qs] by blast
  have "supplies list_driver (d_batch d) [?ps, ?qs] [?ps, ?qs] ''closed''"
    using supplies.gives [OF r1(1) supplies.gives [OF r2(1) supplies.stops [OF list_driver_ends]]]
    by (simp only: nat_int r1(2) r2(2))
  from tun_reads_filter [OF list_driver_behaves this d(2)] o d show ?thesis
    by (auto simp: sized_def MTU_def numeral_3_eq_3)
qed

end
