(* ===== verification/Session.thy ===== *)
theory Session
  imports Setup Tun Transport
begin

text \<open>
  \<open>cmd/tunnel-lab/main.go\<close>: one tunnel session with its deferred cleanup (\<open>runTUN\<close>), the
  client's reconnect loop, the server's handler, and the checks of \<open>run\<close>. All calls act on one
  world \<open>'w\<close>: the system of the network setup, the TUN driver, the link, the probe and the bridge are
  parameters. Logging is left out; the self-tests are in \<open>SelfTest\<close>.
\<close>

subsection \<open>Sessions\<close>

text \<open>A packet connection as \<open>runTUN\<close> sees it; \<open>lk_underlay\<close> is \<open>None\<close> when it has no method
  \<open>UnderlayIPs\<close>.\<close>

record 'w link =
  lk_close :: "'w \<Rightarrow> 'w"
  lk_underlay :: "string list option"

text \<open>The bridge: its error, the device and the world after it.\<close>

type_synonym 'w bridging = "device \<Rightarrow> addr list \<Rightarrow> 'w \<Rightarrow> net_error option \<times> device \<times> 'w"

datatype outcome = Finished "net_error option" | Crashed

definition tun_failure :: "tun_error \<Rightarrow> net_error" where
  "tun_failure e = (case e of DriverError s \<Rightarrow> NetError s | _ \<Rightarrow> NetError ''TUN supported on macOS and Linux'')"

text \<open>\<open>errors.Join(result, err)\<close>.\<close>

definition join_error :: "net_error option \<Rightarrow> net_error \<Rightarrow> net_error" where
  "join_error r e = (case r of None \<Rightarrow> Wrapped [] e | Some x \<Rightarrow> Joined x e)"

fun add_error :: "outcome \<Rightarrow> net_error option \<Rightarrow> outcome" where
  "add_error (Finished r) None = Finished r"
| "add_error (Finished r) (Some e) = Finished (Some (join_error r e))"
| "add_error Crashed e = Crashed"

text \<open>The deferred calls.\<close>

definition defer_device :: "'w tun_driver \<Rightarrow> device \<Rightarrow> outcome \<times> 'w \<Rightarrow> outcome \<times> 'w" where
  "defer_device drv d = (\<lambda>(r, w).
    case tun_Close drv d w of (e, d', w') \<Rightarrow>
      (add_error r (map_option (\<lambda>s. CleanupError [''close TUN '' @ d_name d @ '': '' @ s]) e), w'))"

definition defer_manager :: "'w os \<Rightarrow> manager \<Rightarrow> outcome \<times> 'w \<Rightarrow> outcome \<times> 'w" where
  "defer_manager os m = (\<lambda>(r, w). case Close os m w of (e, m', w') \<Rightarrow> (add_error r e, w'))"

definition defer_link :: "'w link \<Rightarrow> outcome \<times> 'w \<Rightarrow> outcome \<times> 'w" where
  "defer_link p = (\<lambda>(r, w). (r, lk_close p w))"

text \<open>The addresses a client of the server may send from; \<open>None\<close> when \<open>MustParseAddr\<close> panics.\<close>

definition allowed_sources :: "config \<Rightarrow> addr list option" where
  "allowed_sources c =
    (if c_role c \<noteq> ''server'' then Some []
     else case parseAddr (n_peer4 (c_network c)) of
       None \<Rightarrow> None
     | Some a4 \<Rightarrow>
         if n_peer6 (c_network c) = [] then Some [a4]
         else case parseAddr (n_peer6 (c_network c)) of None \<Rightarrow> None | Some a6 \<Rightarrow> Some [a4, a6])"

text \<open>The body, after \<open>defer p.Close()\<close>.\<close>

definition tun_body ::
    "'w os \<Rightarrow> 'w tun_driver \<Rightarrow> 'w bridging \<Rightarrow> string \<Rightarrow> config \<Rightarrow> 'w link \<Rightarrow> 'w \<Rightarrow> outcome \<times> 'w" where
  "tun_body os drv bridge goos c p w =
    (case ctx_err os w of
       Some e \<Rightarrow> (Finished (Some (ContextErr e)), w)
     | None \<Rightarrow>
         (case tun_Open drv goos (c_tun c) w of
            (Inl e, w1) \<Rightarrow> (Finished (Some (Wrapped ''create TUN (root required)'' (tun_failure e))), w1)
          | (Inr d, w1) \<Rightarrow>
              (let ips = (case lk_underlay p of None \<Rightarrow> [] | Some ips \<Rightarrow> ips)
               in case Setup os goos c (d_name d) ips w1 of
                    (Inl e, w2) \<Rightarrow> defer_device drv d (Finished (Some e), w2)
                  | (Inr m, w2) \<Rightarrow>
                      (case allowed_sources c of
                         None \<Rightarrow> defer_device drv d (defer_manager os m (Crashed, w2))
                       | Some allowed \<Rightarrow>
                           (case bridge d allowed w2 of (e, d', w3) \<Rightarrow>
                              defer_device drv d' (defer_manager os m (Finished e, w3)))))))"

definition runTUN ::
    "'w os \<Rightarrow> 'w tun_driver \<Rightarrow> 'w bridging \<Rightarrow> string \<Rightarrow> config \<Rightarrow> 'w link \<Rightarrow> 'w \<Rightarrow> outcome \<times> 'w" where
  "runTUN os drv bridge goos c p w = defer_link p (tun_body os drv bridge goos c p w)"

subsection \<open>The client's loop\<close>

text \<open>What \<open>run\<close> calls besides \<open>runTUN\<close>: dialling, the probe, and the wait of three seconds, true
  when the context was done first.\<close>

record 'w caller =
  cl_dial :: "'w \<Rightarrow> (net_error + 'w link) \<times> 'w"
  cl_probe :: "'w link \<Rightarrow> 'w \<Rightarrow> net_error option \<times> 'w"
  cl_wait :: "'w \<Rightarrow> bool \<times> 'w"

text \<open>One round of the loop: the result of \<open>run\<close>, or the world in which the next round starts.\<close>

definition ended ::
    "'w os \<Rightarrow> 'w caller \<Rightarrow> bool \<Rightarrow> string \<Rightarrow> net_error option \<Rightarrow> 'w \<Rightarrow> (outcome \<times> 'w) + 'w" where
  "ended os cl reconnect mode e w =
    (if e \<noteq> None \<and> CleanupFailed (the e) then Inl (Finished e, w)
     else if ctx_err os w \<noteq> None then Inl (Finished None, w)
     else if \<not> reconnect \<or> mode \<noteq> ''tun'' then Inl (Finished e, w)
     else case cl_wait cl w of (True, w') \<Rightarrow> Inl (Finished None, w') | (False, w') \<Rightarrow> Inr w')"

definition client_round ::
    "'w os \<Rightarrow> 'w tun_driver \<Rightarrow> 'w bridging \<Rightarrow> 'w caller \<Rightarrow> string \<Rightarrow> config \<Rightarrow> bool \<Rightarrow> string \<Rightarrow> 'w \<Rightarrow>
      (outcome \<times> 'w) + 'w" where
  "client_round os drv bridge cl goos c reconnect mode w =
    (case cl_dial cl w of
       (Inl e, w1) \<Rightarrow> ended os cl reconnect mode (Some e) w1
     | (Inr p, w1) \<Rightarrow>
         if mode = ''probe'' then
           (case cl_probe cl p w1 of (e, w2) \<Rightarrow>
              let w3 = lk_close p w2
              in Inl (Finished (if ctx_err os w3 \<noteq> None then None else e), w3))
         else
           (case runTUN os drv bridge goos c p w1 of
              (Crashed, w2) \<Rightarrow> Inl (Crashed, w2)
            | (Finished e, w2) \<Rightarrow> ended os cl reconnect mode e (lk_close p w2)))"

partial_function (option) client_loop ::
    "'w os \<Rightarrow> 'w tun_driver \<Rightarrow> 'w bridging \<Rightarrow> 'w caller \<Rightarrow> string \<Rightarrow> config \<Rightarrow> bool \<Rightarrow> string \<Rightarrow> 'w \<Rightarrow>
      (outcome \<times> 'w) option" where
  "client_loop os drv bridge cl goos c reconnect mode w =
    (case client_round os drv bridge cl goos c reconnect mode w of
       Inl r \<Rightarrow> Some r
     | Inr w' \<Rightarrow> client_loop os drv bridge cl goos c reconnect mode w')"

text \<open>The server's handler: its error, and whether it kept it as \<open>cleanupErr\<close> and cancelled.\<close>

definition server_session ::
    "'w os \<Rightarrow> 'w tun_driver \<Rightarrow> 'w bridging \<Rightarrow> string \<Rightarrow> config \<Rightarrow> 'w link \<Rightarrow> 'w \<Rightarrow>
      (outcome \<times> net_error option) \<times> 'w" where
  "server_session os drv bridge goos c p w =
    (case runTUN os drv bridge goos c p w of
       (Crashed, w') \<Rightarrow> ((Crashed, None), w')
     | (Finished None, w') \<Rightarrow> ((Finished None, None), w')
     | (Finished (Some e), w') \<Rightarrow>
         ((Finished (Some e), if CleanupFailed e then Some e else None), w'))"

text \<open>\<open>errors.Join(err, cleanupErr)\<close>.\<close>

definition server_result :: "net_error option \<Rightarrow> net_error option \<Rightarrow> net_error option" where
  "server_result err cleanup =
    (case (err, cleanup) of (None, None) \<Rightarrow> None | (Some e, None) \<Rightarrow> Some (Wrapped [] e)
      | (r, Some e) \<Rightarrow> Some (join_error r e))"

text \<open>The handler of a server in TUN mode: it keeps \<open>cleanupErr\<close> and cancels the context.\<close>

definition server_handler ::
    "'w os \<Rightarrow> 'w tun_driver \<Rightarrow> 'w bridging \<Rightarrow> ('w \<Rightarrow> 'w) \<Rightarrow> string \<Rightarrow> config \<Rightarrow> 'w link \<Rightarrow> net_error option \<Rightarrow> 'w \<Rightarrow>
      (outcome \<times> net_error option) \<times> 'w" where
  "server_handler os drv bridge cancel goos c p cleanup w =
    (case server_session os drv bridge goos c p w of
       ((r, None), w') \<Rightarrow> ((r, cleanup), w')
     | ((r, Some e), w') \<Rightarrow> ((r, Some e), cancel w'))"

text \<open>The sessions \<open>Serve\<close> runs, one after the other, since its gate lets one connection in at a time:
  \<open>None\<close> when one panics, otherwise \<open>cleanupErr\<close> at the end.\<close>

fun server_sessions ::
    "'w os \<Rightarrow> 'w tun_driver \<Rightarrow> 'w bridging \<Rightarrow> ('w \<Rightarrow> 'w) \<Rightarrow> string \<Rightarrow> config \<Rightarrow> 'w link list \<Rightarrow> net_error option \<Rightarrow> 'w \<Rightarrow>
      (net_error option \<times> 'w) option" where
  "server_sessions os drv bridge cancel goos c [] cleanup w = Some (cleanup, w)"
| "server_sessions os drv bridge cancel goos c (p # ps) cleanup w =
     (case server_handler os drv bridge cancel goos c p cleanup w of
        ((Crashed, cleanup'), w') \<Rightarrow> None
      | ((Finished e, cleanup'), w') \<Rightarrow> server_sessions os drv bridge cancel goos c ps cleanup' w')"

subsection \<open>The checks of run\<close>

datatype run_error = NoConfig | LoadFailed | InvalidMode | BadProbe

text \<open>The flags, parsed.\<close>

record run_flags =
  fl_config :: string
  fl_mode :: string
  fl_count :: int
  fl_size :: int
  fl_reconnect :: bool

definition invalid_mode :: "string \<Rightarrow> config \<Rightarrow> bool" where
  "invalid_mode mode c \<longleftrightarrow>
    (mode \<noteq> ''tun'' \<and> mode \<noteq> ''echo'' \<and> mode \<noteq> ''probe'') \<or>
    (mode = ''echo'' \<and> c_role c \<noteq> ''server'') \<or> (mode = ''probe'' \<and> c_role c \<noteq> ''client'')"

text \<open>\<open>load\<close> is \<open>config.Load\<close>.\<close>

definition run_checks :: "(string \<Rightarrow> config option) \<Rightarrow> run_flags \<Rightarrow> run_error + config" where
  "run_checks load f =
    (if fl_config f = [] then Inl NoConfig
     else case load (fl_config f) of
       None \<Rightarrow> Inl LoadFailed
     | Some c \<Rightarrow>
         if invalid_mode (fl_mode f) c then Inl InvalidMode
         else if fl_count f < 1 \<or> fl_size f < 1 \<or> fl_size f > int MTU then Inl BadProbe
         else Inr c)"

subsection \<open>Cleanup\<close>

text \<open>\<open>obs\<close> is a view of the host's network configuration outside the tunnel interface: opening
  and closing the device, the link and the bridge leave it alone.\<close>

definition passive_driver :: "'w tun_driver \<Rightarrow> ('w \<Rightarrow> 'c) \<Rightarrow> bool" where
  "passive_driver drv obs \<longleftrightarrow> (\<forall>w name mtu. obs (snd (drv_create drv name mtu w)) = obs w) \<and>
    (\<forall>w. obs (snd (drv_name drv w)) = obs w) \<and> (\<forall>w. obs (snd (drv_close drv w)) = obs w)"

definition passive_link :: "'w link \<Rightarrow> ('w \<Rightarrow> 'c) \<Rightarrow> bool" where
  "passive_link p obs \<longleftrightarrow> (\<forall>w. obs (lk_close p w) = obs w)"

definition passive_bridge :: "'w bridging \<Rightarrow> ('w \<Rightarrow> 'c) \<Rightarrow> bool" where
  "passive_bridge bridge obs \<longleftrightarrow> (\<forall>d allowed w. obs (snd (snd (bridge d allowed w))) = obs w)"

text \<open>The system behaves as documented for the name the device gets.\<close>

definition trusted_tunnel :: "'w os \<Rightarrow> 'w tun_driver \<Rightarrow> string \<Rightarrow> config \<Rightarrow> ('w \<Rightarrow> 'c) \<Rightarrow> bool" where
  "trusted_tunnel os drv goos c obs \<longleftrightarrow>
    (\<forall>w d w'. tun_Open drv goos (c_tun c) w = (Inr d, w') \<longrightarrow> trusted os (d_name d) obs)"

definition clean :: "outcome \<Rightarrow> bool" where
  "clean r \<longleftrightarrow> (case r of Finished (Some e) \<Rightarrow> \<not> CleanupFailed e | _ \<Rightarrow> True)"

lemma clean_add: "clean (add_error r e) \<Longrightarrow> r \<noteq> Crashed \<Longrightarrow> clean r \<and> (\<forall>x. e = Some x \<longrightarrow> \<not> CleanupFailed x)"
  by (cases r; cases e) (auto simp: clean_def join_error_def split: option.splits)

lemma add_error_Crashed: "add_error r e = Crashed \<longleftrightarrow> r = Crashed"
  by (cases r; cases e) auto

lemma Close_cleanup: "Close os m w = (Some e, mw) \<Longrightarrow> CleanupFailed e"
  by (auto simp: Close_def split: prod.splits if_splits)

lemma open_passive:
  assumes "passive_driver drv obs" and "tun_Open drv goos name w = (r, w')"
  shows "obs w' = obs w"
proof -
  have e: "obs w2 = obs w1" if "drv_create drv nm mtu w1 = (x, w2)" for nm mtu w1 x w2
    using assms(1) that unfolding passive_driver_def by (metis snd_conv)
  have n: "obs w2 = obs w1" if "drv_name drv w1 = (x, w2)" for w1 x w2
    using assms(1) that unfolding passive_driver_def by (metis snd_conv)
  have "obs (snd (drv_close drv w1)) = obs w1" for w1 using assms(1) by (simp add: passive_driver_def)
  with assms(2) e n show ?thesis
    by (auto simp: tun_Open_def Let_def split: if_splits prod.splits option.splits sum.splits)
qed

lemma defer_device_clean:
  assumes "passive_driver drv obs" and "defer_device drv d (r, w) = (r', w')"
  shows "obs w' = obs w" and "clean r' \<Longrightarrow> r \<noteq> Crashed \<Longrightarrow> clean r" and "r' = Crashed \<longleftrightarrow> r = Crashed"
proof -
  obtain e d2 w2 where c: "tun_Close drv d w = (e, d2, w2)" by (metis prod.exhaust)
  then have "w2 = w \<or> w2 = snd (drv_close drv w)" by (auto simp: tun_Close_def split: if_splits prod.splits)
  with assms c show "obs w' = obs w" by (auto simp: defer_device_def passive_driver_def)
  from assms(2) c have r': "r' = add_error r (map_option (\<lambda>s. CleanupError [''close TUN '' @ d_name d @ '': '' @ s]) e)"
    by (simp add: defer_device_def)
  then show "clean r' \<Longrightarrow> r \<noteq> Crashed \<Longrightarrow> clean r" using clean_add by blast
  show "r' = Crashed \<longleftrightarrow> r = Crashed" by (simp add: r' add_error_Crashed)
qed

lemma defer_manager_clean:
  assumes "defer_manager os m (r, w) = (r', w')"
  shows "clean r' \<Longrightarrow> r \<noteq> Crashed \<Longrightarrow> \<exists>m'. Close os m w = (None, (m', w'))" and "r' = Crashed \<longleftrightarrow> r = Crashed"
proof -
  obtain e m2 w2 where c: "Close os m w = (e, (m2, w2))" by (metis prod.exhaust)
  with assms have r': "r' = add_error r e" "w' = w2" by (auto simp: defer_manager_def)
  then show "r' = Crashed \<longleftrightarrow> r = Crashed" by (simp add: add_error_Crashed)
  show "\<exists>m'. Close os m w = (None, (m', w'))" if "clean r'" "r \<noteq> Crashed"
    using clean_add [of r e] Close_cleanup [of os m w _ "(m2, w2)"] that c r' by (cases e) auto
qed

lemma runTUN_cleans:
  assumes "trusted_tunnel os drv goos c obs" and "passive_driver drv obs" and "passive_link p obs"
    and "passive_bridge bridge obs" and "runTUN os drv bridge goos c p w = (r, w')" and "clean r" and "r \<noteq> Crashed"
  shows "obs w' = obs w"
proof -
  obtain r0 w0 where body: "tun_body os drv bridge goos c p w = (r0, w0)" by (metis prod.exhaust)
  with assms(5) have w0: "w' = lk_close p w0" and "r0 = r" by (simp_all add: runTUN_def defer_link_def)
  with body have run: "tun_body os drv bridge goos c p w = (r, w0)" by simp
  note run = run [unfolded tun_body_def]
  have "obs w0 = obs w"
  proof (cases "ctx_err os w")
    case (Some e)
    with run show ?thesis by simp
  next
    case None
    obtain o1 w1 where o: "tun_Open drv goos (c_tun c) w = (o1, w1)" by (metis prod.exhaust)
    note o1 = open_passive [OF assms(2) o]
    show ?thesis
    proof (cases o1)
      case (Inl e)
      with run None o o1 show ?thesis by simp
    next
      case (Inr d)
      let ?ips = "case lk_underlay p of None \<Rightarrow> [] | Some ips \<Rightarrow> ips"
      obtain s w2 where s: "Setup os goos c (d_name d) ?ips w1 = (s, w2)" by (metis prod.exhaust)
      from assms(1) o Inr have tr: "trusted os (d_name d) obs" unfolding trusted_tunnel_def by blast
      note restored = setup_restored [OF tr s]
      show ?thesis
      proof (cases s)
        case e: (Inl e)
        with run None o Inr s have df: "defer_device drv d (Finished (Some e), w2) = (r, w0)" by simp
        from defer_device_clean [OF assms(2) df] assms(6) have "obs w0 = obs w2" "\<not> CleanupFailed e"
          by (simp_all add: clean_def)
        with restored e o1 show ?thesis by simp
      next
        case m: (Inr m)
        show ?thesis
        proof (cases "allowed_sources c")
          case no: None
          obtain r3 w4 where 4: "defer_manager os m (Crashed, w2) = (r3, w4)" by (metis prod.exhaust)
          with run None o Inr s m no have df: "defer_device drv d (r3, w4) = (r, w0)" by simp
          have "r = Crashed" using defer_device_clean(3) [OF assms(2) df] defer_manager_clean(2) [OF 4] by simp
          with assms(7) show ?thesis by simp
        next
          case (Some allowed)
          obtain e d' w3 where b: "bridge d allowed w2 = (e, d', w3)" by (metis prod.exhaust)
          obtain r3 w4 where 4: "defer_manager os m (Finished e, w3) = (r3, w4)" by (metis prod.exhaust)
          from run None o Inr s m Some b 4 have df: "defer_device drv d' (r3, w4) = (r, w0)" by simp
          have 3: "obs w3 = obs w2" using assms(4) b unfolding passive_bridge_def by (metis snd_conv)
          have "r3 \<noteq> Crashed" using defer_manager_clean(2) [OF 4] by simp
          with defer_device_clean(2) [OF assms(2) df assms(6)] have "clean r3" by simp
          then obtain m' where "Close os m w3 = (None, (m', w4))"
            using defer_manager_clean(1) [OF 4] by auto
          with conjunct2 [OF restored, rule_format, of m w3 m' w4] m 3 have "obs w4 = obs w1" by simp
          with defer_device_clean(1) [OF assms(2) df] o1 show ?thesis by simp
        qed
      qed
    qed
  qed
  with w0 assms(3) show ?thesis by (simp add: passive_link_def)
qed

lemma defers_Crashed:
  "fst (defer_device drv d x) = Crashed \<longleftrightarrow> fst x = Crashed" "fst (defer_manager os m x) = Crashed \<longleftrightarrow> fst x = Crashed"
  "fst (defer_link p x) = fst x"
  by (auto simp: defer_device_def defer_manager_def defer_link_def add_error_Crashed split: prod.splits)

lemma runTUN_crashes:
  "fst (runTUN os drv bridge goos c p w) = Crashed \<longleftrightarrow>
    ctx_err os w = None \<and> allowed_sources c = None \<and>
    (\<exists>d w1 m w2. tun_Open drv goos (c_tun c) w = (Inr d, w1) \<and>
      Setup os goos c (d_name d) (case lk_underlay p of None \<Rightarrow> [] | Some ips \<Rightarrow> ips) w1 = (Inr m, w2))"
  by (auto simp: runTUN_def tun_body_def defers_Crashed Let_def
      split: prod.splits option.splits sum.splits)

subsection \<open>The loop\<close>

definition passive_caller :: "'w caller \<Rightarrow> ('w \<Rightarrow> 'c) \<Rightarrow> bool" where
  "passive_caller cl obs \<longleftrightarrow> (\<forall>w. obs (snd (cl_dial cl w)) = obs w) \<and> (\<forall>w. obs (snd (cl_wait cl w)) = obs w) \<and>
    (\<forall>w p w'. cl_dial cl w = (Inr p, w') \<longrightarrow> passive_link p obs)"

text \<open>A result of the reconnecting client: it was asked to end and everything is restored, or a
  cleanup failed.\<close>

definition good_end :: "'w os \<Rightarrow> 'w caller \<Rightarrow> ('w \<Rightarrow> 'c) \<Rightarrow> 'c \<Rightarrow> outcome \<times> 'w \<Rightarrow> bool" where
  "good_end os cl obs a = (\<lambda>(r, w').
    (r = Finished None \<and> obs w' = a \<and> (ctx_err os w' \<noteq> None \<or> (\<exists>v. cl_wait cl v = (True, w')))) \<or>
    (\<exists>e. r = Finished (Some e) \<and> CleanupFailed e))"

lemma ended_good:
  assumes "passive_caller cl obs" and "e = None \<or> \<not> CleanupFailed (the e) \<Longrightarrow> obs w = a"
  shows "case ended os cl True ''tun'' e w of Inl y \<Rightarrow> good_end os cl obs a y | Inr w' \<Rightarrow> obs w' = a"
proof (cases "e \<noteq> None \<and> CleanupFailed (the e)")
  case True
  then show ?thesis by (auto simp: ended_def good_end_def)
next
  case False
  with assms(2) have a: "obs w = a" by blast
  obtain b w' where wt: "cl_wait cl w = (b, w')" by (metis prod.exhaust)
  then have "obs w' = obs w" using assms(1) unfolding passive_caller_def by (metis snd_conv)
  with False a wt show ?thesis by (cases b) (auto simp: ended_def good_end_def)
qed

lemma client_round_good:
  assumes "trusted_tunnel os drv goos c obs" and "passive_driver drv obs" and "passive_bridge bridge obs"
    and cl: "passive_caller cl obs" and "c_role c \<noteq> ''server''"
  shows "case client_round os drv bridge cl goos c True ''tun'' w of
      Inl y \<Rightarrow> good_end os cl obs (obs w) y | Inr w' \<Rightarrow> obs w' = obs w"
proof -
  obtain r w1 where d: "cl_dial cl w = (r, w1)" by (metis prod.exhaust)
  then have w1: "obs w1 = obs w" using cl unfolding passive_caller_def by (metis snd_conv)
  show ?thesis
  proof (cases r)
    case (Inl e)
    with d ended_good [OF cl, of "Some e" w1 "obs w" os] w1 show ?thesis by (simp add: client_round_def)
  next
    case (Inr p)
    with d cl have p: "passive_link p obs" unfolding passive_caller_def by blast
    obtain x w2 where x: "runTUN os drv bridge goos c p w1 = (x, w2)" by (metis prod.exhaust)
    have "x \<noteq> Crashed" using runTUN_crashes [of os drv bridge goos c p w1] x assms(5) by (auto simp: allowed_sources_def)
    then obtain e where e: "x = Finished e" by (cases x) auto
    have "obs (lk_close p w2) = obs w" if "e = None \<or> \<not> CleanupFailed (the e)"
      using runTUN_cleans [OF assms(1,2) p assms(3) x] that e w1 p
      by (cases e) (auto simp: clean_def passive_link_def)
    from ended_good [OF cl this] show ?thesis using d Inr x e by (simp add: client_round_def)
  qed
qed

lemma client_loop_good:
  assumes "client_loop os drv bridge cl goos c True ''tun'' w = Some y"
    and "trusted_tunnel os drv goos c obs" and "passive_driver drv obs" and "passive_bridge bridge obs"
    and "passive_caller cl obs" and "c_role c \<noteq> ''server''"
  shows "good_end os cl obs (obs w) y"
proof -
  let ?P = "\<lambda>os drv bridge cl goos c rc mode w y. trusted_tunnel os drv goos c obs \<and> passive_driver drv obs \<and>
    passive_bridge bridge obs \<and> passive_caller cl obs \<and> c_role c \<noteq> ''server'' \<and> rc \<and> mode = ''tun'' \<longrightarrow>
    good_end os cl obs (obs w) y"
  have "?P os drv bridge cl goos c True ''tun'' w y"
  proof (rule client_loop.raw_induct [where P = ?P, OF _ assms(1)], intro impI, elim conjE)
    fix rec and os :: "'a os" and drv bridge cl goos c rc mode w y
    assume rec: "\<And>os drv bridge cl goos c rc mode w y. rec os drv bridge cl goos c rc mode w = Some y \<Longrightarrow>
        ?P os drv bridge cl goos c rc mode w y"
      and y: "(case client_round os drv bridge cl goos c rc mode w of Inl r \<Rightarrow> Some r
        | Inr w' \<Rightarrow> rec os drv bridge cl goos c rc mode w') = Some y"
      and h: "trusted_tunnel os drv goos c obs" "passive_driver drv obs" "passive_bridge bridge obs"
        "passive_caller cl obs" "c_role c \<noteq> ''server''" "rc" "mode = ''tun''"
    note round = client_round_good [OF h(1-5), where w = w]
    show "good_end os cl obs (obs w) y"
    proof (cases "client_round os drv bridge cl goos c rc mode w")
      case (Inl r)
      with y round h(6,7) show ?thesis by simp
    next
      case (Inr w')
      with y have "rec os drv bridge cl goos c rc mode w' = Some y" by simp
      with rec h have "good_end os cl obs (obs w') y" by blast
      with Inr round h(6,7) show ?thesis by simp
    qed
  qed
  with assms(2-6) show ?thesis by blast
qed

subsection \<open>The server's sessions\<close>

text \<open>Cancelling ends the context for good: closing a link does not bring it back.\<close>

definition cancels :: "'w os \<Rightarrow> ('w \<Rightarrow> 'w) \<Rightarrow> 'w link list \<Rightarrow> ('w \<Rightarrow> 'c) \<Rightarrow> bool" where
  "cancels os cancel ps obs \<longleftrightarrow> (\<forall>w. ctx_err os (cancel w) \<noteq> None \<and> obs (cancel w) = obs w) \<and>
    (\<forall>p \<in> set ps. \<forall>w. ctx_err os w \<noteq> None \<longrightarrow> ctx_err os (lk_close p w) \<noteq> None)"

text \<open>A session that starts with the context done only closes its link.\<close>

lemma runTUN_done:
  "ctx_err os w = Some e \<Longrightarrow> runTUN os drv bridge goos c p w = (Finished (Some (ContextErr e)), lk_close p w)"
  by (simp add: runTUN_def tun_body_def defer_link_def)

lemma handler_done:
  assumes "ctx_err os w = Some e"
  shows "server_handler os drv bridge cancel goos c p cleanup w =
    ((Finished (Some (ContextErr e)), cleanup), lk_close p w)"
  by (simp add: server_handler_def server_session_def runTUN_done [OF assms])

lemma sessions_done:
  assumes "server_sessions os drv bridge cancel goos c ps k w = Some (k', w')" and "ctx_err os w \<noteq> None"
    and "cancels os cancel ps obs" and "\<forall>p \<in> set ps. passive_link p obs"
  shows "k' = k \<and> obs w' = obs w"
  using assms
proof (induction ps arbitrary: w)
  case (Cons p ps)
  then obtain e where "ctx_err os w = Some e" by blast
  with Cons.prems(1) have go: "server_sessions os drv bridge cancel goos c ps k (lk_close p w) = Some (k', w')"
    by (simp add: handler_done)
  have "ctx_err os (lk_close p w) \<noteq> None" "cancels os cancel ps obs" "obs (lk_close p w) = obs w"
    using Cons.prems(2-4) by (auto simp: cancels_def passive_link_def)
  with Cons.IH [OF go] Cons.prems(4) show ?case by simp
qed simp

text \<open>The first session that could not clean up: what it left stays as it is.\<close>

definition failed_session ::
    "'w os \<Rightarrow> 'w tun_driver \<Rightarrow> 'w bridging \<Rightarrow> ('w \<Rightarrow> 'w) \<Rightarrow> string \<Rightarrow> config \<Rightarrow> ('w \<Rightarrow> 'c) \<Rightarrow> 'w link list \<Rightarrow> 'w \<Rightarrow>
      net_error \<Rightarrow> 'w \<Rightarrow> bool" where
  "failed_session os drv bridge cancel goos c obs ps w e w' \<longleftrightarrow>
    (\<exists>before p later w0 w1. ps = before @ p # later \<and>
      server_sessions os drv bridge cancel goos c before None w = Some (None, w0) \<and> obs w0 = obs w \<and>
      runTUN os drv bridge goos c p w0 = (Finished (Some e), w1) \<and> obs w' = obs w1)"

lemma sessions_clean:
  assumes "server_sessions os drv bridge cancel goos c ps None w = Some (k, w')"
    and "trusted_tunnel os drv goos c obs" and "passive_driver drv obs" and "passive_bridge bridge obs"
    and "\<forall>p \<in> set ps. passive_link p obs" and "cancels os cancel ps obs"
  shows "case k of None \<Rightarrow> obs w' = obs w
    | Some e \<Rightarrow> CleanupFailed e \<and> failed_session os drv bridge cancel goos c obs ps w e w'"
  using assms
proof (induction ps arbitrary: w)
  case (Cons p ps)
  have can: "cancels os cancel ps obs" and pl: "passive_link p obs" and pls: "\<forall>p \<in> set ps. passive_link p obs"
    using Cons.prems(5,6) by (auto simp: cancels_def)
  obtain r w1 where run: "runTUN os drv bridge goos c p w = (r, w1)" by (metis prod.exhaust)
  with Cons.prems(1) obtain e where r: "r = Finished e"
    by (cases r) (auto simp: server_handler_def server_session_def)
  show ?case
  proof (cases "\<exists>x. e = Some x \<and> CleanupFailed x")
    case True
    then obtain x where x: "e = Some x" "CleanupFailed x" by blast
    with Cons.prems(1) run r have go: "server_sessions os drv bridge cancel goos c ps (Some x) (cancel w1) = Some (k, w')"
      by (simp add: server_handler_def server_session_def)
    have "ctx_err os (cancel w1) \<noteq> None" "obs (cancel w1) = obs w1" using Cons.prems(6) by (simp_all add: cancels_def)
    with sessions_done [OF go _ can pls] have k: "k = Some x" "obs w' = obs w1" by simp_all
    then have "failed_session os drv bridge cancel goos c obs (p # ps) w x w'"
      unfolding failed_session_def using run r x(1) server_sessions.simps(1) by (metis append_Nil)
    with x(2) k show ?thesis by simp
  next
    case False
    then have here: "server_handler os drv bridge cancel goos c p None w = ((Finished e, None), w1)"
      using run r by (cases e) (auto simp: server_handler_def server_session_def)
    with Cons.prems(1) have go: "server_sessions os drv bridge cancel goos c ps None w1 = Some (k, w')" by simp
    have "clean r" using False r by (cases e) (auto simp: clean_def)
    then have w1: "obs w1 = obs w" using runTUN_cleans [OF Cons.prems(2,3) pl Cons.prems(4) run] r by simp
    have "failed_session os drv bridge cancel goos c obs (p # ps) w x w'"
      if "failed_session os drv bridge cancel goos c obs ps w1 x w'" for x
    proof -
      from that obtain before q later w0 v where f: "ps = before @ q # later"
          "server_sessions os drv bridge cancel goos c before None w1 = Some (None, w0)" "obs w0 = obs w1"
          "runTUN os drv bridge goos c q w0 = (Finished (Some x), v)" "obs w' = obs v"
        unfolding failed_session_def by blast
      have "server_sessions os drv bridge cancel goos c (p # before) None w = Some (None, w0)" using here f(2) by simp
      moreover have "p # ps = (p # before) @ q # later" using f(1) by simp
      ultimately show ?thesis unfolding failed_session_def using f(3-5) w1 by metis
    qed
    with Cons.IH [OF go Cons.prems(2-4) pls can] w1 show ?thesis by (cases k) auto
  qed
qed simp

lemma sessions_return:
  assumes "allowed_sources c \<noteq> None"
  shows "\<exists>k' w'. server_sessions os drv bridge cancel goos c ps k w = Some (k', w')"
proof (induction ps arbitrary: k w)
  case (Cons p ps)
  have "fst (runTUN os drv bridge goos c p w) \<noteq> Crashed" using runTUN_crashes [of os drv bridge goos c p w] assms by simp
  then obtain e w1 where "runTUN os drv bridge goos c p w = (Finished e, w1)"
    by (cases "runTUN os drv bridge goos c p w"; cases "fst (runTUN os drv bridge goos c p w)") auto
  then have "\<exists>k1 w2. server_handler os drv bridge cancel goos c p k w = ((Finished e, k1), w2)"
    by (cases e) (auto simp: server_handler_def server_session_def)
  with Cons.IH show ?case by fastforce
qed simp

lemma server_result_cleanup: "CleanupFailed e \<Longrightarrow> \<exists>r. server_result err (Some e) = Some r \<and> CleanupFailed r"
  by (cases err) (auto simp: server_result_def join_error_def)

subsection \<open>Properties\<close>


text \<open>A driver, a link and a bridge that leave the firewall of \<open>small_firewall\<close> alone.\<close>

definition still_driver :: "'w tun_driver" where
  "still_driver = \<lparr>drv_create = (\<lambda>name mtu w. (None, w)), drv_name = (\<lambda>w. (Inr ''tlab0'', w)), drv_batch = (\<lambda>w. 1),
    drv_read = (\<lambda>off bt w. Some ((0, Some ''closed''), bt, w)), drv_write = (\<lambda>bufs off w. ((0, None), w)),
    drv_close = (\<lambda>w. (None, w))\<rparr>"

definition still_link :: "'w link" where
  "still_link = \<lparr>lk_close = (\<lambda>w. w), lk_underlay = None\<rparr>"

definition still_bridge :: "'w bridging" where
  "still_bridge d allowed w = (Some (NetError ''EOF''), d, w)"

lemma still_passive:
  "passive_driver still_driver obs" "passive_link still_link obs" "passive_bridge still_bridge obs"
  by (simp_all add: passive_driver_def passive_link_def passive_bridge_def still_driver_def still_link_def still_bridge_def)

lemma still_open_name: "tun_Open still_driver goos name w = (Inr d, w') \<Longrightarrow> d_name d = ''tlab0''"
  by (auto simp: tun_Open_def still_driver_def Let_def split: if_splits)



definition cancelled_system :: "command option os" where
  "cancelled_system = small_firewall\<lparr>ctx_err := (\<lambda>w. Some ''context canceled'')\<rparr>"

definition idle_caller :: "'w caller" where
  "idle_caller = \<lparr>cl_dial = (\<lambda>w. (Inl (NetError ''refused''), w)), cl_probe = (\<lambda>p w. (None, w)), cl_wait = (\<lambda>w. (False, w))\<rparr>"



text \<open>A system with a context that can be cancelled: the second part of its world.\<close>

definition with_context :: "'w os \<Rightarrow> ('w \<times> bool) os" where
  "with_context os = \<lparr>run_cmd = (\<lambda>c (w, b). apsnd (\<lambda>v. (v, b)) (run_cmd os c w)),
    lookup_ip = (\<lambda>h (w, b). apsnd (\<lambda>v. (v, b)) (lookup_ip os h w)),
    ctx_err = (\<lambda>(w, b). if b then Some ''context canceled'' else None), route_devs = route_devs os\<rparr>"

lemma with_context_run:
  "run_cmd (with_context os) c w = (r, w') \<longleftrightarrow> run_cmd os c (fst w) = (r, fst w') \<and> snd w' = snd w"
  "lookup_ip (with_context os) h w = (x, w') \<longleftrightarrow> lookup_ip os h (fst w) = (x, fst w') \<and> snd w' = snd w"
  by (cases w; cases w'; cases "run_cmd os c (fst w)"; cases "lookup_ip os h (fst w)"; auto simp: with_context_def)+

lemma with_context_fst:
  "fst (run_cmd (with_context os) c w) = fst (run_cmd os c (fst w))"
  "fst (snd (run_cmd (with_context os) c w)) = snd (run_cmd os c (fst w))"
  "fst (snd (lookup_ip (with_context os) h w)) = snd (lookup_ip os h (fst w))"
  by (cases w; cases "run_cmd os c (fst w)"; cases "lookup_ip os h (fst w)"; simp add: with_context_def)+

lemma reverts_with_context:
  assumes "reverts os obs d u (fst w)"
  shows "reverts (with_context os) (\<lambda>w. obs (fst w)) d u w"
  using assms unfolding reverts_def with_context_run(1) with_context_fst by blast

lemma trusted_with_context:
  assumes "trusted os iface obs"
  shows "trusted (with_context os) iface (\<lambda>w. obs (fst w))"
proof -
  have "obs (fst w') = obs (fst w)" if "run_cmd (with_context os) d w = (Inl e, w')" for d w e w'
    using assms that unfolding trusted_def with_context_run(1) by blast
  moreover have "obs (fst (snd (run_cmd (with_context os) d w))) = obs (fst w)" if "is_query d" for d w
    using assms that unfolding trusted_def with_context_fst by (elim conjE) simp
  moreover have "obs (fst (snd (run_cmd (with_context os) d w))) = obs (fst w)" if "on_tunnel iface d" for d w
    using assms that unfolding trusted_def with_context_fst by (elim conjE) simp
  moreover have "obs (fst (snd (lookup_ip (with_context os) h w))) = obs (fst w)" for h w
    using assms unfolding trusted_def with_context_fst by (elim conjE) simp
  moreover have "reverts (with_context os) (\<lambda>w. obs (fst w)) d u w" if "takes_back d u" for d u w
    by (rule reverts_with_context [where obs = obs]) (use assms that in \<open>simp add: trusted_def\<close>)
  moreover have "reverts (with_context os) (\<lambda>w. obs (fst w)) (set_dns service new) (set_dns service restore) w1"
    if "run_cmd (with_context os) (get_dns service) w = (Inr old, w1)" "parse_dns old = Some restore"
    for service old restore new w w1
    by (rule reverts_with_context [where obs = obs])
      (use assms that in \<open>unfold trusted_def with_context_run(1), blast\<close>)
  moreover have "reverts (with_context os) (\<lambda>w. obs (fst w)) (set_sysctl key ''1'') (set_sysctl key old) w1"
    if "run_cmd (with_context os) (get_sysctl key) w = (Inr old, w1)" for key old w w1
    by (rule reverts_with_context [where obs = obs])
      (use assms that in \<open>unfold trusted_def with_context_run(1), blast\<close>)
  ultimately show ?thesis unfolding trusted_def by (intro conjI allI impI) assumption+
qed


text \<open>C37: Where a session crashes. With a validated configuration a session panics in exactly one
  case: on a server whose \<open>peer6\<close> is set but is not an address while \<open>ipv6\<close> is empty, which \<open>Validate\<close> does not look
  at, once the device and the network are set up. Otherwise the sources the bridge admits are none
  on a client, and the peers' addresses on a server.\<close>

theorem session_crashes:
  assumes "Validate c0 = (None, c)"
  shows "(allowed_sources c = None \<longleftrightarrow> c_role c = ''server'' \<and> n_ipv6 (c_network c) = [] \<and>
      n_peer6 (c_network c) \<noteq> [] \<and> parseAddr (n_peer6 (c_network c)) = None) \<and>
    (fst (runTUN os drv bridge goos c p w) = Crashed \<longleftrightarrow> ctx_err os w = None \<and> allowed_sources c = None \<and>
      (\<exists>d w1 m w2. tun_Open drv goos (c_tun c) w = (Inr d, w1) \<and>
        Setup os goos c (d_name d) (case lk_underlay p of None \<Rightarrow> [] | Some ips \<Rightarrow> ips) w1 = (Inr m, w2))) \<and>
    (\<forall>as. allowed_sources c = Some as \<longrightarrow> (if c_role c = ''server''
      then map Some as = parseAddr (n_peer4 (c_network c)) #
        (if n_peer6 (c_network c) = [] then [] else [parseAddr (n_peer6 (c_network c))])
      else as = []))"
proof -
  have p: "passes c" using assms by (auto simp: Validate_accepts)
  then have p4: "parseAddr (n_peer4 (c_network c)) \<noteq> None"
    by (auto simp: passes_def check_ipv4_def bad_peer_def split: option.splits if_splits)
  have p6: "parseAddr (n_peer6 (c_network c)) \<noteq> None" if "n_ipv6 (c_network c) \<noteq> []"
    using p that by (auto simp: passes_def check_ipv6_def bad_peer_def split: option.splits if_splits)
  show ?thesis
    using p4 p6 runTUN_crashes [of os drv bridge goos c p w]
    by (auto simp: allowed_sources_def split: option.splits if_splits)
qed

text \<open>A server configuration that \<open>Validate\<close> accepts and that crashes every session.\<close>

definition crashing_config :: config where
  "crashing_config = server_config\<lparr>c_network := (c_network server_config)\<lparr>n_auto := False, n_peer6 := ''client.lan''\<rparr>\<rparr>"

theorem session_crashes_witness:
  "\<exists>c. Validate crashing_config = (None, c) \<and> allowed_sources c = None \<and>
    fst (runTUN small_firewall still_driver still_bridge ''linux'' c still_link None) = Crashed"
proof -
  have "fst (Validate crashing_config) = None" by code_simp
  then obtain c where c: "Validate crashing_config = (None, c)" by (metis prod.collapse)
  then have cd: "c = with_defaults crashing_config" by (simp only: Validate_accepts)
  have f: "c_role c = ''server''" "n_ipv6 (c_network c) = []" "n_peer6 (c_network c) = ''client.lan''"
    "n_auto (c_network c) = False"
    unfolding cd by (simp_all add: with_defaults_def default_network_def crashing_config_def server_config_def
        sample_config_def zero_config_def)
  have bad: "parseAddr ''client.lan'' = None" by code_simp
  obtain d w1 where o: "tun_Open still_driver ''linux'' (c_tun c) (None :: command option) = (Inr d, w1)"
    by (simp add: tun_Open_def still_driver_def Let_def)
  have "Setup small_firewall ''linux'' c (d_name d) [] w1 = (Inr \<lparr>undo = [], has_ctx = True\<rparr>, w1)"
    by (simp add: Setup_def small_firewall_def f)
  with o have "\<exists>d w1 m w2. tun_Open still_driver ''linux'' (c_tun c) None = (Inr d, w1) \<and>
      Setup small_firewall ''linux'' c (d_name d) (case lk_underlay (still_link :: command option link) of
        None \<Rightarrow> [] | Some ips \<Rightarrow> ips) w1 = (Inr m, w2)"
    by (auto simp: still_link_def)
  moreover have "ctx_err small_firewall None = None" by (simp add: small_firewall_def)
  ultimately have "allowed_sources c = None \<and>
      fst (runTUN small_firewall still_driver still_bridge ''linux'' c still_link None) = Crashed"
    using session_crashes [OF c, of small_firewall still_driver still_bridge "''linux''" still_link None] f bad by simp
  with c show ?thesis by blast
qed

end
