(* ===== verification/Generate.thy ===== *)
theory Generate
  imports Config
begin

text \<open>
  \<open>cmd/tunnel-lab/init.go\<close>: \<open>generate\<close>, which makes a matching pair of configurations with their
  token, keys and certificate and saves them to a new directory. Random bytes, key generation,
  certificate creation, the JSON encoder's errors and the file system's are a parameter, the
  record \<open>gen_env\<close>; the flags are parsed. The file operations tried are a list with their results.
  The validity period and the key usages of the certificate are left out.
\<close>

subsection \<open>Library\<close>

text \<open>\<open>base64.RawURLEncoding.EncodeToString\<close>.\<close>

definition url_digit :: "nat \<Rightarrow> char" where
  "url_digit n = ''ABCDEFGHIJKLMNOPQRSTUVWXYZabcdefghijklmnopqrstuvwxyz0123456789-_'' ! (n mod 64)"

fun raw_url_base64 :: "byte list \<Rightarrow> string" where
  "raw_url_base64 [] = []"
| "raw_url_base64 [a] = [url_digit (unat a div 4), url_digit (unat a * 16)]"
| "raw_url_base64 [a, b] =
     [url_digit (unat a div 4), url_digit (unat a * 16 + unat b div 16), url_digit (unat b * 4)]"
| "raw_url_base64 (a # b # c # r) =
     url_digit (unat a div 4) # url_digit (unat a * 16 + unat b div 16) #
     url_digit (unat b * 4 + unat c div 64) # url_digit (unat c) # raw_url_base64 r"

text \<open>The certificate template: what the code puts into it apart from times and usages.\<close>

record 'k template =
  ce_serial :: int
  ce_name :: string
  ce_ca :: bool
  ce_dns :: "string list"
  ce_ips :: "128 word list"
  ce_key :: 'k

record 'k gen_env =
  ge_token :: "byte list"
  ge_short :: "byte list"
  ge_x25519 :: "string + byte list \<times> byte list"
  ge_uuid :: string
  ge_ecdsa :: "string + 'k"
  ge_serial :: "string + int"
  ge_certificate :: "'k template \<Rightarrow> string + byte list"
  ge_pkcs8 :: "'k \<Rightarrow> string + byte list"
  ge_marshal :: "config \<Rightarrow> string option"
  ge_mkdir :: "string option"
  ge_write :: "string \<Rightarrow> string option"
  ge_server_first :: bool

record gen_flags =
  gf_out :: string
  gf_server :: string
  gf_transport :: string
  gf_target :: string
  gf_sni :: string
  gf_dns_service :: string
  gf_codec :: string
  gf_sip_tls :: bool

datatype gen_error =
    BadServerAddress
  | NoTarget
  | CryptoError string
  | ServerInvalid config_error
  | ClientInvalid config_error
  | EncodeError string
  | FileError string

text \<open>What a file holds: a PEM block, or a configuration as indented JSON with a final newline.\<close>

datatype gen_content = Pem string "byte list" | Json config

datatype gen_op = MakeDir string nat | SaveFile string gen_content nat

text \<open>The modes \<open>0700\<close> and \<open>0600\<close>.\<close>

definition private_dir :: nat where
  "private_dir = 7 * 8 ^ 2"

definition private_file :: nat where
  "private_file = 6 * 8 ^ 2"

type_synonym gen_log = "(gen_op \<times> string option) list"

subsection \<open>The pair\<close>

definition server_of :: "'k gen_env \<Rightarrow> gen_flags \<Rightarrow> string \<Rightarrow> string \<Rightarrow> config" where
  "server_of env f host port =
    \<lparr>c_role = ''server'', c_transport = gf_transport f,
     c_listen = joinHostPort
       (case parseIP host of Some ip \<Rightarrow> if is4in6 ip then ''0.0.0.0'' else ''::'' | None \<Rightarrow> ''0.0.0.0'') port,
     c_endpoint = [], c_token = hex_bytes (ge_token env), c_tun = ''tlab0'', c_sip = \<lparr>s_tls = gf_sip_tls f\<rparr>,
     c_network = \<lparr>n_auto = True, n_ipv4 = ''10.77.0.1/30'', n_peer4 = ''10.77.0.2'', n_ipv6 = ''fd77::1/126'',
       n_peer6 = ''fd77::2'', n_egress = [], n_dns_service = [], n_dns = [], n_bypass_ips = []\<rparr>,
     c_tls = \<lparr>t_cert = ''cert.pem'', t_key = ''server-key.pem'', t_ca = [], t_server_name = []\<rparr>,
     c_webrtc = (c_webrtc zero_config)\<lparr>w_codec := gf_codec f, w_udp_min := 40000, w_udp_max := 40100\<rparr>,
     c_reality = c_reality zero_config\<rparr>"

definition client_of :: "gen_flags \<Rightarrow> string \<Rightarrow> config \<Rightarrow> config" where
  "client_of f host server =
    server\<lparr>c_role := ''client'', c_listen := [], c_endpoint := gf_server f, c_tun := ''utun'',
      c_tls := \<lparr>t_cert = [], t_key = [], t_ca = ''cert.pem'', t_server_name = host\<rparr>,
      c_webrtc := (c_webrtc server)\<lparr>w_udp_min := 0, w_udp_max := 0\<rparr>,
      c_network := \<lparr>n_auto = True, n_ipv4 = ''10.77.0.2/30'', n_peer4 = ''10.77.0.1'', n_ipv6 = ''fd77::2/126'',
        n_peer6 = ''fd77::1'', n_egress = [], n_dns_service = gf_dns_service f, n_dns = [''1.1.1.1''],
        n_bypass_ips = []\<rparr>\<rparr>"

definition reality_keys ::
    "'k gen_env \<Rightarrow> gen_flags \<Rightarrow> config \<times> config \<Rightarrow> gen_error + config \<times> config" where
  "reality_keys env f = (\<lambda>(server, client).
    if gf_transport f = ''reality'' then
      (case ge_x25519 env of
         Inl e \<Rightarrow> Inl (CryptoError e)
       | Inr (priv, pub) \<Rightarrow>
           (let r = \<lparr>r_uuid = ge_uuid env, r_private_key = [], r_password = [],
              r_short_id = hex_bytes (ge_short env), r_server_name = gf_sni f, r_target = [], r_fingerprint = ''chrome''\<rparr>
            in Inr (server\<lparr>c_reality := r\<lparr>r_private_key := raw_url_base64 priv, r_target := gf_target f\<rparr>\<rparr>,
              client\<lparr>c_reality := r\<lparr>r_password := raw_url_base64 pub\<rparr>\<rparr>)))
    else Inr (server, client))"

text \<open>Up to the two calls of \<open>Validate\<close>, which fill in defaults.\<close>

definition make_pair :: "'k gen_env \<Rightarrow> gen_flags \<Rightarrow> gen_error + string \<times> config \<times> config" where
  "make_pair env f =
    (case splitHostPort (gf_server f) of
       None \<Rightarrow> Inl BadServerAddress
     | Some (host, port) \<Rightarrow>
         if gf_transport f = ''reality'' \<and> (gf_target f = [] \<or> gf_sni f = []) then Inl NoTarget
         else
           (let server = server_of env f host port; client = client_of f host server
            in case reality_keys env f (server, client) of
                 Inl e \<Rightarrow> Inl e
               | Inr (server, client) \<Rightarrow>
                   (case Validate server of
                      (Some e, _) \<Rightarrow> Inl (ServerInvalid e)
                    | (None, server') \<Rightarrow>
                        (case Validate client of
                           (Some e, _) \<Rightarrow> Inl (ClientInvalid e)
                         | (None, client') \<Rightarrow> Inr (host, server', client')))))"

subsection \<open>The files\<close>

definition template_of :: "string \<Rightarrow> int \<Rightarrow> 'k \<Rightarrow> 'k template" where
  "template_of host serial key =
    (let local = [push_bit 32 0xffff OR 0x7f000001, 1]
     in \<lparr>ce_serial = serial, ce_name = ''tunnel-lab'', ce_ca = True,
         ce_dns = [''localhost''] @ (if parseIP host = None then [host] else []),
         ce_ips = local @ (case parseIP host of Some ip \<Rightarrow> [ip] | None \<Rightarrow> []), ce_key = key\<rparr>)"

text \<open>The keys and the certificate: the contents of \<open>cert.pem\<close> and \<open>server-key.pem\<close>.\<close>

definition make_keys :: "'k gen_env \<Rightarrow> string \<Rightarrow> gen_error + gen_content \<times> gen_content" where
  "make_keys env host =
    (case ge_ecdsa env of Inl e \<Rightarrow> Inl (CryptoError e)
     | Inr key \<Rightarrow> (case ge_serial env of Inl e \<Rightarrow> Inl (CryptoError e)
     | Inr serial \<Rightarrow> (case ge_certificate env (template_of host serial key) of Inl e \<Rightarrow> Inl (CryptoError e)
     | Inr der \<Rightarrow> (case ge_pkcs8 env key of Inl e \<Rightarrow> Inl (CryptoError e)
     | Inr priv \<Rightarrow> Inr (Pem ''CERTIFICATE'' der, Pem ''PRIVATE KEY'' priv)))))"

definition marshal_error :: "'k gen_env \<Rightarrow> gen_content \<Rightarrow> string option" where
  "marshal_error env x = (case x of Pem _ _ \<Rightarrow> None | Json c \<Rightarrow> ge_marshal env c)"

fun save_all :: "'k gen_env \<Rightarrow> string \<Rightarrow> (string \<times> gen_content) list \<Rightarrow> gen_error option \<times> gen_log" where
  "save_all env dir [] = (None, [])"
| "save_all env dir ((name, x) # fs) =
     (case marshal_error env x of
        Some e \<Rightarrow> (Some (EncodeError e), [])
      | None \<Rightarrow>
          (let path = path_join dir name; op = SaveFile path x private_file
           in case ge_write env path of
                Some e \<Rightarrow> (Some (FileError e), [(op, Some e)])
              | None \<Rightarrow> (case save_all env dir fs of (e, l) \<Rightarrow> (e, (op, None) # l))))"

definition plan :: "bool \<Rightarrow> gen_content \<Rightarrow> gen_content \<Rightarrow> config \<Rightarrow> config \<Rightarrow> (string \<times> gen_content) list" where
  "plan server_first cert key server client =
    [(''cert.pem'', cert), (''server-key.pem'', key)] @
    (if server_first then [(''server.json'', Json server), (''client.json'', Json client)]
     else [(''client.json'', Json client), (''server.json'', Json server)])"

definition generate :: "'k gen_env \<Rightarrow> gen_flags \<Rightarrow> gen_error option \<times> gen_log" where
  "generate env f =
    (case make_pair env f of
       Inl e \<Rightarrow> (Some e, [])
     | Inr (host, server, client) \<Rightarrow>
         (let mk = MakeDir (gf_out f) private_dir
          in case ge_mkdir env of
               Some e \<Rightarrow> (Some (FileError e), [(mk, Some e)])
             | None \<Rightarrow>
                 (case make_keys env host of
                    Inl e \<Rightarrow> (Some e, [(mk, None)])
                  | Inr (cert, key) \<Rightarrow>
                      (case save_all env (gf_out f) (plan (ge_server_first env) cert key server client) of
                         (e, l) \<Rightarrow> (e, (mk, None) # l)))))"

subsection \<open>Address literals\<close>

lemma hex_vals:
  "hex_val (CHR ''f'') = Some 15" "hex_val (CHR ''d'') = Some 13" "hex_val (CHR ''7'') = Some 7"
  "hex_val (CHR '':'') = None" "hex_val (CHR ''1'') = Some 1" "hex_val (CHR ''2'') = Some 2"
  by (simp_all add: hex_val_def)

lemma hex_nums: "hex_num ''fd77'' = 64887" "hex_num ''1'' = 1" "hex_num ''2'' = 2"
  by (simp_all add: hex_num_def hex_vals)

definition hex_group :: "string \<Rightarrow> bool" where
  "hex_group s \<longleftrightarrow> list_all (\<lambda>c. hex_val c \<noteq> None) s \<and> s \<noteq> [] \<and> length s \<le> 4"

lemma hex_group_takeWhile:
  "hex_group g \<Longrightarrow> takeWhile (\<lambda>c. hex_val c \<noteq> None) (g @ CHR '':'' # r) = g"
  "hex_group g \<Longrightarrow> takeWhile (\<lambda>c. hex_val c \<noteq> None) g = g"
  by (auto simp: hex_group_def list_all_iff takeWhile_append hex_vals)

lemma hex_groupD: "hex_group g \<Longrightarrow> \<not> 4 < length g" "hex_group g \<Longrightarrow> g \<noteq> []"
  by (auto simp: hex_group_def)

lemma groups_last:
  assumes "hex_group s"
  shows "parse6_groups (Suc k) ip ell s =
    Some (ip @ [of_nat (hex_num s div 256), of_nat (hex_num s mod 256)], ell, [])"
  by (simp add: Let_def assms hex_group_takeWhile hex_groupD del: not_None_eq)

lemma groups_double:
  assumes "hex_group g" and "r \<noteq> []"
  shows "parse6_groups (Suc k) ip None (g @ '':'' @ '':'' @ r) =
    (let ip' = ip @ [of_nat (hex_num g div 256), of_nat (hex_num g mod 256)]
     in parse6_groups k ip' (Some (length ip')) r)"
  by (simp add: Let_def assms hex_group_takeWhile hex_groupD del: not_None_eq)

lemma groups_fd77:
  assumes "hex_group s"
  shows "parse6_groups 8 [] None (''fd77'' @ '':'' @ '':'' @ s) =
    Some ([253, 119, of_nat (hex_num s div 256), of_nat (hex_num s mod 256)], Some 2, [])"
proof -
  have f: "hex_group ''fd77''" by (simp add: hex_group_def hex_vals)
  have "parse6_groups (Suc (Suc k)) [] None (''fd77'' @ '':'' @ '':'' @ s) =
      Some ([253, 119, of_nat (hex_num s div 256), of_nat (hex_num s mod 256)], Some 2, [])" for k
    unfolding groups_double [OF f hex_groupD(2) [OF assms]] Let_def groups_last [OF assms] by (simp add: hex_nums)
  from this [of 6] show ?thesis by simp
qed

lemma groups_ends:
  "parse6_groups 8 [] None ''fd77::1'' = Some ([253, 119, 0, 1], Some 2, [])"
  "parse6_groups 8 [] None ''fd77::2'' = Some ([253, 119, 0, 2], Some 2, [])"
  using groups_fd77 [of "''1''"] groups_fd77 [of "''2''"]
  by (simp_all add: hex_nums hex_vals hex_group_def del: parse6_groups.simps)

lemma expand_ends: "expand6 ([253, 119, 0, x], Some 2, []) = Some [253, 119, 0, 0, 0, 0, 0, 0, 0, 0, 0, 0, 0, 0, 0, x]"
  by (simp add: expand6_def numeral_eq_Suc)

definition end6 :: "128 word \<Rightarrow> addr" where
  "end6 n = Addr6 (0xfd770000000000000000000000000000 + n) []"

lemma word_ends:
  "word_of_bytes [253, 119, 0, 0, 0, 0, 0, 0, 0, 0, 0, 0, 0, 0, 0, 1] = (0xfd770000000000000000000000000001 :: 128 word)"
  "word_of_bytes [253, 119, 0, 0, 0, 0, 0, 0, 0, 0, 0, 0, 0, 0, 0, 2] = (0xfd770000000000000000000000000002 :: 128 word)"
  by (simp_all add: word_of_bytes_def)

lemma cut_ends:
  "cut ''fd77::1'' (CHR ''%'') = (''fd77::1'', [], False)" "cut ''fd77::2'' (CHR ''%'') = (''fd77::2'', [], False)"
  by simp_all

lemma parse_ends: "parseAddr ''fd77::1'' = Some (end6 1)" "parseAddr ''fd77::2'' = Some (end6 2)"
  by (simp_all add: parseAddr_def parse6_def groups_ends cut_ends expand_ends word_ends end6_def Let_def
      hasPrefix_def del: cut.simps)

lemma prefix_ends:
  "parsePrefix ''fd77::1/126'' = Some (end6 1, 126)" "parsePrefix ''fd77::2/126'' = Some (end6 2, 126)"
proof -
  have "atoi ''126'' = Some 126" by code_simp
  then show "parsePrefix ''fd77::1/126'' = Some (end6 1, 126)" "parsePrefix ''fd77::2/126'' = Some (end6 2, 126)"
    using parse_ends by (simp_all add: parsePrefix_def zone_def is4_def end6_def)
qed

lemma good_ends:
  "\<not> bad_peer (end6 1, 126) ''fd77::2''" "\<not> bad_peer (end6 2, 126) ''fd77::1''" "is6 (end6 n)"
  by (simp_all add: bad_peer_def parse_ends prefix_contains_def is6_def) (simp_all add: end6_def)

subsection \<open>Host and port\<close>

lemma last_index_last: "c \<notin> set p \<Longrightarrow> last_index c (a @ c # p) = Some (length a)"
proof -
  assume "c \<notin> set p"
  then have "takeWhile (\<lambda>x. x \<noteq> c) (rev p @ c # rev a) = rev p" by (subst takeWhile_append2) auto
  then show ?thesis by (simp add: last_index_def)
qed

lemma last_index_Some:
  assumes "last_index c s = Some i"
  shows "\<exists>a p. s = a @ c # p \<and> i = length a \<and> c \<notin> set p"
proof -
  have "c \<in> set s" using assms by (simp add: last_index_def split: if_splits)
  then obtain a p where "s = a @ c # p" "c \<notin> set p" by (metis split_list_last)
  with assms last_index_last [of c p a] show ?thesis by auto
qed

definition port_text :: "string \<Rightarrow> bool" where
  "port_text p \<longleftrightarrow> CHR '':'' \<notin> set p \<and> CHR ''['' \<notin> set p \<and> CHR '']'' \<notin> set p"

lemma splitHostPort_port:
  assumes "splitHostPort hp = Some (h, p)"
  shows "port_text p"
proof -
  obtain i where i: "last_index CHR '':'' hp = Some i" using assms by (auto simp: splitHostPort_def split: option.splits)
  then obtain a q where q: "hp = a @ CHR '':'' # q" "i = length a" "CHR '':'' \<notin> set q"
    using last_index_Some by blast
  with assms i have p: "p = q" by (auto simp: splitHostPort_def split: option.splits if_splits)
  have "CHR ''['' \<notin> set q \<and> CHR '']'' \<notin> set q"
  proof (cases "hd hp = CHR ''[''")
    case True
    then obtain e where "e + 1 = i" "CHR ''['' \<notin> set (drop 1 hp)" "CHR '']'' \<notin> set (drop i hp)"
      using assms i by (auto simp: splitHostPort_def split: option.splits if_splits)
    then show ?thesis using q by (cases a) auto
  next
    case False
    then show ?thesis using assms i q by (auto simp: splitHostPort_def split: if_splits)
  qed
  with p q(3) show ?thesis by (simp add: port_text_def)
qed

lemma splitHostPort_join:
  assumes "port_text p"
  shows "splitHostPort (joinHostPort ''0.0.0.0'' p) = Some (''0.0.0.0'', p)"
    and "splitHostPort (joinHostPort ''::'' p) = Some (''::'', p)"
proof -
  have "last_index CHR '':'' (''0.0.0.0'' @ CHR '':'' # p) = Some 7"
    using last_index_last [of "CHR '':''" p "''0.0.0.0''"] assms by (simp add: port_text_def)
  moreover have "last_index CHR '':'' (''[::]'' @ CHR '':'' # p) = Some 4"
    using last_index_last [of "CHR '':''" p "''[::]''"] assms by (simp add: port_text_def)
  ultimately show "splitHostPort (joinHostPort ''0.0.0.0'' p) = Some (''0.0.0.0'', p)"
    "splitHostPort (joinHostPort ''::'' p) = Some (''::'', p)"
    using assms by (simp_all add: splitHostPort_def joinHostPort_def port_text_def first_index_def)
qed

subsection \<open>The pair is accepted\<close>

text \<open>What the random sources and the key generation document.\<close>

definition sound_entropy :: "'k gen_env \<Rightarrow> bool" where
  "sound_entropy env \<longleftrightarrow> length (ge_token env) = 32 \<and> length (ge_short env) = 8 \<and> ge_uuid env \<noteq> [] \<and>
    (\<forall>priv pub. ge_x25519 env = Inr (priv, pub) \<longrightarrow> priv \<noteq> [] \<and> pub \<noteq> [])"

lemma base64_nonempty: "b \<noteq> [] \<Longrightarrow> raw_url_base64 b \<noteq> []"
  by (cases b rule: raw_url_base64.cases) auto

lemma hex_token_ok:
  assumes "length bs = 32"
  shows "length (hex_bytes bs) = 64" and "\<not> containsAny (hex_bytes bs) [CHR 0x0D, CHR 0x0A]"
proof -
  show "length (hex_bytes bs) = 64" using assms by simp
  show "\<not> containsAny (hex_bytes bs) [CHR 0x0D, CHR 0x0A]"
    using hex_bytes_graphic [of bs] by (auto simp: containsAny_def list_all_iff list_ex_iff graphic_def)
qed

lemma tunnel_addresses:
  "parsePrefix ''10.77.0.1/30'' = Some (Addr4 0x0a4d0001, 30)" "parsePrefix ''10.77.0.2/30'' = Some (Addr4 0x0a4d0002, 30)"
  "parseAddr ''10.77.0.1'' = Some (Addr4 0x0a4d0001)" "parseAddr ''10.77.0.2'' = Some (Addr4 0x0a4d0002)"
  "parseIP ''1.1.1.1'' \<noteq> None"
  by code_simp+

text \<open>The pair before \<open>Validate\<close>.\<close>

definition raw_pair :: "'k gen_env \<Rightarrow> gen_flags \<Rightarrow> string \<Rightarrow> string \<Rightarrow> config \<times> config" where
  "raw_pair env f host port = (let s = server_of env f host port in (s, client_of f host s))"

lemma reality_keys_fields:
  assumes "reality_keys env f (raw_pair env f host port) = Inr (s, c)"
  shows "c_role s = ''server''" "c_transport s = gf_transport f" "c_listen s = c_listen (server_of env f host port)"
    "c_token s = hex_bytes (ge_token env)" "c_sip s = \<lparr>s_tls = gf_sip_tls f\<rparr>"
    "c_network s = c_network (server_of env f host port)" "c_tls s = c_tls (server_of env f host port)"
    "c_webrtc s = c_webrtc (server_of env f host port)"
    "c_role c = ''client''" "c_transport c = gf_transport f" "c_endpoint c = gf_server f"
    "c_token c = hex_bytes (ge_token env)" "c_sip c = \<lparr>s_tls = gf_sip_tls f\<rparr>"
    "c_network c = c_network (client_of f host zero_config)" "c_tls c = c_tls (client_of f host zero_config)"
    "c_webrtc c = (c_webrtc (server_of env f host port))\<lparr>w_udp_min := 0, w_udp_max := 0\<rparr>"
  using assms
  by (auto simp: reality_keys_def raw_pair_def Let_def server_of_def client_of_def split: if_splits sum.splits)

lemma reality_keys_secrets:
  assumes "reality_keys env f (raw_pair env f host port) = Inr (s, c)"
  shows "r_private_key (c_reality c) = []" and "r_password (c_reality s) = []"
    and "r_uuid (c_reality c) = r_uuid (c_reality s)" and "r_short_id (c_reality c) = r_short_id (c_reality s)"
    and "r_server_name (c_reality c) = r_server_name (c_reality s)"
    and "gf_transport f = ''reality'' \<Longrightarrow> \<exists>priv pub. ge_x25519 env = Inr (priv, pub) \<and>
      r_private_key (c_reality s) = raw_url_base64 priv \<and> r_password (c_reality c) = raw_url_base64 pub \<and>
      r_target (c_reality s) = gf_target f \<and> r_uuid (c_reality s) = ge_uuid env \<and>
      r_short_id (c_reality s) = hex_bytes (ge_short env) \<and> r_server_name (c_reality s) = gf_sni f \<and>
      r_fingerprint (c_reality s) = ''chrome'' \<and> r_fingerprint (c_reality c) = ''chrome''"
  using assms
  by (auto simp: reality_keys_def raw_pair_def Let_def server_of_def client_of_def zero_config_def
      split: if_splits sum.splits)

definition legal_flags :: "gen_flags \<Rightarrow> bool" where
  "legal_flags f \<longleftrightarrow> gf_transport f \<in> {''webrtc'', ''sip'', ''reality''} \<and> gf_codec f \<in> {[], ''vp8'', ''h264''} \<and>
    (gf_transport f = ''reality'' \<longrightarrow> gf_target f \<noteq> [] \<and> gf_sni f \<noteq> [])"

lemma with_defaults_network: "n_ipv4 (c_network c) \<noteq> [] \<Longrightarrow> c_network (with_defaults c) = c_network c"
  by (simp add: with_defaults_def defaults_present)

lemma with_defaults_webrtc: "c_webrtc (with_defaults c) = c_webrtc (default_codec (default_network c))"
  by (simp add: with_defaults_def)

lemma with_defaults_fields [simp]:
  "c_role (with_defaults c) = c_role c" "c_transport (with_defaults c) = c_transport c"
  "c_listen (with_defaults c) = c_listen c" "c_endpoint (with_defaults c) = c_endpoint c"
  "c_token (with_defaults c) = c_token c" "c_sip (with_defaults c) = c_sip c" "c_tls (with_defaults c) = c_tls c"
  by (simp_all add: with_defaults_def)

lemma check_credentials_cong:
  "c_role c = c_role d \<Longrightarrow> c_transport c = c_transport d \<Longrightarrow> c_reality c = c_reality d \<Longrightarrow> c_sip c = c_sip d \<Longrightarrow>
    c_tls c = c_tls d \<Longrightarrow> fst (check_credentials c) = fst (check_credentials d)"
  unfolding check_credentials_def by (simp only: if_distrib [where f = fst] fst_conv)

text \<open>A configuration whose sections are as \<open>generate\<close> makes them.\<close>

lemma generated_passes:
  assumes "length (c_token c) = 64" and "\<not> containsAny (c_token c) [CHR 0x0D, CHR 0x0A]"
    and "c_role c = ''server'' \<and> splitHostPort (c_listen c) \<noteq> None \<and> c_network c = c_network (server_of env f host port) \<and>
        c_tls c = c_tls (server_of env f host port) \<and> w_udp_min (c_webrtc c) = 40000 \<and> w_udp_max (c_webrtc c) = 40100 \<or>
      c_role c = ''client'' \<and> splitHostPort (c_endpoint c) \<noteq> None \<and> c_network c = c_network (client_of f host d) \<and>
        w_udp_min (c_webrtc c) = 0 \<and> w_udp_max (c_webrtc c) = 0"
    and "w_codec (c_webrtc c) \<in> {[], ''vp8'', ''h264''}" and "c_transport c \<in> {''webrtc'', ''sip'', ''reality''}"
    and "c_transport c = ''reality'' \<longrightarrow> r_uuid (c_reality c) \<noteq> [] \<and> r_server_name (c_reality c) \<noteq> [] \<and>
      r_short_id (c_reality c) \<noteq> [] \<and> r_fingerprint (c_reality c) \<noteq> [] \<and>
      (if c_role c = ''server'' then r_private_key (c_reality c) \<noteq> [] \<and> r_target (c_reality c) \<noteq> []
       else r_password (c_reality c) \<noteq> [])"
  shows "Validate c = (None, with_defaults c)"
proof -
  let ?w = "with_defaults c"
  have role: "c_role c = ''server'' \<or> c_role c = ''client''" using assms(3) by blast
  have net: "c_network c = c_network (server_of env f host port) \<or> c_network c = c_network (client_of f host d)"
    using assms(3) by blast
  then have nw: "c_network ?w = c_network c"
    by (intro with_defaults_network) (auto simp: server_of_def client_of_def)
  have ports: "w_udp_min (c_webrtc c) = 40000 \<and> w_udp_max (c_webrtc c) = 40100 \<or>
      w_udp_min (c_webrtc c) = 0 \<and> w_udp_max (c_webrtc c) = 0" using assms(3) by blast
  have h: "fst (check_head c) = None"
    using assms(1,2,3,5) by (auto simp: check_head_def Let_def)
  have n: "fst (check_ipv4 ?w) = None" "fst (check_ipv6 ?w) = None" "fst (check_addresses ?w) = None"
    using net tunnel_addresses prefix_ends good_ends
    by (auto simp: check_ipv4_def check_ipv6_def check_addresses_def nw server_of_def client_of_def bad_peer_def
        prefix_contains_def is4_def)
  have w: "fst (check_webrtc ?w) = None"
    using assms(4) ports by (auto simp: check_webrtc_def with_defaults_webrtc default_codec_def)
  have c: "fst (check_credentials c) = None"
    using assms(3,6) role by (auto simp: check_credentials_def server_of_def)
  have "fst (check_head ?w) = None" using h check_head_cong [of c ?w] by simp
  moreover have "fst (check_credentials ?w) = None"
    using c check_credentials_default [of "default_codec (default_network c)"]
      check_credentials_cong [of "default_codec (default_network c)" c] by (simp add: with_defaults_def)
  ultimately show ?thesis using n w by (simp add: Validate_accepts passes_def)
qed

lemma make_pair_made:
  assumes split: "splitHostPort (gf_server f) = Some (host, port)" and legal: "legal_flags f"
    and env: "sound_entropy env" and keys: "reality_keys env f (raw_pair env f host port) = Inr (s, c)"
  shows "Validate s = (None, with_defaults s)" and "Validate c = (None, with_defaults c)"
    and "make_pair env f = Inr (host, with_defaults s, with_defaults c)"
proof -
  note f = reality_keys_fields [OF keys]
  have tok: "length (hex_bytes (ge_token env)) = 64"
    "\<not> containsAny (hex_bytes (ge_token env)) [CHR 0x0D, CHR 0x0A]"
    using hex_token_ok env by (simp_all add: sound_entropy_def)
  have listen: "splitHostPort (c_listen s) \<noteq> None"
    using splitHostPort_join [OF splitHostPort_port [OF split]] by (simp add: f server_of_def split: option.split)
  have codec: "w_codec (c_webrtc s) = gf_codec f" "w_codec (c_webrtc c) = gf_codec f"
    by (simp_all add: f server_of_def)
  have real: "r_uuid (c_reality s) \<noteq> [] \<and> r_server_name (c_reality s) \<noteq> [] \<and> r_short_id (c_reality s) \<noteq> [] \<and>
      r_fingerprint (c_reality s) \<noteq> [] \<and> r_fingerprint (c_reality c) \<noteq> [] \<and> r_private_key (c_reality s) \<noteq> [] \<and>
      r_target (c_reality s) \<noteq> [] \<and> r_password (c_reality c) \<noteq> []" if t: "gf_transport f = ''reality''"
  proof -
    obtain priv pub where k: "ge_x25519 env = Inr (priv, pub)" "r_private_key (c_reality s) = raw_url_base64 priv"
        "r_password (c_reality c) = raw_url_base64 pub" "r_target (c_reality s) = gf_target f"
        "r_uuid (c_reality s) = ge_uuid env" "r_short_id (c_reality s) = hex_bytes (ge_short env)"
        "r_server_name (c_reality s) = gf_sni f" "r_fingerprint (c_reality s) = ''chrome''"
        "r_fingerprint (c_reality c) = ''chrome''"
      using reality_keys_secrets(6) [OF keys t] by blast
    have "length (hex_bytes (ge_short env)) = 16" using env by (simp add: sound_entropy_def)
    then have "hex_bytes (ge_short env) \<noteq> []" by (metis list.size(3) zero_neq_numeral)
    moreover have "priv \<noteq> []" "pub \<noteq> []" "ge_uuid env \<noteq> []" using env k(1) by (simp_all add: sound_entropy_def)
    ultimately show ?thesis using legal t by (simp add: k base64_nonempty legal_flags_def)
  qed
  show vs: "Validate s = (None, with_defaults s)"
    by (rule generated_passes [where env = env and f = f and host = host and port = port])
      (use tok listen legal real codec in \<open>auto simp: f legal_flags_def server_of_def\<close>)
  show vc: "Validate c = (None, with_defaults c)"
    by (rule generated_passes [where env = env and f = f and host = host and port = port and d = zero_config])
      (use tok split legal real codec reality_keys_secrets(3-5) [OF keys] in
        \<open>auto simp: f legal_flags_def server_of_def\<close>)
  show "make_pair env f = Inr (host, with_defaults s, with_defaults c)"
    using split legal keys vs vc
    by (auto simp: make_pair_def raw_pair_def Let_def legal_flags_def)
qed

text \<open>What the two configurations have to agree on, and what only one of them may hold.\<close>

definition matched :: "string \<Rightarrow> config \<Rightarrow> config \<Rightarrow> bool" where
  "matched host s c \<longleftrightarrow>
    c_role s = ''server'' \<and> c_role c = ''client'' \<and> c_transport c = c_transport s \<and> c_token c = c_token s \<and>
    c_sip c = c_sip s \<and> w_codec (c_webrtc c) = w_codec (c_webrtc s) \<and>
    (\<exists>a b. a \<noteq> b \<and> parsePrefix (n_ipv4 (c_network s)) = Some (a, 30) \<and> parseAddr (n_peer4 (c_network c)) = Some a \<and>
      parsePrefix (n_ipv4 (c_network c)) = Some (b, 30) \<and> parseAddr (n_peer4 (c_network s)) = Some b) \<and>
    (\<exists>a b. a \<noteq> b \<and> parsePrefix (n_ipv6 (c_network s)) = Some (a, 126) \<and> parseAddr (n_peer6 (c_network c)) = Some a \<and>
      parsePrefix (n_ipv6 (c_network c)) = Some (b, 126) \<and> parseAddr (n_peer6 (c_network s)) = Some b) \<and>
    r_uuid (c_reality c) = r_uuid (c_reality s) \<and> r_short_id (c_reality c) = r_short_id (c_reality s) \<and>
    r_server_name (c_reality c) = r_server_name (c_reality s) \<and>
    t_server_name (c_tls c) = host \<and> t_ca (c_tls c) = t_cert (c_tls s) \<and>
    t_key (c_tls c) = [] \<and> r_private_key (c_reality c) = [] \<and> r_password (c_reality s) = []"

lemma pair_matched:
  assumes "reality_keys env f (raw_pair env f host port) = Inr (s, c)"
  shows "matched host (with_defaults s) (with_defaults c)"
proof -
  note f = reality_keys_fields [OF assms]
  have n: "c_network (with_defaults s) = c_network s" "c_network (with_defaults c) = c_network c"
    by (simp_all add: with_defaults_network f server_of_def client_of_def)
  have d: "default_network s = s" "default_network c = c"
    by (simp_all add: defaults_present f server_of_def client_of_def)
  have w: "w_codec (c_webrtc (with_defaults c)) = w_codec (c_webrtc (with_defaults s))"
    by (simp add: with_defaults_webrtc default_codec_def d f)
  have r: "r_private_key (c_reality (with_defaults x)) = r_private_key (c_reality x)"
    "r_password (c_reality (with_defaults x)) = r_password (c_reality x)"
    "r_uuid (c_reality (with_defaults x)) = r_uuid (c_reality x)"
    "r_short_id (c_reality (with_defaults x)) = r_short_id (c_reality x)"
    "r_server_name (c_reality (with_defaults x)) = r_server_name (c_reality x)" for x
    by (simp_all add: with_defaults_def default_fingerprint_def)
  have ne: "end6 1 \<noteq> end6 2" by (simp add: end6_def)
  show ?thesis
    unfolding matched_def
    by (simp add: n w r f reality_keys_secrets [OF assms] server_of_def client_of_def tunnel_addresses prefix_ends
        parse_ends ne)
qed

subsection \<open>Properties\<close>

lemma save_all_done:
  assumes "\<forall>p. ge_write env p = None" and "\<forall>c. ge_marshal env c = None"
  shows "save_all env dir fs = (None, map (\<lambda>(name, x). (SaveFile (path_join dir name) x private_file, None)) fs)"
  using assms by (induction fs) (auto simp: marshal_error_def split: gen_content.split)

text \<open>The operation that saves a file, and a log that stops at the first failure.\<close>

definition save_op :: "string \<Rightarrow> string \<times> gen_content \<Rightarrow> gen_op" where
  "save_op dir = (\<lambda>(name, x). SaveFile (path_join dir name) x private_file)"

definition stops_at_failure :: "gen_log \<Rightarrow> bool" where
  "stops_at_failure l \<longleftrightarrow> list_all (\<lambda>(op, e). e = None) (butlast l)"

lemma save_all_log:
  assumes "save_all env dir fs = (r, l)"
  shows "(\<exists>n. map fst l = take n (map (save_op dir) fs)) \<and> stops_at_failure l \<and>
    (r = None \<longleftrightarrow> length l = length fs \<and> list_all (\<lambda>(op, e). e = None) l)"
  using assms
proof (induction fs arbitrary: r l)
  case (Cons a fs)
  obtain name x where a: "a = (name, x)" by (cases a)
  obtain r' l' where rest: "save_all env dir fs = (r', l')" by (metis prod.exhaust)
  from Cons.IH [OF rest] obtain n where
    ih: "map fst l' = take n (map (save_op dir) fs)" "stops_at_failure l'"
      "r' = None \<longleftrightarrow> length l' = length fs \<and> list_all (\<lambda>(op, e). e = None) l'" by blast
  from Cons.prems a rest consider (marshal) "r \<noteq> None" "l = []"
    | (fail) e where "r \<noteq> None" "l = [(save_op dir a, Some e)]"
    | (ok) "r = r'" "l = (save_op dir a, None) # l'"
    by (auto simp: save_op_def Let_def split: option.splits)
  then show ?case
  proof cases
    case marshal
    then show ?thesis by (auto simp: stops_at_failure_def intro: exI [of _ 0])
  next
    case fail
    then show ?thesis by (auto simp: stops_at_failure_def intro: exI [of _ 1])
  next
    case ok
    have "map fst l = take (Suc n) (map (save_op dir) (a # fs))" using ok ih(1) by simp
    moreover have "stops_at_failure l" using ok ih(2) by (simp add: stops_at_failure_def)
    moreover have "r = None \<longleftrightarrow> length l = length (a # fs) \<and> list_all (\<lambda>(op, e). e = None) l" using ok ih(3) by simp
    ultimately show ?thesis by blast
  qed
qed (simp add: stops_at_failure_def)

text \<open>C36: What \<open>init\<close> leaves behind. When the pair cannot be made, or is not valid, nothing in the
  file system is touched. Otherwise the operations tried are an initial part of one plan, the new directory first, all
  within it and with private modes; the first that fails is the last; and \<open>generate\<close> reports success exactly when all five
  were done.\<close>

theorem generate_leaves:
  "case make_pair env f of
     Inl e \<Rightarrow> generate env f = (Some e, [])
   | Inr (host, server, client) \<Rightarrow> \<exists>cert key n r l. generate env f = (r, l) \<and> l \<noteq> [] \<and> stops_at_failure l \<and>
       map fst l = take n (MakeDir (gf_out f) private_dir #
         map (save_op (gf_out f)) (plan (ge_server_first env) cert key server client)) \<and>
       (r = None \<longleftrightarrow> length l = 5 \<and> list_all (\<lambda>(op, e). e = None) l)"
proof (cases "make_pair env f")
  case (Inl e)
  then show ?thesis by (simp add: generate_def)
next
  case (Inr b)
  obtain host server client where b: "b = (host, server, client)" by (cases b)
  let ?mk = "MakeDir (gf_out f) private_dir"
  let ?ops = "\<lambda>cert key. ?mk # map (save_op (gf_out f)) (plan (ge_server_first env) cert key server client)"
  have "\<exists>cert key n r l. generate env f = (r, l) \<and> l \<noteq> [] \<and> stops_at_failure l \<and> map fst l = take n (?ops cert key) \<and>
      (r = None \<longleftrightarrow> length l = 5 \<and> list_all (\<lambda>(op, e). e = None) l)"
  proof (cases "ge_mkdir env = None \<and> (\<exists>k. make_keys env host = Inr k)")
    case True
    then obtain cert key where k: "make_keys env host = Inr (cert, key)" by auto
    let ?plan = "plan (ge_server_first env) cert key server client"
    obtain r l where s: "save_all env (gf_out f) ?plan = (r, l)" by (metis prod.exhaust)
    from save_all_log [OF s] obtain n where
      n: "map fst l = take n (map (save_op (gf_out f)) ?plan)" "stops_at_failure l"
        "r = None \<longleftrightarrow> length l = length ?plan \<and> list_all (\<lambda>(op, e). e = None) l" by blast
    have g: "generate env f = (r, (?mk, None) # l)" using True k s Inr b by (simp add: generate_def Let_def)
    have "map fst ((?mk, None) # l) = take (Suc n) (?ops cert key)" using n(1) by simp
    moreover have "stops_at_failure ((?mk, None) # l)" using n(2) by (simp add: stops_at_failure_def)
    moreover have "length ?plan = 4" by (simp add: plan_def)
    with n(3) have "r = None \<longleftrightarrow> length ((?mk, None) # l) = 5 \<and> list_all (\<lambda>(op, e). e = None) ((?mk, None) # l)"
      by simp
    ultimately show ?thesis using g by blast
  next
    case False
    then obtain e x where g: "generate env f = (Some e, [(?mk, x)])"
      using Inr b by (cases "ge_mkdir env"; cases "make_keys env host") (simp_all add: generate_def Let_def)
    have "length [(?mk, x)] \<noteq> 5" by simp
    then show ?thesis
      by (intro exI [of _ "Pem [] []"] exI [of _ "1 :: nat"] exI [of _ "Some e"] exI [of _ "[(?mk, x)]"])
        (simp add: g stops_at_failure_def)
  qed
  then show ?thesis by (simp add: Inr b)
qed

text \<open>C22: \<open>init\<close> makes a pair that works. When the flags are legal and no library call fails,
  \<open>generate\<close> succeeds: it makes the directory and saves, with private modes and in this order,
  the certificate, its key and the two configurations; \<open>Validate\<close> accepts both as saved, and they
  match: same transport, token, codec and REALITY identifiers, each side's tunnel addresses the other's peers, for
  both families, the client trusting the server's certificate under the name it dials; and only the server's
  holds the private keys.\<close>

theorem generate_makes_a_pair:
  assumes "splitHostPort (gf_server f) = Some (host, port)" and "legal_flags f" and "sound_entropy env"
    and "gf_transport f = ''reality'' \<Longrightarrow> \<exists>kp. ge_x25519 env = Inr kp"
    and "make_keys env host = Inr (cert, key)" and "ge_mkdir env = None"
    and "\<forall>p. ge_write env p = None" and "\<forall>c. ge_marshal env c = None"
  shows "\<exists>server client. generate env f = (None, (MakeDir (gf_out f) private_dir, None) #
      map (\<lambda>(name, x). (SaveFile (path_join (gf_out f) name) x private_file, None))
        (plan (ge_server_first env) cert key server client)) \<and>
    Validate server = (None, server) \<and> Validate client = (None, client) \<and> matched host server client"
proof -
  obtain s c where keys: "reality_keys env f (raw_pair env f host port) = Inr (s, c)"
    using assms(4) by (fastforce simp: reality_keys_def raw_pair_def Let_def split: sum.splits)
  note made = make_pair_made [OF assms(1-3) keys]
  have "generate env f = (None, (MakeDir (gf_out f) private_dir, None) #
      map (\<lambda>(name, x). (SaveFile (path_join (gf_out f) name) x private_file, None))
        (plan (ge_server_first env) cert key (with_defaults s) (with_defaults c)))"
    by (simp add: generate_def made(3) assms(5,6) save_all_done [OF assms(7,8)])
  moreover have "Validate (with_defaults s) = (None, with_defaults s)" "Validate (with_defaults c) = (None, with_defaults c)"
    using made(1,2) by (simp_all add: Validate_accepts with_defaults_idem)
  ultimately show ?thesis using pair_matched [OF keys] by blast
qed

definition sample_env :: "unit gen_env" where
  "sample_env = \<lparr>ge_token = replicate 32 7, ge_short = replicate 8 9, ge_x25519 = Inr ([1, 2, 3], [4, 5, 6]),
    ge_uuid = ''c2c0'', ge_ecdsa = Inr (), ge_serial = Inr 1, ge_certificate = (\<lambda>t. Inr [1]), ge_pkcs8 = (\<lambda>k. Inr [2]),
    ge_marshal = (\<lambda>c. None), ge_mkdir = None, ge_write = (\<lambda>p. None), ge_server_first = True\<rparr>"

definition sample_flags :: gen_flags where
  "sample_flags = \<lparr>gf_out = ''lab'', gf_server = ''vpn.lan:8443'', gf_transport = ''reality'', gf_target = ''www.lan:443'',
    gf_sni = ''www.lan'', gf_dns_service = ''Wi-Fi'', gf_codec = ''vp8'', gf_sip_tls = False\<rparr>"

theorem generate_makes_a_pair_witness:
  "\<exists>server client. map (\<lambda>x. case fst x of SaveFile p (Json c) m \<Rightarrow> Some (p, c, m) | _ \<Rightarrow> None)
      (snd (generate sample_env sample_flags)) =
    [None, None, None, Some (''lab/server.json'', server, 384), Some (''lab/client.json'', client, 384)] \<and>
    matched ''vpn.lan'' server client"
proof -
  have split: "splitHostPort (gf_server sample_flags) = Some (''vpn.lan'', ''8443'')" by code_simp
  have keys: "make_keys sample_env ''vpn.lan'' = Inr (Pem ''CERTIFICATE'' [1], Pem ''PRIVATE KEY'' [2])"
    by (simp add: make_keys_def sample_env_def)
  have "legal_flags sample_flags" "sound_entropy sample_env"
    by (simp_all add: legal_flags_def sample_flags_def sound_entropy_def sample_env_def)
  with generate_makes_a_pair [OF split _ _ _ keys] obtain server client where
    g: "generate sample_env sample_flags = (None, (MakeDir (gf_out sample_flags) private_dir, None) #
      map (\<lambda>(name, x). (SaveFile (path_join (gf_out sample_flags) name) x private_file, None))
        (plan (ge_server_first sample_env) (Pem ''CERTIFICATE'' [1]) (Pem ''PRIVATE KEY'' [2]) server client))"
    and m: "matched ''vpn.lan'' server client"
    by (auto simp: sample_env_def)
  have p: "path_join ''lab'' ''server.json'' = ''lab/server.json''" "path_join ''lab'' ''client.json'' = ''lab/client.json''"
    by code_simp+
  have "gf_out sample_flags = ''lab''" "ge_server_first sample_env"
    by (simp_all add: sample_flags_def sample_env_def)
  with p m show ?thesis unfolding g by (auto simp: plan_def private_file_def)
qed

end
