(* ===== verification/Reality.thy ===== *)
theory Reality
  imports Transport Generate
begin

text \<open>
  \<open>internal/transport/reality.go\<close>: the Xray configuration the program builds, dialling and
  serving through an Xray instance, and the connection that closes the instance with it. Xray
  itself is a parameter: starting an instance and dialling through it may fail. What is opened
  and closed is a list of uses.
\<close>

subsection \<open>JSON\<close>

datatype json = JString string | JNumber int | JArray "json list" | JObject "(string \<times> json) list"

datatype json_step = Member string | Element nat

fun json_at :: "json \<Rightarrow> json_step list \<Rightarrow> json option" where
  "json_at j [] = Some j"
| "json_at (JObject ms) (Member k # p) = (case map_of ms k of None \<Rightarrow> None | Some j \<Rightarrow> json_at j p)"
| "json_at (JArray js) (Element i # p) = (if i < length js then json_at (js ! i) p else None)"
| "json_at j (s # p) = None"

datatype resource = Listener | Instance | Stream | PeerConn | Response | IdleConns

datatype reality_error =
    RealityAddress
  | RealityPort
  | RealityStart string
  | RealityDial string
  | RealityListen string
  | RealityAuth conn_error

subsection \<open>The configuration\<close>

definition reality_inbound :: "config \<Rightarrow> string \<Rightarrow> int \<Rightarrow> json" where
  "reality_inbound c host port =
    (let r = c_reality c
     in JObject [(''listen'', JString host), (''port'', JNumber port), (''protocol'', JString ''vless''),
         (''settings'', JObject [(''clients'', JArray [JObject [(''id'', JString (r_uuid r))]]),
            (''decryption'', JString ''none'')]),
         (''streamSettings'', JObject [(''network'', JString ''tcp''), (''security'', JString ''reality''),
            (''realitySettings'', JObject [(''target'', JString (r_target r)),
               (''serverNames'', JArray [JString (r_server_name r)]),
               (''privateKey'', JString (r_private_key r)), (''shortIds'', JArray [JString (r_short_id r)])])])])"

definition reality_outbound :: "config \<Rightarrow> string \<Rightarrow> int \<Rightarrow> json" where
  "reality_outbound c host port =
    (let r = c_reality c
     in JObject [(''protocol'', JString ''vless''),
         (''settings'', JObject [(''vnext'', JArray [JObject [(''address'', JString host), (''port'', JNumber port),
            (''users'', JArray [JObject [(''id'', JString (r_uuid r)), (''encryption'', JString ''none'')]])]])]),
         (''streamSettings'', JObject [(''network'', JString ''tcp''), (''security'', JString ''reality''),
            (''realitySettings'', JObject [(''serverName'', JString (r_server_name r)),
               (''password'', JString (r_password r)), (''shortId'', JString (r_short_id r)),
               (''fingerprint'', JString (r_fingerprint r))])])])"

definition realityJSON :: "config \<Rightarrow> string \<Rightarrow> reality_error + json" where
  "realityJSON c backend =
    (case splitHostPort (if c_role c = ''server'' then c_listen c else c_endpoint c) of
       None \<Rightarrow> Inl RealityAddress
     | Some (host, p) \<Rightarrow>
         (case atoi p of
            None \<Rightarrow> Inl RealityPort
          | Some port \<Rightarrow>
              let log = (''log'', JObject [(''loglevel'', JString ''warning'')])
              in Inr (JObject
                (if c_role c = ''server'' then
                   [log, (''inbounds'', JArray [reality_inbound c host port]),
                    (''outbounds'', JArray [JObject [(''protocol'', JString ''freedom''),
                       (''settings'', JObject [(''redirect'', JString backend)])]])]
                 else [log, (''outbounds'', JArray [reality_outbound c host port])]))))"

subsection \<open>Connections\<close>

text \<open>\<open>realityConn\<close>: the framed stream, and whether \<open>Close\<close> has been called.\<close>

record reality_conn =
  rl_net :: netconn
  rl_closed :: bool

definition reality_Close :: "reality_conn \<Rightarrow> reality_conn \<times> resource use list" where
  "reality_Close r = (if rl_closed r then (r, []) else (r\<lparr>rl_closed := True\<rparr>, [Closes Stream, Closes Instance]))"

text \<open>Xray, and the system's listener; \<open>ra_late\<close> tells whether the context of the authentication is
  done before the exchange is over, which closes the stream.\<close>

record reality_api =
  ra_listen :: "string + string"
  ra_start :: "json \<Rightarrow> string option"
  ra_dial :: "string + netconn"
  ra_late :: bool

definition dialReality :: "reality_api \<Rightarrow> config \<Rightarrow> (reality_error + reality_conn) \<times> resource use list" where
  "dialReality api c =
    (case realityJSON c [] of
       Inl e \<Rightarrow> (Inl e, [])
     | Inr b \<Rightarrow>
         (case ra_start api b of
            Some e \<Rightarrow> (Inl (RealityStart e), [])
          | None \<Rightarrow>
              (case ra_dial api of
                 Inl e \<Rightarrow> (Inl (RealityDial e), [Opens Instance, Closes Instance])
               | Inr n \<Rightarrow>
                   (let us = [Opens Instance, Opens Stream] @ (if ra_late api then [Closes Stream] else [])
                    in case authStream n (c_token c) False of
                         (Some e, n') \<Rightarrow> (Inl (RealityAuth e), us @ [Closes Stream, Closes Instance])
                       | (None, n') \<Rightarrow> (Inr \<lparr>rl_net = n', rl_closed = False\<rparr>, us)))))"

text \<open>What \<open>serveReality\<close> hands to \<open>serveStream\<close>: the listener's address and the function that
  authenticates a connection.\<close>

record serving =
  sv_addr :: string
  sv_auth :: "netconn \<Rightarrow> conn_error option \<times> netconn"

definition serveReality ::
    "reality_api \<Rightarrow> config \<Rightarrow> (reality_error + json \<times> serving) \<times> resource use list" where
  "serveReality api c =
    (case ra_listen api of
       Inl e \<Rightarrow> (Inl (RealityListen e), [])
     | Inr addr \<Rightarrow>
         (case realityJSON c addr of
            Inl e \<Rightarrow> (Inl e, [Opens Listener, Closes Listener])
          | Inr b \<Rightarrow>
              (case ra_start api b of
                 Some e \<Rightarrow> (Inl (RealityStart e), [Opens Listener, Closes Listener])
               | None \<Rightarrow> (Inr (b, \<lparr>sv_addr = addr, sv_auth = (\<lambda>n. authStream n (c_token c) True)\<rparr>),
                   [Opens Listener, Opens Instance, Closes Instance, Closes Listener]))))"

lemma dialReality_uses:
  "case dialReality api c of
     (Inl e, us) \<Rightarrow> open_after us = {}
   | (Inr p, us) \<Rightarrow> open_after us \<subseteq> {Instance, Stream} \<and> open_after (us @ snd (reality_Close p)) = {} \<and>
       \<not> rl_closed p"
  by (auto simp: dialReality_def reality_Close_def open_after_def use_step_def Let_def
      split: sum.splits option.splits prod.splits)

lemma serveReality_uses: "open_after (snd (serveReality api c)) = {}"
  by (auto simp: serveReality_def open_after_def use_step_def split: sum.splits option.splits)

subsection \<open>Properties\<close>

lemma make_pair_Inr:
  assumes "make_pair env f = Inr (host, server, client)"
  obtains port s c where "splitHostPort (gf_server f) = Some (host, port)"
    and "reality_keys env f (raw_pair env f host port) = Inr (s, c)"
    and "server = with_defaults s" and "client = with_defaults c"
proof -
  from assms obtain port s c where p: "splitHostPort (gf_server f) = Some (host, port)"
      "reality_keys env f (raw_pair env f host port) = Inr (s, c)"
      "Validate s = (None, server)" "Validate c = (None, client)"
    by (auto simp: make_pair_def raw_pair_def Let_def split: option.splits prod.splits if_splits sum.splits)
  then have "server = with_defaults s" "client = with_defaults c" by (simp_all add: Validate_accepts)
  with p(1,2) show ?thesis by (rule that)
qed

lemma with_defaults_reality:
  "r_fingerprint (c_reality c) \<noteq> [] \<Longrightarrow> c_reality (with_defaults c) = c_reality c"
  by (simp add: with_defaults_def default_fingerprint_def)

text \<open>The places of a server's and a client's Xray configuration.\<close>

definition server_reality :: "json \<Rightarrow> string \<Rightarrow> json option" where
  "server_reality inb k = json_at inb [Member ''streamSettings'', Member ''realitySettings'', Member k]"

definition client_peer :: "json \<Rightarrow> json_step list \<Rightarrow> json option" where
  "client_peer out p = json_at out (Member ''settings'' # Member ''vnext'' # Element 0 # p)"

text \<open>C23: The generated REALITY pair agrees. When \<open>generate\<close> makes a pair for REALITY and the port is a
  number, both sides get an Xray configuration. The server's has one inbound, which listens on that port and knows one
  client, by the UUID the client's only outbound names, with the server name and the short id
  the client uses, and the private key whose public half is the client's password; the client dials the address given to \<open>init\<close>. And every
  stream the server accepts goes to its backend: its only outbound redirects there.\<close>

theorem reality_pair:
  assumes "make_pair env f = Inr (host, server, client)" and "gf_transport f = ''reality''"
    and "splitHostPort (gf_server f) = Some (host, port)" and "atoi port = Some n"
  shows "\<exists>sj cj inb relay out priv pub. realityJSON server backend = Inr sj \<and> realityJSON client [] = Inr cj \<and>
    json_at sj [Member ''inbounds''] = Some (JArray [inb]) \<and> json_at inb [Member ''port''] = Some (JNumber n) \<and>
    json_at inb [Member ''settings'', Member ''clients''] = Some (JArray [JObject [(''id'', JString (ge_uuid env))]]) \<and>
    json_at cj [Member ''outbounds''] = Some (JArray [out]) \<and>
    client_peer out [Member ''address''] = Some (JString host) \<and> client_peer out [Member ''port''] = Some (JNumber n) \<and>
    client_peer out [Member ''users'', Element 0, Member ''id''] = Some (JString (ge_uuid env)) \<and>
    map_option (\<lambda>x. JArray [x]) (server_reality out ''serverName'') = server_reality inb ''serverNames'' \<and>
    map_option (\<lambda>x. JArray [x]) (server_reality out ''shortId'') = server_reality inb ''shortIds'' \<and>
    ge_x25519 env = Inr (priv, pub) \<and> server_reality inb ''privateKey'' = Some (JString (raw_url_base64 priv)) \<and>
    server_reality out ''password'' = Some (JString (raw_url_base64 pub)) \<and>
    json_at sj [Member ''outbounds''] = Some (JArray [relay]) \<and> json_at relay [Member ''protocol''] = Some (JString ''freedom'') \<and>
    json_at relay [Member ''settings'', Member ''redirect''] = Some (JString backend)"
proof -
  obtain s c where keys: "reality_keys env f (raw_pair env f host port) = Inr (s, c)"
    and w: "server = with_defaults s" "client = with_defaults c"
    using make_pair_Inr [OF assms(1)] assms(3) by (metis option.inject prod.inject)
  note f = reality_keys_fields [OF keys]
  obtain priv pub where r: "ge_x25519 env = Inr (priv, pub)" "r_private_key (c_reality s) = raw_url_base64 priv"
      "r_password (c_reality c) = raw_url_base64 pub" "r_uuid (c_reality s) = ge_uuid env"
      "r_fingerprint (c_reality s) = ''chrome''" "r_fingerprint (c_reality c) = ''chrome''"
    using reality_keys_secrets(6) [OF keys assms(2)] by blast
  have cr: "c_reality server = c_reality s" "c_reality client = c_reality c"
    by (simp_all add: w with_defaults_reality r)
  obtain wild where listen: "splitHostPort (c_listen server) = Some (wild, port)"
    using splitHostPort_join [OF splitHostPort_port [OF assms(3)]]
    by (cases "case parseIP host of Some ip \<Rightarrow> is4in6 ip | None \<Rightarrow> True")
      (auto simp: w f server_of_def split: option.splits)
  have sj: "realityJSON server backend = Inr (JObject [(''log'', JObject [(''loglevel'', JString ''warning'')]),
      (''inbounds'', JArray [reality_inbound server wild n]),
      (''outbounds'', JArray [JObject [(''protocol'', JString ''freedom''),
        (''settings'', JObject [(''redirect'', JString backend)])]])])"
    using listen assms(4) by (simp add: realityJSON_def w f)
  have cj: "realityJSON client [] = Inr (JObject [(''log'', JObject [(''loglevel'', JString ''warning'')]),
      (''outbounds'', JArray [reality_outbound client host n])])"
    using assms(3,4) by (simp add: realityJSON_def w f)
  show ?thesis
    unfolding sj cj
    by (simp add: client_peer_def server_reality_def reality_inbound_def reality_outbound_def Let_def cr r
        reality_keys_secrets(3-5) [OF keys])
qed

theorem reality_pair_witness:
  "\<exists>server client sj. make_pair sample_env sample_flags = Inr (''vpn.lan'', server, client) \<and>
    realityJSON server ''127.0.0.1:4000'' = Inr sj \<and>
    json_at sj [Member ''outbounds'', Element 0, Member ''settings'', Member ''redirect''] = Some (JString ''127.0.0.1:4000'')"
proof -
  have split: "splitHostPort (gf_server sample_flags) = Some (''vpn.lan'', ''8443'')" and port: "atoi ''8443'' = Some 8443"
    by code_simp+
  have t: "gf_transport sample_flags = ''reality''" by (simp add: sample_flags_def)
  have "\<exists>s c. reality_keys sample_env sample_flags (raw_pair sample_env sample_flags ''vpn.lan'' ''8443'') = Inr (s, c)"
    by (simp add: reality_keys_def raw_pair_def Let_def t sample_env_def)
  moreover have "legal_flags sample_flags" "sound_entropy sample_env"
    by (simp_all add: legal_flags_def sample_flags_def sound_entropy_def sample_env_def)
  ultimately obtain server client where m: "make_pair sample_env sample_flags = Inr (''vpn.lan'', server, client)"
    using make_pair_made(3) [OF split] by blast
  from reality_pair [OF m t split port, of "''127.0.0.1:4000''"] obtain sj relay where
    sj: "realityJSON server ''127.0.0.1:4000'' = Inr sj" "json_at sj [Member ''outbounds''] = Some (JArray [relay])"
      "json_at relay [Member ''settings'', Member ''redirect''] = Some (JString ''127.0.0.1:4000'')"
    by blast
  then obtain ms where "sj = JObject ms" by (cases sj) simp_all
  with sj have "json_at sj [Member ''outbounds'', Element 0, Member ''settings'', Member ''redirect''] =
      Some (JString ''127.0.0.1:4000'')"
    by (auto split: option.splits)
  with m sj(1) show ?thesis by blast
qed

end
