(* ===== verification/Dial.thy ===== *)
theory Dial
  imports Reality RtcOffer SipSession
begin

text \<open>
  \<open>Dial\<close> and \<open>Serve\<close> of \<open>internal/transport/transport.go\<close> with their TLS configurations, and
  \<open>localSDP\<close> and \<open>dialWebRTC\<close> of \<open>internal/transport/webrtc.go\<close>: how each transport is set up,
  on every path. TLS, HTTP, sockets and the WebRTC library are parameters that may fail at every call; what is
  opened and closed on the way is a list of uses. The servers' loops are in \<open>Serve\<close> and \<open>RtcOffer\<close>.
\<close>

subsection \<open>TLS\<close>

record ('p, 'k) tls_config =
  tc_min :: nat
  tc_name :: string
  tc_roots :: "'p option"
  tc_cert :: "'k option"

text \<open>\<open>os.ReadFile\<close>, \<open>AppendCertsFromPEM\<close> on an empty pool (\<open>None\<close> when it finds no certificate), and
  \<open>LoadX509KeyPair\<close>.\<close>

record ('p, 'k) tls_api =
  ta_read :: "string \<Rightarrow> string + byte list"
  ta_pool :: "byte list \<Rightarrow> 'p option"
  ta_pair :: "string \<Rightarrow> string \<Rightarrow> string + 'k"

datatype tls_error = TLSFile string | InvalidCA

definition TLS12 :: nat where
  "TLS12 = 0x0303"

definition clientTLS :: "('p, 'k) tls_api \<Rightarrow> config \<Rightarrow> tls_error + ('p, 'k) tls_config" where
  "clientTLS ta c =
    (let tc = \<lparr>tc_min = TLS12, tc_name = t_server_name (c_tls c), tc_roots = None, tc_cert = None\<rparr>
     in if t_ca (c_tls c) \<noteq> [] then
          (case ta_read ta (t_ca (c_tls c)) of
             Inl e \<Rightarrow> Inl (TLSFile e)
           | Inr b \<Rightarrow> (case ta_pool ta b of None \<Rightarrow> Inl InvalidCA | Some roots \<Rightarrow> Inr (tc\<lparr>tc_roots := Some roots\<rparr>)))
        else Inr tc)"

definition serverTLS :: "('p, 'k) tls_api \<Rightarrow> config \<Rightarrow> tls_error + ('p, 'k) tls_config" where
  "serverTLS ta c =
    (case ta_pair ta (t_cert (c_tls c)) (t_key (c_tls c)) of
       Inl e \<Rightarrow> Inl (TLSFile e)
     | Inr pair \<Rightarrow> Inr \<lparr>tc_min = TLS12, tc_name = [], tc_roots = None, tc_cert = Some pair\<rparr>)"

datatype dial_error =
    DialTLS tls_error
  | DialLibrary string
  | GatheringTimeout
  | DialContext string
  | BadStatus nat
  | DialWait rtc_error
  | DialSip sip_error
  | DialReality reality_error
  | UnknownTransport

subsection \<open>localSDP\<close>

datatype gathering = Gathered | GatherContext string | GatherTimer

record sdp_api =
  sa_create :: "bool \<Rightarrow> string + session_description"
  sa_set_local :: "session_description \<Rightarrow> string option"
  sa_gather :: gathering
  sa_local :: "session_description \<Rightarrow> session_description"

text \<open>\<open>sa_gather\<close> is the case the \<open>select\<close> takes.\<close>

definition localSDP :: "sdp_api \<Rightarrow> bool \<Rightarrow> dial_error + session_description" where
  "localSDP api offer =
    (case sa_create api offer of
       Inl e \<Rightarrow> Inl (DialLibrary e)
     | Inr s \<Rightarrow>
         (case sa_set_local api s of
            Some e \<Rightarrow> Inl (DialLibrary e)
          | None \<Rightarrow>
              (case sa_gather api of
                 Gathered \<Rightarrow> Inr (sa_local api s)
               | GatherContext e \<Rightarrow> Inl (DialContext e)
               | GatherTimer \<Rightarrow> Inl GatheringTimeout)))"

subsection \<open>dialWebRTC\<close>

record http_request =
  h_method :: string
  h_url :: string
  h_authorization :: string
  h_content_type :: string
  h_body :: "byte list"

text \<open>\<open>wa_do\<close> is the HTTP client: an error, or a status and a body. \<open>wa_events\<close> are the states the
  peer connection reports until \<open>wait\<close> returns.\<close>

record ('p, 'k) webrtc_api =
  wa_peer :: peer_api
  wa_sdp :: sdp_api
  wa_marshal :: "session_description \<Rightarrow> string + byte list"
  wa_new_request :: "string \<Rightarrow> string option"
  wa_do :: "http_request \<Rightarrow> ('p, 'k) tls_config \<Rightarrow> string + nat \<times> byte list"
  wa_decode :: "byte list \<Rightarrow> string + session_description"
  wa_set_remote :: "session_description \<Rightarrow> string option"
  wa_events :: "peer_state list"
  wa_choice :: wait_case
  wa_ctx :: "string option"

fun peer_events :: "peer_state list \<Rightarrow> rtc \<Rightarrow> rtc \<times> resource use list" where
  "peer_events [] p = (p, [])"
| "peer_events (st # sts) p =
     (case on_state st p of (closes, p') \<Rightarrow>
        case peer_events sts (if closes then rtc_Close p' else p') of (p'', us) \<Rightarrow>
          (p'', (if closes then [Closes PeerConn] else []) @ us))"

definition signal_request :: "config \<Rightarrow> byte list \<Rightarrow> http_request" where
  "signal_request c b =
    \<lparr>h_method = ''POST'', h_url = ''https://'' @ c_endpoint c @ ''/offer'', h_authorization = ''Bearer '' @ c_token c,
     h_content_type = ''application/json'', h_body = b\<rparr>"

text \<open>The signalling: the answer, and the uses of the HTTP client.\<close>

definition signal ::
    "('p, 'k) tls_api \<Rightarrow> ('p, 'k) webrtc_api \<Rightarrow> config \<Rightarrow> (dial_error + session_description) \<times> resource use list" where
  "signal ta api c =
    (case localSDP (wa_sdp api) True of Inl e \<Rightarrow> (Inl e, [])
     | Inr offer \<Rightarrow> (case wa_marshal api offer of Inl e \<Rightarrow> (Inl (DialLibrary e), [])
     | Inr b \<Rightarrow> (case wa_new_request api (h_url (signal_request c b)) of Some e \<Rightarrow> (Inl (DialLibrary e), [])
     | None \<Rightarrow> (case clientTLS ta c of Inl e \<Rightarrow> (Inl (DialTLS e), [])
     | Inr tc \<Rightarrow> (case wa_do api (signal_request c b) tc of
         Inl e \<Rightarrow> (Inl (DialLibrary e), [Opens IdleConns, Closes IdleConns])
       | Inr (code, answer) \<Rightarrow>
           (if code \<noteq> 200 then Inl (BadStatus code)
            else case wa_decode api (take 65536 answer) of Inl e \<Rightarrow> Inl (DialLibrary e) | Inr d \<Rightarrow> Inr d,
            [Opens IdleConns, Opens Response, Closes Response, Closes IdleConns]))))))"

text \<open>The response and the idle connections are closed when \<open>dialWebRTC\<close> returns, before the peer.\<close>

definition dialWebRTC ::
    "('p, 'k) tls_api \<Rightarrow> ('p, 'k) webrtc_api \<Rightarrow> config \<Rightarrow> (dial_error + rtc) \<times> resource use list" where
  "dialWebRTC ta api c =
    (case newPeer (wa_peer api) PeerConn c False of
       (Inl e, us) \<Rightarrow> (Inl (DialLibrary e), us)
     | (Inr p, us) \<Rightarrow>
         (case signal ta api c of
            (Inl e, vs) \<Rightarrow> (Inl e, us @ vs @ [Closes PeerConn])
          | (Inr answer, vs) \<Rightarrow>
              (case remote (wa_set_remote api answer) (sd_sdp answer) p of
                 (Some e, p1) \<Rightarrow> (Inl (DialLibrary e), us @ vs @ [Closes PeerConn])
               | (None, p1) \<Rightarrow>
                   (case peer_events (wa_events api) p1 of (p2, ws) \<Rightarrow>
                      case rtc_wait (wa_choice api) (wa_ctx api) p2 of
                        Some e \<Rightarrow> (Inl (DialWait e), us @ ws @ vs @ [Closes PeerConn])
                      | None \<Rightarrow> (Inr p2, us @ ws @ vs)))))"

subsection \<open>Dial\<close>

text \<open>A connection for SIP, over TLS when there is a configuration for it, with the local address;
  the rest is what \<open>newSIP\<close> and \<open>clientAuth\<close> draw and depend on. \<open>si_late\<close> tells whether the
  context is done while the authentication runs, which closes the connection.\<close>

record ('p, 'k) sip_api =
  si_dial :: "('p, 'k) tls_config option \<Rightarrow> string \<Rightarrow> string + netconn \<times> string"
  si_uni :: "string \<Rightarrow> string"
  si_ord :: "headers \<Rightarrow> headers"
  si_crypto :: crypto
  si_id :: string
  si_random :: "string \<times> string \<times> string"
  si_late :: bool

definition maybe_TLS ::
    "bool \<Rightarrow> (tls_error + ('p, 'k) tls_config) \<Rightarrow> tls_error + ('p, 'k) tls_config option" where
  "maybe_TLS secure r = (if secure then (case r of Inl e \<Rightarrow> Inl e | Inr tc \<Rightarrow> Inr (Some tc)) else Inr None)"

definition dialSIP ::
    "('p, 'k) tls_api \<Rightarrow> ('p, 'k) sip_api \<Rightarrow> config \<Rightarrow> (dial_error + sip_conn) \<times> resource use list" where
  "dialSIP ta api c =
    (case maybe_TLS (s_tls (c_sip c)) (clientTLS ta c) of
       Inl e \<Rightarrow> (Inl (DialTLS e), [])
     | Inr tc \<Rightarrow>
         (case si_dial api tc (c_endpoint c) of
            Inl e \<Rightarrow> (Inl (DialLibrary e), [])
          | Inr (nc, la) \<Rightarrow>
              (let us = Opens Stream # (if si_late api then [Closes Stream] else [])
               in case clientAuth (si_uni api) (si_ord api) (si_crypto api) (si_random api)
                      (newSIP nc la (c_token c) (s_tls (c_sip c)) (si_id api)) of
                    (Some e, s) \<Rightarrow> (Inl (DialSip e), us @ [Closes Stream])
                  | (None, s) \<Rightarrow> (Inr s, us))))"

datatype conn = RtcPacketConn rtc | RealityPacketConn reality_conn | SipPacketConn sip_conn

fun conn_Close :: "conn \<Rightarrow> resource use list" where
  "conn_Close (RtcPacketConn p) = (if r_done p then [] else [Closes PeerConn])"
| "conn_Close (RealityPacketConn r) = snd (reality_Close r)"
| "conn_Close (SipPacketConn s) = (if closed s then [] else [Closes Stream])"

record ('p, 'k) dial_api =
  da_tls :: "('p, 'k) tls_api"
  da_webrtc :: "('p, 'k) webrtc_api"
  da_reality :: reality_api
  da_sip :: "('p, 'k) sip_api"

definition Dial :: "('p, 'k) dial_api \<Rightarrow> config \<Rightarrow> (dial_error + conn) \<times> resource use list" where
  "Dial api c =
    (if c_transport c = ''webrtc'' then
       apfst (map_sum (\<lambda>e. e) RtcPacketConn) (dialWebRTC (da_tls api) (da_webrtc api) c)
     else if c_transport c = ''reality'' then
       apfst (map_sum DialReality RealityPacketConn) (dialReality (da_reality api) c)
     else if c_transport c = ''sip'' then
       apfst (map_sum (\<lambda>e. e) SipPacketConn) (dialSIP (da_tls api) (da_sip api) c)
     else (Inl UnknownTransport, []))"

subsection \<open>Serve\<close>

text \<open>What the server's loops are started with: the TLS configuration of the signalling server; the Xray
  configuration and the local listener; or the SIP listener, and how a connection with its local address, an id
  and a challenge is authenticated.\<close>

datatype ('p, 'k) started =
    Signalling "('p, 'k) tls_config"
  | RealityServer json serving
  | SipServer "('p, 'k) tls_config option"
      "netconn \<times> string \<Rightarrow> string \<Rightarrow> string \<Rightarrow> sip_error option \<times> sip_conn"

record serve_api =
  ve_listen :: "string \<Rightarrow> string option"
  ve_uni :: "string \<Rightarrow> string"
  ve_ord :: "headers \<Rightarrow> headers"
  ve_crypto :: crypto

text \<open>The function \<open>Serve\<close> gives \<open>serveStream\<close> for SIP.\<close>

definition sip_auth ::
    "serve_api \<Rightarrow> config \<Rightarrow> netconn \<times> string \<Rightarrow> string \<Rightarrow> string \<Rightarrow> sip_error option \<times> sip_conn" where
  "sip_auth api c = (\<lambda>(nc, la) i challenge.
    serverAuth (ve_uni api) (ve_ord api) (ve_crypto api) challenge
      (newSIP nc la (c_token c) (s_tls (c_sip c)) i))"

definition serveWebRTC_start ::
    "('p, 'k) tls_api \<Rightarrow> serve_api \<Rightarrow> config \<Rightarrow> (dial_error + ('p, 'k) started) \<times> resource use list" where
  "serveWebRTC_start ta api c =
    (case serverTLS ta c of
       Inl e \<Rightarrow> (Inl (DialTLS e), [])
     | Inr tc \<Rightarrow>
         (case ve_listen api (c_listen c) of
            Some e \<Rightarrow> (Inl (DialLibrary e), [])
          | None \<Rightarrow> (Inr (Signalling tc), [Opens Listener, Closes Listener])))"

definition serveSIP_start ::
    "('p, 'k) tls_api \<Rightarrow> serve_api \<Rightarrow> config \<Rightarrow> (dial_error + ('p, 'k) started) \<times> resource use list" where
  "serveSIP_start ta api c =
    (case maybe_TLS (s_tls (c_sip c)) (serverTLS ta c) of
       Inl e \<Rightarrow> (Inl (DialTLS e), [])
     | Inr tc \<Rightarrow>
         (case ve_listen api (c_listen c) of
            Some e \<Rightarrow> (Inl (DialLibrary e), [])
          | None \<Rightarrow> (Inr (SipServer tc (sip_auth api c)), [Opens Listener, Closes Listener])))"

text \<open>The uses are those of the whole call: the listener is closed by \<open>serveStream\<close>, or by a
  deferred call.\<close>

definition Serve ::
    "('p, 'k) tls_api \<Rightarrow> serve_api \<Rightarrow> reality_api \<Rightarrow> config \<Rightarrow>
      (dial_error + ('p, 'k) started) \<times> resource use list" where
  "Serve ta api ra c =
    (if c_transport c = ''webrtc'' then serveWebRTC_start ta api c
     else if c_transport c = ''reality'' then
       apfst (map_sum DialReality (\<lambda>(b, sv). RealityServer b sv)) (serveReality ra c)
     else if c_transport c = ''sip'' then serveSIP_start ta api c
     else (Inl UnknownTransport, []))"

subsection \<open>What is left open\<close>

lemma peer_events_done:
  assumes "peer_events sts p = (q, us)"
  shows "set us \<subseteq> {Closes PeerConn} \<and> (r_done q \<longleftrightarrow> r_done p \<or> us \<noteq> []) \<and> r_remotes q = r_remotes p"
  using assms
proof (induction sts arbitrary: p q us)
  case (Cons st sts)
  obtain closes p' where o: "on_state st p = (closes, p')" by (metis prod.exhaust)
  then have p': "r_done p' = r_done p" "r_remotes p' = r_remotes p"
    by (auto simp: on_state_def split: peer_state.splits)
  obtain q' vs where r: "peer_events sts (if closes then rtc_Close p' else p') = (q', vs)" by (metis prod.exhaust)
  from Cons.prems o r have "q = q'" "us = (if closes then [Closes PeerConn] else []) @ vs" by simp_all
  with Cons.IH [OF r] p' show ?case by (auto simp: rtc_Close_def)
qed simp

lemma signal_uses:
  "snd (signal ta api c) \<in> {[], [Opens IdleConns, Closes IdleConns],
    [Opens IdleConns, Opens Response, Closes Response, Closes IdleConns]}"
  by (simp add: signal_def split: sum.split option.split prod.split)

lemma signal_closed:
  assumes "signal ta api c = (r, vs)"
  shows "open_after vs = {}" and "Closes PeerConn \<notin> set vs"
  using signal_uses [of ta api c] assms by (auto simp: open_after_def use_step_def)

lemma open_after_closing: "set ws \<subseteq> {Closes r} \<Longrightarrow> open_after ws = {}"
  by (induction ws rule: rev_induct) auto

lemma dialWebRTC_uses:
  "case dialWebRTC ta api c of
     (Inl e, us) \<Rightarrow> open_after us = {}
   | (Inr p, us) \<Rightarrow> open_after us \<subseteq> {PeerConn} \<and> (r_done p \<longrightarrow> open_after us = {})"
proof -
  obtain r us where np: "newPeer (wa_peer api) PeerConn c False = (r, us)" by (metis prod.exhaust)
  obtain r2 vs where sg: "signal ta api c = (r2, vs)" by (metis prod.exhaust)
  note vs = signal_closed [OF sg]
  have u: "case r of Inl e \<Rightarrow> open_after us = {} | Inr p \<Rightarrow> us = [Opens PeerConn] \<and> \<not> r_done p"
    using newPeer_uses [where api = "wa_peer api" and pc = PeerConn and c = c and loopback = False] np
    by (auto simp: newPeer_def new_rtc_def Let_def split: sum.splits option.splits)
  show ?thesis
  proof (cases r)
    case (Inl e)
    with np u show ?thesis by (simp add: dialWebRTC_def)
  next
    case (Inr p)
    with u have us: "us = [Opens PeerConn]" and nd: "\<not> r_done p" by simp_all
    have closed: "open_after ([Opens PeerConn] @ xs @ vs @ [Closes PeerConn]) = {}"
      if "open_after xs = {}" for xs
      using vs that by (simp add: open_after_append)
    show ?thesis
    proof (cases r2)
      case (Inl e)
      with np Inr us sg closed [of "[]"] show ?thesis by (simp add: dialWebRTC_def)
    next
      case (Inr answer)
      obtain x p1 where rm: "remote (wa_set_remote api answer) (sd_sdp answer) p = (x, p1)" by (metis prod.exhaust)
      then have nd1: "\<not> r_done p1" using nd by (auto simp: remote_def)
      obtain p2 ws where ev: "peer_events (wa_events api) p1 = (p2, ws)" by (metis prod.exhaust)
      note w = peer_events_done [OF ev]
      then have w0: "open_after ws = {}" by (intro open_after_closing [where r = PeerConn]) simp
      have "r_done p2 \<longrightarrow> Closes PeerConn \<in> set ws" using w nd1 by (cases ws) auto
      then have ok: "open_after ([Opens PeerConn] @ ws @ vs) \<subseteq> {PeerConn} \<and>
          (r_done p2 \<longrightarrow> open_after ([Opens PeerConn] @ ws @ vs) = {})"
        using vs w0 by (auto simp: open_after_append)
      show ?thesis
        using np \<open>r = Inr p\<close> us sg Inr rm ev closed [of "[]"] closed [OF w0] ok
        by (auto simp: dialWebRTC_def split: option.splits)
    qed
  qed
qed

lemma clientAuth_closed: "closed (snd (clientAuth uni ord cr rnd s)) = closed s"
proof -
  have rq: "closed s' = closed s" if "request ord br v ex b s = ((x, y), s')" for br v ex b x y and s s' :: sip_conn
    using that by (auto simp: request_def Let_def split: prod.splits)
  have rm: "closed s' = closed s" if "read_message uni s = (x, s')" for x and s s' :: sip_conn
    using that by (auto simp: read_message_def split: prod.splits)
  have sk: "closed (snd (setKey cr ch b s)) = closed s" for ch b and s :: sip_conn
    by (auto simp: setKey_def Let_def split: sum.splits)
  show ?thesis
    by (auto simp: clientAuth_def Let_def sk dest!: rq rm split: prod.splits option.splits sum.splits)
qed

lemma dialSIP_uses:
  "case dialSIP ta api c of
     (Inl e, us) \<Rightarrow> open_after us = {}
   | (Inr s, us) \<Rightarrow> open_after us \<subseteq> {Stream} \<and> \<not> closed s"
proof -
  have "\<not> closed s" if "clientAuth uni ord cr rnd (newSIP n lo t b i) = (x, s)" for uni ord cr rnd n lo t b i x s
    using clientAuth_closed [of uni ord cr rnd "newSIP n lo t b i"] that by (simp add: newSIP_def)
  then show ?thesis
    by (auto simp: dialSIP_def open_after_def use_step_def Let_def split: sum.splits prod.splits option.splits)
qed

lemma Serve_uses: "open_after (snd (Serve ta api ra c)) = {}"
  using serveReality_uses [of ra c]
  by (auto simp: Serve_def serveWebRTC_start_def serveSIP_start_def open_after_def use_step_def apfst_def map_prod_def
      split: sum.splits option.splits prod.splits)

subsection \<open>Properties\<close>

text \<open>The resource a connection stands for, and those it holds besides.\<close>

fun conn_holds :: "conn \<Rightarrow> resource set" where
  "conn_holds (RtcPacketConn p) = {PeerConn}"
| "conn_holds (RealityPacketConn r) = {Instance, Stream}"
| "conn_holds (SipPacketConn s) = {Stream}"

text \<open>C17: Setting up a transport leaks nothing. Whatever fails, and whenever, \<open>Dial\<close> returns an error with everything
  it opened closed again: sockets, peer connections, Xray instances, HTTP responses and idle connections. When it
  returns a connection, nothing is open but what that connection holds, and its \<open>Close\<close> closes all of it. \<open>Serve\<close>, too, has closed
  the listener and the instance when it returns.\<close>

theorem dial_no_leak:
  "(case Dial api c of
     (Inl e, us) \<Rightarrow> open_after us = {}
   | (Inr p, us) \<Rightarrow> open_after us \<subseteq> conn_holds p \<and> open_after (us @ conn_Close p) = {}) \<and>
   open_after (snd (Serve ta va ra d)) = {}"
proof -
  have "case Dial api c of
     (Inl e, us) \<Rightarrow> open_after us = {}
   | (Inr p, us) \<Rightarrow> open_after us \<subseteq> conn_holds p \<and> open_after (us @ conn_Close p) = {}"
    using dialWebRTC_uses [of "da_tls api" "da_webrtc api" c] dialReality_uses [of "da_reality api" c]
      dialSIP_uses [of "da_tls api" "da_sip api" c]
    by (auto simp: Dial_def apfst_def map_prod_def open_after_append split: prod.splits sum.splits if_splits)
  then show ?thesis using Serve_uses by blast
qed

text \<open>A request as the server's handler sees it, whose body decodes to \<open>d\<close>.\<close>

definition received :: "session_description option \<Rightarrow> http_request \<Rightarrow> offer_request" where
  "received d r = \<lparr>q_method = h_method r, q_authorization = h_authorization r, q_body = d\<rparr>"

lemma signal_answer:
  assumes "signal ta api c = (Inr answer, vs)"
  obtains offer b tc body where "localSDP (wa_sdp api) True = Inr offer" and "wa_marshal api offer = Inr b"
    and "clientTLS ta c = Inr tc" and "wa_do api (signal_request c b) tc = Inr (200, body)"
    and "wa_decode api (take 65536 body) = Inr answer"
  using assms
  by (auto simp: signal_def split: sum.splits option.splits prod.splits if_splits)

lemma dialWebRTC_Inr:
  assumes "dialWebRTC ta api c = (Inr q, us)"
  obtains answer p vs ws where "signal ta api c = (Inr answer, vs)" and "wa_set_remote api answer = None"
    and "peer_events (wa_events api) (snd (remote None (sd_sdp answer) (new_rtc p))) = (q, ws)"
    and "rtc_wait (wa_choice api) (wa_ctx api) q = None"
proof -
  obtain r us0 where np: "newPeer (wa_peer api) PeerConn c False = (r, us0)" by (metis prod.exhaust)
  obtain r2 vs where sg: "signal ta api c = (r2, vs)" by (metis prod.exhaust)
  obtain p where p: "r = Inr p" using assms np by (cases r) (simp_all add: dialWebRTC_def)
  with np have p0: "p = new_rtc (track_sched (wa_peer api))"
    by (auto simp: newPeer_def Let_def split: option.splits)
  obtain answer where an: "r2 = Inr answer" using assms np p sg by (cases r2) (simp_all add: dialWebRTC_def)
  obtain p1 where rm: "remote (wa_set_remote api answer) (sd_sdp answer) p = (None, p1)"
    using assms np p sg an
    by (cases "remote (wa_set_remote api answer) (sd_sdp answer) p") (auto simp: dialWebRTC_def split: option.splits)
  obtain p2 ws where ev: "peer_events (wa_events api) p1 = (p2, ws)" by (metis prod.exhaust)
  have "rtc_wait (wa_choice api) (wa_ctx api) p2 = None" "p2 = q"
    using assms np p sg an rm ev by (auto simp: dialWebRTC_def split: option.splits)
  moreover have "wa_set_remote api answer = None" "p1 = snd (remote None (sd_sdp answer) p)"
    using rm by (auto simp: remote_def)
  ultimately show ?thesis using that [of answer vs "track_sched (wa_peer api)" ws] sg an ev p0 by simp
qed

lemma clientTLS_Inr:
  assumes "clientTLS ta c = Inr tc"
  shows "tc_min tc = TLS12" and "tc_name tc = t_server_name (c_tls c)"
    and "t_ca (c_tls c) \<noteq> [] \<Longrightarrow> \<exists>pem roots. ta_read ta (t_ca (c_tls c)) = Inr pem \<and> ta_pool ta pem = Some roots \<and>
      tc_roots tc = Some roots"
  using assms by (auto simp: clientTLS_def Let_def split: if_splits sum.splits option.splits)


definition sample_tls :: "(nat, nat) tls_api" where
  "sample_tls = \<lparr>ta_read = (\<lambda>f. Inr [1]), ta_pool = (\<lambda>b. Some 7), ta_pair = (\<lambda>x y. Inr 1)\<rparr>"

definition sample_webrtc :: "(nat, nat) webrtc_api" where
  "sample_webrtc = \<lparr>wa_peer = \<lparr>register_codec = None, set_ports = (\<lambda>a b. None), new_connection = (\<lambda>pl. None),
      new_track = None, add_track = None, track_sched = []\<rparr>,
    wa_sdp = \<lparr>sa_create = (\<lambda>o'. Inr \<lparr>sd_type = ''offer'', sd_sdp = ''v=0''\<rparr>), sa_set_local = (\<lambda>s. None),
      sa_gather = Gathered, sa_local = (\<lambda>s. s)\<rparr>,
    wa_marshal = (\<lambda>d. Inr (bytes_of (sd_sdp d))), wa_new_request = (\<lambda>u. None),
    wa_do = (\<lambda>r tc. if h_authorization r = ''Bearer '' @ c_token sample_config then Inr (200, [1]) else Inr (401, [])),
    wa_decode = (\<lambda>b. Inr \<lparr>sd_type = ''answer'', sd_sdp = ''a=candidate:1 1 udp 1 192.0.2.9 9 typ host''\<rparr>),
    wa_set_remote = (\<lambda>d. None), wa_events = [Connected], wa_choice = WaitReady, wa_ctx = None\<rparr>"


end
