(* ===== verification/SelfTest.thy ===== *)
theory SelfTest
  imports Transport "HOL-Library.Monad_Syntax"
begin

text \<open>
  The two self-tests of \<open>cmd/tunnel-lab/main.go\<close>: \<open>echo\<close> on the server and \<open>probe\<close> on the
  client, over any packet connection, and what they do over a framed stream. A read that blocks for ever is
  \<open>None\<close>. The timeout of \<open>probe\<close> closes the connection, so it appears as the error of a read
  or a write; its summary is left out.
\<close>

subsection \<open>echo and probe\<close>

partial_function (option) echo ::
    "('s \<Rightarrow> (('e + packet) \<times> 's) option) \<Rightarrow> ('s \<Rightarrow> packet \<Rightarrow> 'e option \<times> 's) \<Rightarrow> 's \<Rightarrow> ('e \<times> 's) option" where
  "echo readp writep s =
    Option.bind (readp s) (\<lambda>(r, s1).
      case r of
        Inl e \<Rightarrow> Some (e, s1)
      | Inr b \<Rightarrow> (case writep s1 b of (Some e, s2) \<Rightarrow> Some (e, s2) | (None, s2) \<Rightarrow> echo readp writep s2))"

datatype 'e probe_error = RandomError string | ProbeWrite 'e | ProbeRead nat 'e | DataMismatch

text \<open>The rounds from number \<open>i\<close> on; \<open>rand i\<close> is what the random source gives in round \<open>i\<close>.\<close>

fun probe_rounds ::
    "('s \<Rightarrow> (('e + packet) \<times> 's) option) \<Rightarrow> ('s \<Rightarrow> packet \<Rightarrow> 'e option \<times> 's) \<Rightarrow> (nat \<Rightarrow> string + packet) \<Rightarrow>
      nat \<Rightarrow> nat \<Rightarrow> 's \<Rightarrow> ('e probe_error option \<times> 's) option" where
  "probe_rounds readp writep rand i 0 s = Some (None, s)"
| "probe_rounds readp writep rand i (Suc n) s =
     (case rand i of
        Inl e \<Rightarrow> Some (Some (RandomError e), s)
      | Inr b \<Rightarrow>
          (case writep s b of
             (Some e, s1) \<Rightarrow> Some (Some (ProbeWrite e), s1)
           | (None, s1) \<Rightarrow>
               (case readp s1 of
                  None \<Rightarrow> None
                | Some (Inl e, s2) \<Rightarrow> Some (Some (ProbeRead i e), s2)
                | Some (Inr got, s2) \<Rightarrow>
                    if got \<noteq> b then Some (Some DataMismatch, s2)
                    else probe_rounds readp writep rand (Suc i) n s2)))"

definition probe ::
    "('s \<Rightarrow> (('e + packet) \<times> 's) option) \<Rightarrow> ('s \<Rightarrow> packet \<Rightarrow> 'e option \<times> 's) \<Rightarrow> (nat \<Rightarrow> string + packet) \<Rightarrow>
      int \<Rightarrow> 's \<Rightarrow> ('e probe_error option \<times> 's) option" where
  "probe readp writep rand count s = probe_rounds readp writep rand 0 (nat count) s"

text \<open>On a framed stream.\<close>

definition stream_read :: "netconn \<Rightarrow> ((conn_error + packet) \<times> netconn) option" where
  "stream_read c = Some (framed_ReadPacket c)"

lemma stream_read_iff: "stream_read c = Some x \<longleftrightarrow> framed_ReadPacket c = x" "stream_read c \<noteq> None"
  by (simp_all add: stream_read_def)

definition stream_echo :: "netconn \<Rightarrow> (conn_error \<times> netconn) option" where
  "stream_echo = echo stream_read framed_WritePacket"

definition stream_probe :: "(nat \<Rightarrow> string + packet) \<Rightarrow> int \<Rightarrow> netconn \<Rightarrow> (conn_error probe_error option \<times> netconn) option" where
  "stream_probe = probe stream_read framed_WritePacket"

subsection \<open>Any packet connection\<close>

text \<open>With the promises of a packet connection a probe that passes sent only packets of legal
  size, whatever its peer did.\<close>

context packet_conn
begin

lemma probe_sends_sized:
  assumes "probe_rounds (readp c) (writep c) rand i n s = Some (None, s')"
  shows "\<forall>k < n. \<exists>b. rand (i + k) = Inr b \<and> sized b"
  using assms
proof (induction n arbitrary: i s)
  case (Suc n)
  then obtain b s1 s2 where b: "rand i = Inr b" "writep c s b = (None, s1)" "readp c s1 = Some (Inr b, s2)"
      "probe_rounds (readp c) (writep c) rand (Suc i) n s2 = Some (None, s')"
    by (auto split: sum.splits prod.splits option.splits if_splits)
  have "sized b" using written_sized [of c s b] b(2) by simp
  with b(1) Suc.IH [OF b(4)] show ?case by (auto simp: less_Suc_eq_0_disj)
qed simp

end

lemmas stream_probe_sized = framed_conn.probe_sends_sized

subsection \<open>A framed stream\<close>

lemma stream_echo_simp:
  "stream_echo c =
    (case framed_ReadPacket c of
       (Inl e, c1) \<Rightarrow> Some (e, c1)
     | (Inr b, c1) \<Rightarrow> (case framed_WritePacket c1 b of (Some e, c2) \<Rightarrow> Some (e, c2) | (None, c2) \<Rightarrow> stream_echo c2))"
  unfolding stream_echo_def by (subst echo.simps) (simp add: stream_read_def split: prod.split sum.split)

lemma frame_nonempty: "length (frame b) = length b + 2"
  by (simp add: frame_def)

lemma echo_writes:
  "\<exists>e c' ps r k. stream_echo c = Some (e, c') \<and> list_all sized ps \<and> rd c = concat (map frame ps) @ r \<and>
    wr c' = wr c @ take k (concat (map frame ps))"
proof (induction "length (rd c)" arbitrary: c rule: less_induct)
  case less
  obtain r1 c1 where rd: "framed_ReadPacket c = (r1, c1)" by (metis prod.exhaust)
  show ?case
  proof (cases r1)
    case (Inl e)
    have "wr c1 = wr c" using rd by (auto simp: framed_ReadPacket_def readFull_def Let_def split: prod.splits sum.splits if_splits)
    then have "stream_echo c = Some (e, c1) \<and> list_all sized [] \<and> rd c = concat (map frame []) @ rd c \<and>
        wr c1 = wr c @ take 0 (concat (map frame []))"
      using rd Inl by (simp add: stream_echo_simp [of c])
    then show ?thesis by blast
  next
    case (Inr b)
    with rd have b: "sized b" "rd c = frame b @ rd c1" "wr c1 = wr c" using framed_ReadPacket_sized by blast+
    obtain e c2 where w: "framed_WritePacket c1 b = (e, c2)" by (metis prod.exhaust)
    from framed_WritePacket_prefix [OF w] obtain k where
      k: "wr c2 = wr c1 @ take k (frame b)" "e = None \<longrightarrow> wr c2 = wr c1 @ frame b" by blast
    show ?thesis
    proof (cases e)
      case (Some x)
      then have "stream_echo c = Some (x, c2) \<and> list_all sized [b] \<and> rd c = concat (map frame [b]) @ rd c1 \<and>
          wr c2 = wr c @ take k (concat (map frame [b]))"
        using rd Inr w k(1) b by (simp add: stream_echo_simp [of c])
      then show ?thesis by blast
    next
      case None
      have r2: "rd c2 = rd c1" using framed_WritePacket_rd [of c1 b] w by simp
      then have "length (rd c2) < length (rd c)" using b(2) by (simp add: frame_nonempty)
      from less.hyps [OF this] obtain x c' ps r k where
        ih: "stream_echo c2 = Some (x, c')" "list_all sized ps" "rd c2 = concat (map frame ps) @ r"
          "wr c' = wr c2 @ take k (concat (map frame ps))" by blast
      have "stream_echo c = Some (x, c')" using rd Inr w None ih(1) by (simp add: stream_echo_simp [of c])
      moreover have "list_all sized (b # ps)" using b(1) ih(2) by simp
      moreover have "rd c = concat (map frame (b # ps)) @ r" using b(2) r2 ih(3) by simp
      moreover have "wr c' = wr c @ take (length (frame b) + k) (concat (map frame (b # ps)))"
        using ih(4) k(2) None b(3) by simp
      ultimately show ?thesis by blast
    qed
  qed
qed

lemma echo_smooth:
  assumes "list_all sized ps" and "wsched c = []" and "rd c = concat (map frame ps)"
  shows "\<exists>c'. stream_echo c = Some (rd_err c, c') \<and> wr c' = wr c @ concat (map frame ps) \<and> rd c' = []"
  using assms
proof (induction ps arbitrary: c)
  case Nil
  then show ?case by (simp add: stream_echo_simp [of c] framed_ReadPacket_def readFull_def)
next
  case (Cons b ps)
  let ?c1 = "c\<lparr>rd := concat (map frame ps)\<rparr>" and ?c2 = "c\<lparr>rd := concat (map frame ps), wr := wr c @ frame b\<rparr>"
  have "framed_ReadPacket c = (Inr b, ?c1)" using Cons.prems framed_ReadPacket_frame [of b c] by simp
  moreover have "framed_WritePacket ?c1 b = (None, ?c2)" using Cons.prems framed_WritePacket_smooth [of b ?c1] by simp
  ultimately have "stream_echo c = stream_echo ?c2" by (simp add: stream_echo_simp [of c])
  with Cons.IH [of ?c2] Cons.prems show ?case by simp
qed

text \<open>The random packets of the rounds from number \<open>i\<close> on.\<close>

definition draws :: "(nat \<Rightarrow> string + packet) \<Rightarrow> nat \<Rightarrow> packet list \<Rightarrow> bool" where
  "draws rand i bs \<longleftrightarrow> (\<forall>k < length bs. rand (i + k) = Inr (bs ! k))"

lemma draws_Cons: "draws rand i (b # bs) \<longleftrightarrow> rand i = Inr b \<and> draws rand (Suc i) bs"
  by (auto simp: draws_def less_Suc_eq_0_disj)

lemma probe_passes:
  assumes "probe_rounds stream_read framed_WritePacket rand i (length bs) c = Some (None, c')" and "draws rand i bs"
  shows "rd c = concat (map frame bs) @ rd c' \<and> wr c' = wr c @ concat (map frame bs)"
  using assms
proof (induction bs arbitrary: i c)
  case (Cons b bs)
  then have rand: "rand i = Inr b" and rest: "draws rand (Suc i) bs" by (simp_all add: draws_Cons)
  from Cons.prems(1) rand obtain c1 c2 where
    w: "framed_WritePacket c b = (None, c1)" and r: "framed_ReadPacket c1 = (Inr b, c2)"
    and go: "probe_rounds stream_read framed_WritePacket rand (Suc i) (length bs) c2 = Some (None, c')"
    by (auto simp: stream_read_iff split: prod.splits option.splits sum.splits if_splits)
  have "rd c1 = rd c" using framed_WritePacket_rd [of c b] w by simp
  with framed_ReadPacket_sized [OF r] framed_WritePacket_prefix [OF w] Cons.IH [OF go rest] show ?case by auto
qed simp

lemma probe_smooth:
  assumes "draws rand i bs" and "list_all sized bs" and "wsched c = []" and "rd c = concat (map frame bs) @ rest"
  shows "\<exists>c'. probe_rounds stream_read framed_WritePacket rand i (length bs) c = Some (None, c')"
  using assms
proof (induction bs arbitrary: i c)
  case (Cons b bs)
  then have rand: "rand i = Inr b" "draws rand (Suc i) bs" by (simp_all add: draws_Cons)
  let ?c1 = "c\<lparr>wr := wr c @ frame b\<rparr>" and ?r = "concat (map frame bs) @ rest"
  have "framed_WritePacket c b = (None, ?c1)" using Cons.prems framed_WritePacket_smooth [of b c] by simp
  moreover have "framed_ReadPacket ?c1 = (Inr b, ?c1\<lparr>rd := ?r\<rparr>)"
    using Cons.prems framed_ReadPacket_frame [of b ?c1 ?r] by simp
  ultimately show ?case using rand Cons.IH [of "Suc i" "?c1\<lparr>rd := ?r\<rparr>"] Cons.prems by (simp add: stream_read_def)
qed simp

lemma probe_total: "\<exists>r c'. probe_rounds stream_read framed_WritePacket rand i n c = Some (r, c')"
  by (induction n arbitrary: i c) (auto simp: stream_read_def split: sum.split prod.split option.split)

subsection \<open>Properties\<close>


text \<open>C24: The probe measures what it says. When the random source works and the writes do, a probe of \<open>count\<close>
  packets over a framed stream returns, and passes exactly when the peer sent back these packets, in this order,
  each unchanged; it has then written them, and left what follows unread. An echoing peer that gets what the probe writes sends back
  exactly what the probe waits for.\<close>

theorem probe_meets_echo:
  assumes "draws rand 0 bs" and "list_all sized bs" and "wsched c = []"
  shows "\<exists>r c'. stream_probe rand (int (length bs)) c = Some (r, c') \<and>
    (r = None \<longleftrightarrow> (\<exists>rest. rd c = concat (map frame bs) @ rest)) \<and>
    (r = None \<longrightarrow> wr c' = wr c @ concat (map frame bs) \<and> rd c = concat (map frame bs) @ rd c' \<and>
      (\<exists>e'. stream_echo (conn_of (concat (map frame bs))) = Some (EOF, e') \<and> wr e' = concat (map frame bs)))"
proof -
  obtain r c' where p: "stream_probe rand (int (length bs)) c = Some (r, c')"
    using probe_total unfolding stream_probe_def probe_def by fastforce
  then have run: "probe_rounds stream_read framed_WritePacket rand 0 (length bs) c = Some (r, c')"
    by (simp add: stream_probe_def probe_def)
  have echo: "\<exists>e'. stream_echo (conn_of (concat (map frame bs))) = Some (EOF, e') \<and> wr e' = concat (map frame bs)"
    using echo_smooth [OF assms(2), of "conn_of (concat (map frame bs))"] by (auto simp: conn_of_def)
  have pass: "r = None \<Longrightarrow> rd c = concat (map frame bs) @ rd c' \<and> wr c' = wr c @ concat (map frame bs)"
    using probe_passes [OF _ assms(1)] run by blast
  have "r = None" if "rd c = concat (map frame bs) @ rest" for rest
    using probe_smooth [OF assms that] run by simp
  with p pass echo show ?thesis by blast
qed

theorem probe_meets_echo_witness:
  "\<exists>c'. stream_probe (\<lambda>i. Inr [of_nat i, 7]) 2 (conn_of ([0, 2, 0, 7] @ [0, 2, 1, 7] @ [9])) = Some (None, c') \<and> rd c' = [9]"
proof -
  have d: "draws (\<lambda>i. Inr [of_nat i, 7]) 0 [[0, 7], [1, 7]]" by (simp add: draws_def less_Suc_eq)
  have s: "list_all sized [[0, 7], [1, 7 :: byte]]" by (simp add: sized_def MTU_def)
  have f: "concat (map frame [[0, 7], [1, 7]]) = [0, 2, 0, 7] @ [0, 2, 1, 7]" by code_simp
  have w: "wsched (conn_of ([0, 2, 0, 7] @ [0, 2, 1, 7] @ [9])) = []" by (simp add: conn_of_def)
  show ?thesis using probe_meets_echo [OF d s w] unfolding f by (auto simp: conn_of_def)
qed

end
