(* ===== verification/Spec2Isabelle.thy ===== *)
theory Spec2Isabelle
  imports Fragments Transport Bridge Setup SipProtocol Serve RtcDelivery RtcOffer Session Dial SelfTest
begin

text \<open>
  Verification library of the tunnel (Go module \<open>tunnel-lab\<close>): a client and a server that carry IP packets
  of at most 1280 bytes between their TUN devices, over SIP messages, over RTP of a WebRTC
  session, or over a REALITY stream, and that change and restore the host's network configuration around
  each session.

  \<^bold>\<open>How the program fits together, and where it is modelled.\<close> \<open>cmd/tunnel-lab/main.go\<close> loads a configuration,
  then serves or dials. \<open>transport.Serve\<close> and \<open>transport.Dial\<close> give it a packet connection; \<open>runTUN\<close> opens the device, lets
  \<open>network.Setup\<close> change the host, and \<open>tunnel.Bridge\<close> copies packets until one side ends; then
  everything is undone. \<open>init\<close> makes the two configurations.

  \<^item> \<open>Prelude\<close>, \<open>Bytes\<close>, \<open>GoStrings\<close>, \<open>Netip\<close>: Go's maps as association lists, runs of state machines, resources
    opened and closed; bytes and big-endian integers; the functions of \<open>strings\<close>, \<open>strconv\<close>, \<open>hex\<close>,
    \<open>net\<close> and \<open>net/netip\<close> the program calls.
  \<^item> \<open>Packet\<close>, \<open>Netconn\<close>: \<open>transport.PacketConn\<close> and self-delimiting formats as the locales \<open>packet_conn\<close> and
    \<open>frame_codec\<close>; byte streams with partial writes, \<open>io.ReadFull\<close> and \<open>writeAll\<close>.
  \<^item> \<open>Fragments\<close> (\<open>transport/fragments.go\<close>): \<open>splitPacket\<close>, the \<open>assembler\<close> record and \<open>push\<close>.
  \<^item> \<open>Transport\<close> (\<open>transport/transport.go\<close>): \<open>framed\<close>, \<open>authStream\<close>, \<open>equal\<close>. \<open>Slot\<close>, \<open>Serve\<close>: \<open>serveStream\<close>. \<open>Dial\<close>:
    \<open>Dial\<close>, \<open>Serve\<close>, \<open>clientTLS\<close>, \<open>serverTLS\<close>, and \<open>localSDP\<close> and \<open>dialWebRTC\<close> of \<open>transport/webrtc.go\<close>.
  \<^item> \<open>SipMessage\<close>, \<open>SipSession\<close>, \<open>SipExchange\<close>, \<open>SipProtocol\<close> (\<open>transport/sip.go\<close>): \<open>readSIP\<close> and \<open>send\<close>; the \<open>sipConn\<close> record with
    \<open>request\<close>, \<open>reply\<close>, both sides of the authentication, \<open>setKey\<close>, the read loop, \<open>ReadPacket\<close> and \<open>WritePacket\<close>; what two ends
    make of each other's messages; the protocol's promises.
  \<^item> \<open>RtcConn\<close>, \<open>RtcDelivery\<close>, \<open>RtcPeer\<close>, \<open>RtcOffer\<close> (\<open>transport/webrtc.go\<close>): the \<open>rtcConn\<close> record, its numbering, heartbeat and
    receive loop; delivery end to end; \<open>newPeer\<close>, \<open>wait\<close> and \<open>remote\<close>; the \<open>/offer\<close> handler, its sessions and the shutdown.
  \<^item> \<open>Reality\<close> (\<open>transport/reality.go\<close>): \<open>realityJSON\<close>, \<open>dialReality\<close>, \<open>serveReality\<close>, \<open>realityConn\<close>.
  \<^item> \<open>Tun\<close> (\<open>tun/device.go\<close>): the \<open>device\<close> record, \<open>tun_Open\<close>, \<open>tun_ReadPacket\<close>, \<open>tun_WritePacket\<close>, \<open>tun_Close\<close>.
  \<^item> \<open>Bridge\<close> (\<open>tunnel/bridge.go\<close>): \<open>ValidateIP\<close>, \<open>Source\<close>, the copying goroutines and \<open>Bridge\<close> as the relation \<open>bridge_step\<close>.
  \<^item> \<open>Config\<close> (\<open>config/config.go\<close>): the configuration's records, \<open>Validate\<close>, \<open>Load\<close>.
  \<^item> \<open>Manager\<close>, \<open>MacRoutes\<close>, \<open>Setup\<close> (\<open>network/network.go\<close>, \<open>network/macos_routes.go\<close>): the \<open>Manager\<close> with its undo list; routes to the underlay;
    \<open>mac\<close>, \<open>linux\<close> and \<open>Setup\<close>.
  \<^item> \<open>Session\<close>, \<open>SelfTest\<close>, \<open>Generate\<close> (\<open>cmd/tunnel-lab\<close>): \<open>runTUN\<close>, the client's loop, the server's handler; \<open>echo\<close> and \<open>probe\<close>;
    \<open>generate\<close>.
  \<^item> This theory: the packet type all end points keep.

  \<^bold>\<open>Conventions.\<close> A method on a pointer is a function from the state to a result and the new state;
    errors are values of a sum or option type; a panic is an error value of its own (\<open>Panicked\<close>, \<open>TunPanic\<close>, \<open>Crashed\<close>). What the runtime or a library
    decides is an argument: the case a \<open>select\<close> takes, the order of a \<open>range\<close> over a map, the schedule of partial writes, random
    values, the outcome of a command. A call that may block or run for ever has \<open>None\<close> for that. Goroutines are
    inductive step relations whose steps are the statements that touch shared state.

  \<^bold>\<open>What the lemmas show.\<close> Per component, an invariant that every operation or step keeps (\<open>wf_assembler\<close>, \<open>bridge_inv\<close>,
    \<open>serve_inv\<close>, \<open>offers_inv\<close>, \<open>unwinds\<close>, \<open>rtc_wf\<close>, \<open>rx_sized\<close>), lifted to runs by the locales
    \<open>guarded_machine\<close>, \<open>slot_gate\<close> and \<open>setup_procedure\<close>, each interpreted on the model's own definitions; then the
    properties, each introduced by its claim. Round trips cover the frames, the SIP messages, SIP packets, RTP delivery and the probe; refinement, the two
    servers against a slot with one holder; safety, cleanup of the network in every session and loop, no
    spoofed source, no replay, no authentication without the token, no leaked resource; liveness, that handshakes complete and
    that the bridge and the servers can always return; termination, \<open>echo\<close> and the read loops.

  \<^bold>\<open>Bounds.\<close> Integers whose wrap-around matters are words: RTP sequence numbers and ports (16 bits), fragment ids and timestamps (32), SIP sequence numbers
    (64). Limits are the code's: \<open>MTU\<close>, fragment sizes, the assembler's 64 partial and 4096 completed ids and
    two-second window, queues of 256, 8 and 8, SIP headers of 8192 bytes, a configuration of 65536 bytes. Loops are
    structural or have a measure; \<open>tun_ReadPacket\<close>, \<open>echo\<close> and the client's loop, which may run for ever, are partial functions into an option. No
    model runs on fuel; \<open>pull\<close> counts batches only to say when \<open>ReadPacket\<close> returns.

  \<^bold>\<open>What is assumed.\<close> Only where a statement says so: \<open>digests\<close> and \<open>gcm\<close> (digest lengths; decryption undoes encryption) for SIP;
    \<open>shuffles\<close> (a map's order is a permutation); \<open>trusted\<close> (a command's undo restores what the command changed; queries change
    nothing); \<open>passive_driver\<close>, \<open>passive_link\<close>, \<open>passive_bridge\<close>, \<open>passive_caller\<close> (they leave the host's configuration alone);
    \<open>well_behaved\<close> (a TUN driver stays within its buffers); \<open>sound_entropy\<close> (lengths of random values and keys). Each is
    shown to hold for a concrete instance by the witness of a theorem that uses it.

  \<^bold>\<open>Not modelled.\<close> The bodies of libraries (pion, Xray, wireguard's drivers, TLS, HTTP, AES-GCM and HMAC), which are parameters;
    the processes \<open>execute\<close> starts, whose outcomes are a parameter; deadlines and
    timers, except as the errors they cause; flag parsing, signal handling and logging of \<open>main\<close>; the validity period and key usages of the
    generated certificate; the JSON decoder and encoder of configurations; the goroutines that only drain a channel (driver events, RTCP). The tests, scripts and
    documents of the repository are not modelled either.
\<close>

section \<open>Packets everywhere\<close>

text \<open>What each end point of packets keeps invariant: the packets it holds have legal sizes.\<close>

definition typed_ends :: "sip_conn \<Rightarrow> rtc \<Rightarrow> device \<Rightarrow> bool" where
  "typed_ends s p d \<longleftrightarrow> rx_sized s \<and> rtc_wf p \<and> list_all sized (d_pending d)"

lemma typed_ends_initial:
  assumes "tun_Open drv goos name w = (Inr d, w')"
  shows "typed_ends (newSIP n lo t b i) (new_rtc sched) d"
  using assms
  by (auto simp: typed_ends_def rx_sized_def newSIP_def rtc_wf_def new_rtc_def tun_Open_def Let_def
      split: if_splits prod.splits option.splits sum.splits)



end
